(* ===== verification/GoInt.thy ===== *)
theory GoInt
  imports Complex_Main "HOL-Library.Word" "HOL-Library.Log_Nat"
begin

text \<open>
  Go's machine integers. A Go \<open>int64\<close> (and \<open>int\<close>, which is 64 bits wide on every platform
  the plugins are released for) is a 64-bit word read as two's complement: \<open>+\<close>, \<open>-\<close> and
  \<open>*\<close> wrap around, comparison is signed, division truncates towards zero. The type
  \<open>i64\<close> packages a \<open>64 word\<close> so that the library's classes can give it exactly that
  arithmetic (\<open>comm_ring_1\<close>) and that order (\<open>linorder\<close>). \<open>val\<close> is the
  mathematical value; the lemmas of \<open>i64_arith\<close> move a statement to \<open>val\<close> and drop the
  wrap-around where a range fact excludes it.
\<close>

named_theorems i64_arith "moving signed 64-bit facts to their integer values"

datatype i64 = I64 (word_of: "64 word")

definition val :: "i64 \<Rightarrow> int" where
  "val a = sint (word_of a)"

definition of_val :: "int \<Rightarrow> i64" where
  "of_val x = I64 (word_of_int x)"

instantiation i64 :: comm_ring_1
begin

definition zero_i64 :: i64 where
  "0 = I64 0"

definition one_i64 :: i64 where
  "1 = I64 1"

definition plus_i64 :: "i64 \<Rightarrow> i64 \<Rightarrow> i64" where
  "a + b = I64 (word_of a + word_of b)"

definition minus_i64 :: "i64 \<Rightarrow> i64 \<Rightarrow> i64" where
  "a - b = I64 (word_of a - word_of b)"

definition uminus_i64 :: "i64 \<Rightarrow> i64" where
  "- a = I64 (- word_of a)"

definition times_i64 :: "i64 \<Rightarrow> i64 \<Rightarrow> i64" where
  "a * b = I64 (word_of a * word_of b)"

instance
  by standard
    (auto simp: zero_i64_def one_i64_def plus_i64_def minus_i64_def uminus_i64_def
      times_i64_def algebra_simps)

end

instantiation i64 :: linorder
begin

definition less_eq_i64 :: "i64 \<Rightarrow> i64 \<Rightarrow> bool" where
  "a \<le> b \<longleftrightarrow> val a \<le> val b"

definition less_i64 :: "i64 \<Rightarrow> i64 \<Rightarrow> bool" where
  "a < b \<longleftrightarrow> val a < val b"

lemma val_inject: "val a = val b \<longleftrightarrow> a = b"
  by (cases a; cases b) (auto simp: val_def intro: signed_word_eqI)

instance
  by standard (auto simp: less_eq_i64_def less_i64_def val_inject)

end

section \<open>Values and ranges\<close>

definition in_range :: "int \<Rightarrow> bool" where
  "in_range x \<longleftrightarrow> - (2 ^ 63) \<le> x \<and> x < 2 ^ 63"

lemma val_ge: "- 9223372036854775808 \<le> val a"
  using sint_ge [of "word_of a"] by (simp add: val_def)

lemma val_less: "val a < 9223372036854775808"
  using sint_lt [of "word_of a"] by (simp add: val_def)

lemma in_range_val [simp]: "in_range (val a)"
  using val_ge [of a] val_less [of a] by (simp add: in_range_def)

lemma val_of_val: "in_range x \<Longrightarrow> val (of_val x) = x"
  by (simp add: val_def of_val_def in_range_def sint_sbintrunc' signed_take_bit_int_eq_self)

lemma of_val_val [simp]: "of_val (val a) = a"
  by (simp add: val_def of_val_def)

lemma of_val_eq_of_int: "of_val x = of_int x"
proof -
  have nat: "(of_nat k :: i64) = I64 (of_nat k)" for k
    by (induction k) (simp_all add: zero_i64_def one_i64_def plus_i64_def)
  show ?thesis
  proof (cases "0 \<le> x")
    case True
    then obtain k where "x = int k" by (metis nonneg_int_cases)
    then show ?thesis by (simp add: of_val_def nat)
  next
    case False
    then obtain k where "x = - int k" by (metis nonpos_int_cases linear)
    then show ?thesis by (simp add: of_val_def nat uminus_i64_def)
  qed
qed

lemma val_of_int: "in_range x \<Longrightarrow> val (of_int x) = x"
  by (simp add: val_of_val flip: of_val_eq_of_int)

lemma of_val_add: "of_val (x + y) = of_val x + of_val y"
  and of_val_diff: "of_val (x - y) = of_val x - of_val y"
  and of_val_mult: "of_val (x * y) = of_val x * of_val y"
  by (simp_all add: of_val_eq_of_int)

lemma of_int_val [simp]: "of_int (val a) = a"
  by (simp flip: of_val_eq_of_int)

lemma val_0 [simp]: "val 0 = 0"
  using val_of_int [of 0] by (simp add: in_range_def)

lemma val_1 [simp]: "val 1 = 1"
  using val_of_int [of 1] by (simp add: in_range_def)

lemma val_numeral [simp]:
  "(numeral n :: int) < 9223372036854775808 \<Longrightarrow> val (numeral n) = numeral n"
  using val_of_int [of "numeral n"] by (simp add: in_range_def order_trans [of _ 0])

lemma val_neg_numeral [simp]:
  "(numeral n :: int) \<le> 9223372036854775808 \<Longrightarrow> val (- numeral n) = - numeral n"
  using val_of_int [of "- numeral n"]
  by (simp add: in_range_def)

lemma val_add: "in_range (val a + val b) \<Longrightarrow> val (a + b) = val a + val b"
  using val_of_int [of "val a + val b"] by simp

lemma val_diff: "in_range (val a - val b) \<Longrightarrow> val (a - b) = val a - val b"
  using val_of_int [of "val a - val b"] by simp

lemma val_mult: "in_range (val a * val b) \<Longrightarrow> val (a * b) = val a * val b"
  using val_of_int [of "val a * val b"] by simp

lemma val_minus: "in_range (- val a) \<Longrightarrow> val (- a) = - val a"
  using val_of_int [of "- val a"] by simp

lemmas i64_le_iff [i64_arith] = less_eq_i64_def
lemmas i64_less_iff [i64_arith] = less_i64_def

lemma i64_eq_iff: "(a :: i64) = b \<longleftrightarrow> val a = val b"
  by (simp add: val_inject)

text \<open>
  The only subtraction the schedulers rely on: what was checked to be available is taken away.
\<close>

lemma val_diff_le [i64_arith]: "0 \<le> b \<Longrightarrow> b \<le> a \<Longrightarrow> val (a - b) = val a - val b"
  by (rule val_diff) (use val_ge [of a] val_ge [of b] val_less [of a] val_less [of b] in
    \<open>simp add: in_range_def i64_le_iff\<close>)

section \<open>Truncated division\<close>

definition tdiv :: "int \<Rightarrow> int \<Rightarrow> int" where
  "tdiv a b = sgn a * sgn b * (\<bar>a\<bar> div \<bar>b\<bar>)"

definition quot :: "i64 \<Rightarrow> i64 \<Rightarrow> i64" where
  "quot a b = of_val (tdiv (val a) (val b))"

lemma tdiv_pos: "0 \<le> a \<Longrightarrow> 0 < b \<Longrightarrow> tdiv a b = a div b"
  by (cases "a = 0") (simp_all add: tdiv_def)

lemma tdiv_neg: "a < 0 \<Longrightarrow> 0 < b \<Longrightarrow> tdiv a b = - (- a div b)"
  by (simp add: tdiv_def)

lemma le_div_iff_mult_le: "0 < n \<Longrightarrow> k \<le> a div n \<longleftrightarrow> k * n \<le> a" for k n a :: int
proof
  assume "0 < n" "k \<le> a div n"
  then have "k * n \<le> a div n * n" by simp
  also have "\<dots> \<le> a" using \<open>0 < n\<close> by (simp add: minus_mod_eq_div_mult [symmetric])
  finally show "k * n \<le> a" .
next
  assume "0 < n" "k * n \<le> a"
  then have "k * n div n \<le> a div n" by (intro zdiv_mono1)
  with \<open>0 < n\<close> show "k \<le> a div n" by simp
qed

lemma val_quot_pos:
  assumes "0 < b"
  shows "val (quot a b) = tdiv (val a) (val b)"
proof -
  have b: "0 < val b" using assms by (simp add: i64_less_iff)
  have "\<bar>tdiv (val a) (val b)\<bar> = \<bar>val a\<bar> div val b"
    using b by (cases "val a" "0 :: int" rule: linorder_cases)
      (simp_all add: tdiv_def pos_imp_zdiv_nonneg_iff)
  also have "\<dots> \<le> \<bar>val a\<bar>"
    using zdiv_mono2 [of "\<bar>val a\<bar>" 1 "val b"] b by simp
  finally have "\<bar>tdiv (val a) (val b)\<bar> \<le> \<bar>val a\<bar>" .
  moreover have "0 \<le> tdiv (val a) (val b)" if "0 \<le> val a"
    using that b by (simp add: tdiv_pos pos_imp_zdiv_nonneg_iff)
  moreover have "tdiv (val a) (val b) \<le> 0" if "val a < 0"
    using that b by (simp add: tdiv_neg pos_imp_zdiv_nonneg_iff)
  ultimately have "in_range (tdiv (val a) (val b))"
    using val_ge [of a] val_less [of a] unfolding in_range_def
    by (cases "0 \<le> val a") (auto simp: abs_if split: if_splits)
  then show ?thesis by (simp add: quot_def val_of_val)
qed


section \<open>Literals\<close>

text \<open>Comparisons of literals evaluate by \<open>simp\<close>.\<close>

lemmas i64_literal_le [simp] =
  i64_le_iff [of "numeral m" "numeral n" for m n] i64_le_iff [of 0 "numeral n" for n]
  i64_le_iff [of "numeral n" 0 for n] i64_le_iff [of 1 "numeral n" for n]
  i64_le_iff [of "numeral n" 1 for n] i64_le_iff [of 0 1] i64_le_iff [of 1 0]
  i64_le_iff [of "- numeral m" "numeral n" for m n] i64_le_iff [of "- numeral n" 0 for n]
  i64_le_iff [of 0 "- numeral n" for n] i64_le_iff [of "numeral m" "- numeral n" for m n]

lemmas i64_literal_less [simp] =
  i64_less_iff [of "numeral m" "numeral n" for m n] i64_less_iff [of 0 "numeral n" for n]
  i64_less_iff [of "numeral n" 0 for n] i64_less_iff [of 1 "numeral n" for n]
  i64_less_iff [of "numeral n" 1 for n] i64_less_iff [of 0 1] i64_less_iff [of 1 0]
  i64_less_iff [of "- numeral m" "numeral n" for m n] i64_less_iff [of "- numeral n" 0 for n]
  i64_less_iff [of 0 "- numeral n" for n] i64_less_iff [of "numeral m" "- numeral n" for m n]

lemmas i64_literal_eq [simp] =
  i64_eq_iff [of "numeral m" "numeral n" for m n] i64_eq_iff [of 0 "numeral n" for n]
  i64_eq_iff [of "numeral n" 0 for n] i64_eq_iff [of 1 "numeral n" for n]
  i64_eq_iff [of "numeral n" 1 for n] i64_eq_iff [of 0 1] i64_eq_iff [of 1 0]

end
