(* ===== verification/Prelude.thy ===== *)
theory Prelude
  imports GoInt "HOL-Library.AList" "HOL-Library.Multiset" "HOL-Library.List_Lexorder"
    "HOL-Library.Char_ord"
begin

text \<open>
  What every component shares: the errors the plugins return, results that are an error or a
  value, Go's maps, and list lemmas about the loops.
\<close>

section \<open>Errors and results\<close>

text \<open>
  The sentinel errors of the repository and of core that a caller can tell apart with
  \<open>errors.Is\<close>. Wrapping with a message keeps the sentinel, so the message is dropped.
  \<open>ErrJoin\<close> is \<open>errors.Join\<close>; \<open>ErrPanic\<close> is a Go runtime panic (a write to a nil map, a nil
  dereference, a negative \<open>make\<close>); \<open>ErrExternal\<close> is an error that comes from code outside
  the repository (etcd, the JSON codec, core's decoder), with whatever identifies it there.
\<close>

datatype goerr =
    ErrInsufficientResource | ErrNodeExists | ErrNodeNotExists | ErrEmptyNodeName
  | ErrInvalidEngineArgs | ErrConfigInvalid
  | ErrInvalidCapacity | ErrInvalidVolume | ErrInvalidStorage | ErrInvalidDisk | ErrInvalidParams
  | ErrInvalidGPUMap | ErrInvalidGPUProduct
  | ErrExternal string | ErrJoin "goerr list" | ErrPanic

type_synonym 'a res = "goerr + 'a"

text \<open>Running the rest of a function after an \<open>if err != nil { return err }\<close>.\<close>

definition bind_res :: "'a res \<Rightarrow> ('a \<Rightarrow> 'b res) \<Rightarrow> 'b res" where
  "bind_res r f = (case r of Inl e \<Rightarrow> Inl e | Inr x \<Rightarrow> f x)"

lemma bind_res_simps [simp]: "bind_res (Inl e) f = Inl e" "bind_res (Inr x) f = f x"
  by (simp_all add: bind_res_def)

lemma bind_res_Inr_iff: "bind_res r f = Inr y \<longleftrightarrow> (\<exists>x. r = Inr x \<and> f x = Inr y)"
  by (cases r) auto

lemma bind_res_InrE [elim]:
  assumes "bind_res r f = Inr y"
  obtains x where "r = Inr x" and "f x = Inr y"
  using assms by (auto simp: bind_res_Inr_iff)

text \<open>A Go \<open>error\<close> value: \<open>None\<close> is \<open>nil\<close>.\<close>

definition check :: "goerr option \<Rightarrow> 'a res \<Rightarrow> 'a res" where
  "check e r = (case e of Some err \<Rightarrow> Inl err | None \<Rightarrow> r)"

lemma check_simps [simp]: "check None r = r" "check (Some e) r = Inl e"
  by (simp_all add: check_def)

text \<open>
  \<open>errors.Join\<close> of the non-nil errors, \<open>nil\<close> when there is none;
  \<open>errors.CombineErrors\<close> is the first one that is not nil.
\<close>

fun non_nil :: "goerr option list \<Rightarrow> goerr list" where
  "non_nil [] = []"
| "non_nil (None # es) = non_nil es"
| "non_nil (Some e # es) = e # non_nil es"

definition errors_join :: "goerr option list \<Rightarrow> goerr option" where
  "errors_join es = (case non_nil es of [] \<Rightarrow> None | errs \<Rightarrow> Some (ErrJoin errs))"

definition combine_errors :: "goerr option \<Rightarrow> goerr option \<Rightarrow> goerr option" where
  "combine_errors e1 e2 = (case e1 of Some e \<Rightarrow> Some e | None \<Rightarrow> e2)"

lemma non_nil_empty_iff: "non_nil es = [] \<longleftrightarrow> (\<forall>e \<in> set es. e = None)"
  by (induction es rule: non_nil.induct) auto

lemma errors_join_None_iff [simp]: "errors_join es = None \<longleftrightarrow> (\<forall>e \<in> set es. e = None)"
  by (auto simp: errors_join_def non_nil_empty_iff [symmetric] split: list.splits)

lemma combine_errors_None_iff [simp]:
  "combine_errors e1 e2 = None \<longleftrightarrow> e1 = None \<and> e2 = None"
  by (cases e1) (auto simp: combine_errors_def)

text \<open>\<open>errors.Is\<close>: the sentinel itself, or one of the errors joined.\<close>

fun errors_is :: "goerr \<Rightarrow> goerr \<Rightarrow> bool" where
  "errors_is (ErrJoin es) t \<longleftrightarrow> ErrJoin es = t \<or> list_ex (\<lambda>e. errors_is e t) es"
| "errors_is e t \<longleftrightarrow> e = t"

section \<open>Go maps\<close>

text \<open>
  A Go map is the list of its entries in the order a \<open>range\<close> loop meets them; the runtime
  may pick any order, so what a loop does is stated for every such list. The keys are distinct
  (\<open>wf_map\<close>). Reading a key that is absent gives the zero value (\<open>mget\<close>), writing one
  overwrites or adds (\<open>mput\<close>). Two lists stand for the same map when they have the same
  entries (\<open>same_map\<close>).
\<close>

type_synonym ('k, 'v) gomap = "('k \<times> 'v) list"

definition wf_map :: "('k, 'v) gomap \<Rightarrow> bool" where
  "wf_map m \<longleftrightarrow> distinct (map fst m)"

definition mget :: "('k, 'v::zero) gomap \<Rightarrow> 'k \<Rightarrow> 'v" where
  "mget m k = (case map_of m k of Some v \<Rightarrow> v | None \<Rightarrow> 0)"

definition mput :: "'k \<Rightarrow> 'v \<Rightarrow> ('k, 'v) gomap \<Rightarrow> ('k, 'v) gomap" where
  "mput k v m = AList.update k v m"

definition mdelete :: "'k \<Rightarrow> ('k, 'v) gomap \<Rightarrow> ('k, 'v) gomap" where
  "mdelete k m = AList.delete k m"

definition same_map :: "('k, 'v) gomap \<Rightarrow> ('k, 'v) gomap \<Rightarrow> bool" where
  "same_map m m' \<longleftrightarrow> map_of m = map_of m'"

lemma wf_map_Nil [simp]: "wf_map []"
  by (simp add: wf_map_def)

lemma wf_map_Cons [simp]: "wf_map ((k, v) # m) \<longleftrightarrow> k \<notin> fst ` set m \<and> wf_map m"
  by (simp add: wf_map_def)

lemma wf_map_put [simp, intro]: "wf_map m \<Longrightarrow> wf_map (mput k v m)"
  by (simp add: wf_map_def mput_def distinct_update)

lemma wf_map_delete [simp, intro]: "wf_map m \<Longrightarrow> wf_map (mdelete k m)"
  by (simp add: wf_map_def mdelete_def distinct_delete)

lemma wf_map_filter [simp, intro]: "wf_map m \<Longrightarrow> wf_map (filter P m)"
  by (simp add: wf_map_def distinct_map_filter)

lemma map_of_put [simp]: "map_of (mput k v m) = (map_of m)(k \<mapsto> v)"
  by (simp add: mput_def update_conv')

lemma map_of_delete [simp]: "map_of (mdelete k m) = (map_of m)(k := None)"
  by (simp add: mdelete_def delete_conv')

lemma mget_put [simp]: "mget (mput k v m) k' = (if k = k' then v else mget m k')"
  by (simp add: mget_def)

lemma mget_delete [simp]: "mget (mdelete k m) k' = (if k = k' then 0 else mget m k')"
  by (simp add: mget_def)

lemma mget_Nil [simp]: "mget [] k = 0"
  by (simp add: mget_def)

lemma mget_Cons [simp]: "mget ((k, v) # m) k' = (if k = k' then v else mget m k')"
  by (simp add: mget_def)

lemma wf_map_of_iff: "wf_map m \<Longrightarrow> map_of m k = Some v \<longleftrightarrow> (k, v) \<in> set m"
  by (simp add: wf_map_def)

lemma mget_mem: "wf_map m \<Longrightarrow> (k, v) \<in> set m \<Longrightarrow> mget m k = v"
  by (simp add: mget_def wf_map_of_iff [THEN iffD2])

lemma same_map_refl [simp, intro]: "same_map m m"
  by (simp add: same_map_def)

lemma same_map_sym: "same_map m m' \<Longrightarrow> same_map m' m"
  by (simp add: same_map_def)

lemma same_map_trans: "same_map m m' \<Longrightarrow> same_map m' m'' \<Longrightarrow> same_map m m''"
  by (simp add: same_map_def)

lemma same_map_mget: "same_map m m' \<Longrightarrow> mget m k = mget m' k"
  by (simp add: same_map_def mget_def)

lemma same_map_set: "same_map m m' \<Longrightarrow> wf_map m \<Longrightarrow> wf_map m' \<Longrightarrow> set m = set m'"
  by (metis same_map_def subsetI subset_antisym surj_pair wf_map_of_iff)

lemma same_map_mset:
  assumes "same_map m m'" "wf_map m" "wf_map m'"
  shows "mset m = mset m'"
proof -
  have "distinct m" "distinct m'"
    using assms(2,3) by (auto simp: wf_map_def distinct_map)
  then show ?thesis
    using same_map_set [OF assms] by (simp add: set_eq_iff_mset_eq_distinct)
qed

lemma same_map_keys: "same_map m m' \<Longrightarrow> fst ` set m = fst ` set m'"
  by (simp add: same_map_def dom_map_of_conv_image_fst [symmetric])

section \<open>Lists\<close>

lemma sum_list_mset_eq: "mset xs = mset ys \<Longrightarrow> sum_list (map f xs) = sum_list (map f ys)"
  for f :: "'a \<Rightarrow> 'b::comm_monoid_add"
  by (metis mset_map sum_mset_sum_list)

text \<open>A stable sort leaves alone what is sorted.\<close>

lemma sort_key_id: "sorted (map f xs) \<Longrightarrow> sort_key f xs = xs"
proof (induction xs)
  case (Cons x xs)
  then show ?case by (cases xs) auto
qed simp

text \<open>\<open>slices.IndexFunc\<close>: the first position that satisfies a predicate.\<close>

fun index_of :: "('a \<Rightarrow> bool) \<Rightarrow> 'a list \<Rightarrow> nat option" where
  "index_of P [] = None"
| "index_of P (x # xs) = (if P x then Some 0 else map_option Suc (index_of P xs))"

lemma index_of_None_iff [simp]: "index_of P xs = None \<longleftrightarrow> (\<forall>x \<in> set xs. \<not> P x)"
  by (induction xs) auto

lemma index_of_SomeD: "index_of P xs = Some i \<Longrightarrow> i < length xs \<and> P (xs ! i) \<and> (\<forall>j < i. \<not> P (xs ! j))"
proof (induction xs arbitrary: i)
  case (Cons x xs)
  then show ?case
    by (cases i) (auto simp: nth_Cons less_Suc_eq_0_disj split: if_splits nat.splits)
qed simp

lemma index_of_SomeI:
  "i < length xs \<Longrightarrow> P (xs ! i) \<Longrightarrow> (\<And>j. j < i \<Longrightarrow> \<not> P (xs ! j)) \<Longrightarrow> index_of P xs = Some i"
proof (induction xs arbitrary: i)
  case (Cons x xs)
  then show ?case by (cases i) (fastforce simp: nth_Cons)+
qed simp

lemma index_of_cong: "map f xs = map f ys \<Longrightarrow> index_of (\<lambda>x. P (f x)) xs = index_of (\<lambda>x. P (f x)) ys"
proof (induction xs arbitrary: ys)
  case (Cons x xs)
  then show ?case by (cases ys) auto
qed auto

section \<open>The order of a range loop\<close>

text \<open>
  A map that the code builds itself is met by a \<open>range\<close> over it in an order the runtime picks:
  \<open>shuffle k\<close> is the \<open>k\<close>-th order of a list of entries, in the factorial number system, and every
  order is one of them (\<open>shuffle_onto\<close>). A function with several such loops is given one number
  per loop.
\<close>

fun shuffle :: "nat \<Rightarrow> 'a list \<Rightarrow> 'a list" where
  "shuffle k [] = []"
| "shuffle k (x # xs) =
     (let ys = shuffle (k div (length xs + 1)) xs; i = k mod (length xs + 1) in take i ys @ x # drop i ys)"

type_synonym order = "nat \<Rightarrow> nat"

lemma mset_shuffle [simp]: "mset (shuffle k xs) = mset xs"
proof (induction xs arbitrary: k)
  case (Cons x xs)
  have "mset (take i ys @ x # drop i ys) = add_mset x (mset (take i ys @ drop i ys))" for i ys
    by (simp only: mset_append mset.simps union_mset_add_mset_right)
  then show ?case using Cons.IH by (simp add: Let_def)
qed simp

lemma shuffle_0 [simp]: "shuffle 0 xs = xs"
  by (induction xs) simp_all

lemma set_shuffle [simp]: "set (shuffle k xs) = set xs"
  using mset_shuffle [of k xs] by (rule mset_eq_setD)

lemma length_shuffle [simp]: "length (shuffle k xs) = length xs"
  using mset_shuffle [of k xs] by (rule mset_eq_length)

lemma shuffle_Nil_iff [simp]: "shuffle k xs = [] \<longleftrightarrow> xs = []"
  by (metis length_0_conv length_shuffle)

lemma mset_map_shuffle [simp]: "mset (map f (shuffle k xs)) = mset (map f xs)"
  by simp

lemma distinct_map_shuffle [simp]: "distinct (map f (shuffle k xs)) \<longleftrightarrow> distinct (map f xs)"
  by (rule mset_eq_imp_distinct_iff) simp

lemma shuffle_onto: "mset ys = mset xs \<Longrightarrow> \<exists>k. shuffle k xs = ys"
proof (induction xs arbitrary: ys)
  case (Cons x xs)
  have "x \<in> set ys" using mset_eq_setD [OF Cons.prems] by simp
  then obtain as bs where ys: "ys = as @ x # bs" by (meson split_list)
  then have "mset (as @ bs) = mset xs" using Cons.prems by simp
  with Cons.IH obtain k where k: "shuffle k xs = as @ bs" by blast
  have "length xs = length as + length bs" using arg_cong [OF k, of length] by simp
  then have "shuffle (k * (length xs + 1) + length as) (x # xs) = ys"
    using k by (simp add: ys Let_def del: mult_Suc_right)
  then show ?case by blast
qed simp

section \<open>Runs\<close>

text \<open>A result a run is seen to have.\<close>

lemma Inr_of_case: "(case r of Inr _ \<Rightarrow> True | Inl _ \<Rightarrow> False) \<Longrightarrow> \<exists>x. r = Inr x"
  by (cases r) auto

text \<open>Every way of sorting by a key gives the same list when no two different elements have the same key.\<close>

lemma sort_determined:
  assumes "mset ys = mset xs" "sorted (map f ys)" "inj_on f (set xs)"
  shows "ys = sort_key f xs"
proof -
  have "map f ys = map f (sort_key f xs)"
  proof (rule trans)
    show "map f ys = sort (map f xs)" using assms(1,2) by (metis mset_map properties_for_sort)
    show "sort (map f xs) = map f (sort_key f xs)" by (intro properties_for_sort) simp_all
  qed
  moreover have "set ys = set xs" using assms(1) by (rule mset_eq_setD)
  ultimately show ?thesis using assms(3) by (intro map_inj_on [of f]) simp_all
qed

end
