(* ===== verification/Gpu_Types.thy ===== *)
theory Gpu_Types
  imports Prelude
begin

text \<open>
  \<open>gpu/types\<close>: counts of GPU cards by product model. A \<open>ProdCountMap\<close> is a Go map, which may
  be \<open>nil\<close>: reading \<open>nil\<close> is reading an empty map, writing a key to it panics. The resource
  structs (\<open>NodeResource\<close>, \<open>gpuWorkloadResource\<close>, \<open>WorkloadResourceRequest\<close>,
  \<open>NodeResourceRequest\<close>, \<open>gpuEngineParams\<close>) embed one map and nothing else, so they are that map.
\<close>

datatype ProdCountMap = NilMap | PMap "(string, i64) gomap"

fun entries :: "ProdCountMap \<Rightarrow> (string, i64) gomap" where
  "entries NilMap = []"
| "entries (PMap m) = m"

definition wf_pcm :: "ProdCountMap \<Rightarrow> bool" where
  "wf_pcm p \<longleftrightarrow> wf_map (entries p)"

definition count_of :: "ProdCountMap \<Rightarrow> string \<Rightarrow> i64" where
  "count_of p k = mget (entries p) k"

section \<open>Blank products\<close>

text \<open>
  \<open>strings.TrimSpace(prod) == ""\<close>: the string is UTF-8 and consists of characters with the
  Unicode property White Space.
\<close>

fun blank :: "string \<Rightarrow> bool" where
  "blank [] = True"
| "blank (c # s) =
     (if c \<in> {CHR 0x09, CHR 0x0A, CHR 0x0B, CHR 0x0C, CHR 0x0D, CHR 0x20} then blank s
      else case s of
        d # s' \<Rightarrow>
          if c = CHR 0xC2 \<and> d \<in> {CHR 0x85, CHR 0xA0} then blank s'
          else (case s' of
            e # s'' \<Rightarrow>
              (c = CHR 0xE1 \<and> d = CHR 0x9A \<and> e = CHR 0x80
               \<or> c = CHR 0xE2 \<and> d = CHR 0x80 \<and>
                   e \<in> {CHR 0x80, CHR 0x81, CHR 0x82, CHR 0x83, CHR 0x84, CHR 0x85, CHR 0x86,
                        CHR 0x87, CHR 0x88, CHR 0x89, CHR 0x8A, CHR 0xA8, CHR 0xA9, CHR 0xAF}
               \<or> c = CHR 0xE2 \<and> d = CHR 0x81 \<and> e = CHR 0x9F
               \<or> c = CHR 0xE3 \<and> d = CHR 0x80 \<and> e = CHR 0x80)
              \<and> blank s''
          | [] \<Rightarrow> False)
      | [] \<Rightarrow> False)"

section \<open>gpu.go\<close>

fun validate_entries :: "(string, i64) gomap \<Rightarrow> goerr option" where
  "validate_entries [] = None"
| "validate_entries ((p, n) # m) =
     (if n \<le> 0 then Some ErrInvalidGPUMap
      else if blank p then Some ErrInvalidGPUProduct
      else validate_entries m)"

definition pcm_Validate :: "ProdCountMap \<Rightarrow> goerr option" where
  "pcm_Validate p = validate_entries (entries p)"

definition pcm_ValidateProd :: "ProdCountMap \<Rightarrow> goerr option" where
  "pcm_ValidateProd p =
     (if list_ex (\<lambda>(p, _). blank p) (entries p) then Some ErrInvalidGPUProduct else None)"

text \<open>One round of the loops of \<open>Add\<close> and \<open>Sub\<close>; a key whose count becomes zero goes.\<close>

definition add_entry :: "string \<Rightarrow> i64 \<Rightarrow> (string, i64) gomap \<Rightarrow> (string, i64) gomap" where
  "add_entry p n m =
     (let m' = mput p (mget m p + n) m
      in if mget m' p = 0 then mdelete p m' else m')"

definition sub_entry :: "string \<Rightarrow> i64 \<Rightarrow> (string, i64) gomap \<Rightarrow> (string, i64) gomap" where
  "sub_entry p n m =
     (let m' = mput p (mget m p - n) m
      in if mget m' p = 0 then mdelete p m' else m')"

definition add_entries :: "(string, i64) gomap \<Rightarrow> (string, i64) gomap \<Rightarrow> (string, i64) gomap" where
  "add_entries m m1 = fold (\<lambda>(p, n). add_entry p n) m1 m"

definition sub_entries :: "(string, i64) gomap \<Rightarrow> (string, i64) gomap \<Rightarrow> (string, i64) gomap" where
  "sub_entries m m1 = fold (\<lambda>(p, n). sub_entry p n) m1 m"

text \<open>The receiver is changed in place; the result is its new value.\<close>

fun pcm_Add :: "ProdCountMap \<Rightarrow> ProdCountMap \<Rightarrow> ProdCountMap res" where
  "pcm_Add NilMap p1 = (if entries p1 = [] then Inr NilMap else Inl ErrPanic)"
| "pcm_Add (PMap m) p1 = Inr (PMap (add_entries m (entries p1)))"

fun pcm_Sub :: "ProdCountMap \<Rightarrow> ProdCountMap \<Rightarrow> ProdCountMap res" where
  "pcm_Sub NilMap p1 = (if entries p1 = [] then Inr NilMap else Inl ErrPanic)"
| "pcm_Sub (PMap m) p1 = Inr (PMap (sub_entries m (entries p1)))"

definition pcm_DeepCopy :: "ProdCountMap \<Rightarrow> ProdCountMap" where
  "pcm_DeepCopy p = PMap (entries p)"

definition pcm_Count :: "ProdCountMap \<Rightarrow> i64" where
  "pcm_Count p = sum_list (map snd (entries p))"

section \<open>node.go, workload.go\<close>

definition gpu_NewNodeResource :: "ProdCountMap \<Rightarrow> ProdCountMap" where
  "gpu_NewNodeResource p = (case p of NilMap \<Rightarrow> PMap [] | PMap m \<Rightarrow> PMap m)"

record gpu_NodeResourceInfo =
  gpuCapacity :: ProdCountMap
  gpuUsage :: ProdCountMap

definition gpu_NewNodeResourceInfo :: gpu_NodeResourceInfo where
  "gpu_NewNodeResourceInfo = \<lparr>gpuCapacity = gpu_NewNodeResource NilMap, gpuUsage = gpu_NewNodeResource NilMap\<rparr>"

definition gpu_CapCount :: "gpu_NodeResourceInfo \<Rightarrow> i64" where
  "gpu_CapCount n = pcm_Count (gpuCapacity n)"

definition gpu_UsageCount :: "gpu_NodeResourceInfo \<Rightarrow> i64" where
  "gpu_UsageCount n = pcm_Count (gpuUsage n)"

definition gpu_info_Validate :: "gpu_NodeResourceInfo \<Rightarrow> goerr option" where
  "gpu_info_Validate n =
     (case pcm_Validate (gpuCapacity n) of Some e \<Rightarrow> Some e | None \<Rightarrow> pcm_Validate (gpuUsage n))"

definition gpu_GetAvailableResource :: "gpu_NodeResourceInfo \<Rightarrow> ProdCountMap" where
  "gpu_GetAvailableResource n =
     PMap (sub_entries (entries (pcm_DeepCopy (gpuCapacity n))) (entries (gpuUsage n)))"

text \<open>\<open>NodeResourceRequest.Parse\<close>: what \<open>Decode\<close> makes of the raw parameters, a nil map replaced by an empty one.\<close>

definition gpu_request_Parse :: "('r \<Rightarrow> ProdCountMap res) \<Rightarrow> 'r \<Rightarrow> ProdCountMap res" where
  "gpu_request_Parse decode rawParams =
     bind_res (decode rawParams) (\<lambda>n. Inr (case n of NilMap \<Rightarrow> PMap [] | PMap m \<Rightarrow> PMap m))"

text \<open>\<open>LoadFromOrigin\<close>: the flag is \<open>resourceRequest.IsSet(prodCountMapKey)\<close>.\<close>

definition LoadFromOrigin :: "ProdCountMap \<Rightarrow> ProdCountMap \<Rightarrow> bool \<Rightarrow> ProdCountMap" where
  "LoadFromOrigin req origin isSet = (if isSet then req else origin)"

definition MergeFromResource :: "ProdCountMap \<Rightarrow> ProdCountMap \<Rightarrow> ProdCountMap res" where
  "MergeFromResource w r =
     bind_res (pcm_Add w r) (\<lambda>w'. Inr (case w' of NilMap \<Rightarrow> NilMap
       | PMap m \<Rightarrow> PMap (filter (\<lambda>(_, n). \<not> n \<le> 0) m)))"

section \<open>Facts about Add and Sub\<close>

lemma mget_add_entry [simp]:
  "mget (add_entry p n m) k = mget m k + (if k = p then n else 0)"
  by (auto simp: add_entry_def Let_def)

lemma mget_sub_entry [simp]:
  "mget (sub_entry p n m) k = mget m k - (if k = p then n else 0)"
  by (auto simp: sub_entry_def Let_def)

lemma wf_add_entry [simp, intro]: "wf_map m \<Longrightarrow> wf_map (add_entry p n m)"
  by (simp add: add_entry_def Let_def)

lemma wf_sub_entry [simp, intro]: "wf_map m \<Longrightarrow> wf_map (sub_entry p n m)"
  by (simp add: sub_entry_def Let_def)

lemma wf_add_entries [simp, intro]: "wf_map m \<Longrightarrow> wf_map (add_entries m m1)"
  unfolding add_entries_def by (induction m1 arbitrary: m) auto

lemma wf_sub_entries [simp, intro]: "wf_map m \<Longrightarrow> wf_map (sub_entries m m1)"
  unfolding sub_entries_def by (induction m1 arbitrary: m) auto

lemma mget_absent: "k \<notin> fst ` set m \<Longrightarrow> mget m k = 0"
  by (simp add: mget_def map_of_eq_None_iff [symmetric])

lemma mget_add_entries:
  "wf_map m1 \<Longrightarrow> mget (add_entries m m1) k = mget m k + mget m1 k"
  unfolding add_entries_def
  by (induction m1 arbitrary: m) (auto simp: mget_absent split: prod.splits)

lemma mget_sub_entries:
  "wf_map m1 \<Longrightarrow> mget (sub_entries m m1) k = mget m k - mget m1 k"
  unfolding sub_entries_def
  by (induction m1 arbitrary: m) (auto simp: mget_absent split: prod.splits)

text \<open>No entry is zero: such a map is determined by the counts it gives.\<close>

definition no_zero :: "('k, 'v::zero) gomap \<Rightarrow> bool" where
  "no_zero m \<longleftrightarrow> (\<forall>k. map_of m k \<noteq> Some 0)"

lemma map_of_mget: "wf_map m \<Longrightarrow> no_zero m \<Longrightarrow> map_of m k = (if mget m k = 0 then None else Some (mget m k))"
  by (auto simp: mget_def no_zero_def split: option.splits)

lemma same_map_if_mget:
  assumes "wf_map m" "wf_map m'" "no_zero m" "no_zero m'" "\<And>k. mget m k = mget m' k"
  shows "same_map m m'"
  by (simp add: same_map_def fun_eq_iff map_of_mget assms)

lemma no_zero_entry [simp, intro]:
  "no_zero m \<Longrightarrow> no_zero (add_entry p n m)" "no_zero m \<Longrightarrow> no_zero (sub_entry p n m)"
  by (auto simp: no_zero_def add_entry_def sub_entry_def Let_def split: if_splits)

lemma no_zero_add_entries [simp, intro]: "no_zero m \<Longrightarrow> no_zero (add_entries m m1)"
  unfolding add_entries_def by (induction m1 arbitrary: m) auto

lemma no_zero_sub_entries [simp, intro]: "no_zero m \<Longrightarrow> no_zero (sub_entries m m1)"
  unfolding sub_entries_def by (induction m1 arbitrary: m) auto

lemma no_zero_Nil [simp]: "no_zero []"
  by (simp add: no_zero_def)

section \<open>Validation\<close>

lemma validate_entries_None_iff:
  "validate_entries m = None \<longleftrightarrow> (\<forall>(p, n) \<in> set m. 0 < n \<and> \<not> blank p)"
  by (induction m rule: validate_entries.induct) auto

lemma pcm_Validate_None_iff:
  "pcm_Validate p = None \<longleftrightarrow> (\<forall>(k, n) \<in> set (entries p). 0 < n \<and> \<not> blank k)"
  by (simp add: pcm_Validate_def validate_entries_None_iff)

lemma gpu_info_Validate_None_iff:
  "gpu_info_Validate i = None \<longleftrightarrow> pcm_Validate (gpuCapacity i) = None \<and> pcm_Validate (gpuUsage i) = None"
  by (auto simp: gpu_info_Validate_def split: option.splits)

lemma validate_no_zero: "wf_map m \<Longrightarrow> validate_entries m = None \<Longrightarrow> no_zero m"
  by (auto simp: no_zero_def validate_entries_None_iff wf_map_of_iff)

end
