(* ===== verification/GoString.thy ===== *)
theory GoString
  imports Prelude
begin

text \<open>
  The functions of Go's \<open>strings\<close>, \<open>fmt\<close> and \<open>cmp\<close> packages the plugins use. A Go string is
  a sequence of bytes, here a list of characters; \<open>\<le>\<close> on strings is the bytewise order
  \<open>cmp.Compare\<close> uses.
\<close>

section \<open>Splitting and joining\<close>

text \<open>\<open>strings.Split(s, sep)\<close> for a separator of one byte, \<open>strings.Join\<close>.\<close>

fun split_at :: "char \<Rightarrow> string \<Rightarrow> string list" where
  "split_at sep [] = [[]]"
| "split_at sep (c # s) =
     (if c = sep then [] # split_at sep s
      else case split_at sep s of [] \<Rightarrow> [[c]] | p # ps \<Rightarrow> (c # p) # ps)"

fun join_with :: "string \<Rightarrow> string list \<Rightarrow> string" where
  "join_with sep [] = []"
| "join_with sep [p] = p"
| "join_with sep (p # ps) = p @ sep @ join_with sep ps"

text \<open>
  \<open>strings.Split(s, "")\<close>: one string per UTF-8 sequence, a byte that starts none is a string
  of its own. A sequence is a lead byte, a second byte in the range the lead byte allows, and
  continuation bytes.
\<close>

definition cont_byte :: "char \<Rightarrow> bool" where
  "cont_byte c \<longleftrightarrow> CHR 0x80 \<le> c \<and> c \<le> CHR 0xBF"

definition second_byte :: "char \<Rightarrow> char \<Rightarrow> bool" where
  "second_byte c d \<longleftrightarrow>
     (if c = CHR 0xE0 then CHR 0xA0 \<le> d \<and> d \<le> CHR 0xBF
      else if c = CHR 0xED then CHR 0x80 \<le> d \<and> d \<le> CHR 0x9F
      else if c = CHR 0xF0 then CHR 0x90 \<le> d \<and> d \<le> CHR 0xBF
      else if c = CHR 0xF4 then CHR 0x80 \<le> d \<and> d \<le> CHR 0x8F
      else cont_byte d)"

definition rune_len :: "string \<Rightarrow> nat" where
  "rune_len s =
     (case s of
        c # d # s' \<Rightarrow>
          if CHR 0xC2 \<le> c \<and> c \<le> CHR 0xDF \<and> cont_byte d then 2
          else if CHR 0xE0 \<le> c \<and> c \<le> CHR 0xEF \<and> second_byte c d then
            (case s' of e # _ \<Rightarrow> if cont_byte e then 3 else 1 | [] \<Rightarrow> 1)
          else if CHR 0xF0 \<le> c \<and> c \<le> CHR 0xF4 \<and> second_byte c d then
            (case s' of e # f # _ \<Rightarrow> if cont_byte e \<and> cont_byte f then 4 else 1 | _ \<Rightarrow> 1)
          else 1
      | _ \<Rightarrow> 1)"

lemma rune_len_pos [simp]: "0 < rune_len s"
  by (simp add: rune_len_def split: list.split)

function explode :: "string \<Rightarrow> string list" where
  "explode [] = []"
| "explode (c # s) = take (rune_len (c # s)) (c # s) # explode (drop (rune_len (c # s)) (c # s))"
  by pat_completeness auto
termination
  by (relation "measure length") auto

section \<open>Searching and replacing\<close>

definition has_prefix :: "string \<Rightarrow> string \<Rightarrow> bool" where
  "has_prefix s t \<longleftrightarrow> length t \<le> length s \<and> take (length t) s = t"

definition has_suffix :: "string \<Rightarrow> string \<Rightarrow> bool" where
  "has_suffix s t \<longleftrightarrow> length t \<le> length s \<and> drop (length s - length t) s = t"

definition trim_suffix :: "string \<Rightarrow> string \<Rightarrow> string" where
  "trim_suffix s t = (if has_suffix s t then take (length s - length t) s else s)"

text \<open>\<open>strings.Contains\<close>, \<open>strings.Count\<close> and \<open>strings.ReplaceAll\<close> of one byte.\<close>

definition contains_char :: "string \<Rightarrow> char \<Rightarrow> bool" where
  "contains_char s c \<longleftrightarrow> c \<in> set s"

definition count_char :: "string \<Rightarrow> char \<Rightarrow> nat" where
  "count_char s c = length (filter (\<lambda>d. d = c) s)"

definition replace_char :: "string \<Rightarrow> char \<Rightarrow> string \<Rightarrow> string" where
  "replace_char s c t = concat (map (\<lambda>d. if d = c then t else [d]) s)"

section \<open>Decimal numbers\<close>

definition digit_char :: "nat \<Rightarrow> char" where
  "digit_char d = char_of (48 + d)"

fun show_nat :: "nat \<Rightarrow> string" where
  "show_nat n = (if n < 10 then [digit_char n] else show_nat (n div 10) @ [digit_char (n mod 10)])"

declare show_nat.simps [simp del]

text \<open>\<open>%d\<close> of an \<open>int64\<close>.\<close>

definition show_i64 :: "i64 \<Rightarrow> string" where
  "show_i64 a = (if a < 0 then CHR ''-'' # show_nat (nat (- val a)) else show_nat (nat (val a)))"

section \<open>Lemmas\<close>

lemma split_at_nonempty [simp]: "split_at sep s \<noteq> []"
  by (induction s) (auto split: list.splits)

lemma split_at_no_sep: "sep \<notin> set s \<Longrightarrow> split_at sep s = [s]"
  by (induction s) auto

lemma split_at_append: "sep \<notin> set p \<Longrightarrow> split_at sep (p @ sep # s) = p # split_at sep s"
  by (induction p) auto

lemma split_at_join:
  "ps \<noteq> [] \<Longrightarrow> \<forall>p \<in> set ps. sep \<notin> set p \<Longrightarrow> split_at sep (join_with [sep] ps) = ps"
  by (induction "[sep]" ps rule: join_with.induct) (auto simp: split_at_no_sep split_at_append)

lemma join_split_at: "join_with [sep] (split_at sep s) = s"
proof (induction s)
  case (Cons c s)
  obtain p ps where "split_at sep s = p # ps" by (meson list.exhaust split_at_nonempty)
  with Cons show ?case by (cases ps) auto
qed simp

lemma concat_explode [simp]: "concat (explode s) = s"
  by (induction s rule: explode.induct) simp_all

definition ascii :: "string \<Rightarrow> bool" where
  "ascii s \<longleftrightarrow> (\<forall>c \<in> set s. c < CHR 0x80)"

lemma explode_ascii: "ascii s \<Longrightarrow> explode s = map (\<lambda>c. [c]) s"
proof (induction s)
  case (Cons c s)
  then have "c < CHR 0x80" by (simp add: ascii_def)
  then have "rune_len (c # s) = 1"
    by (auto simp: rune_len_def less_char_def less_eq_char_def split: list.split)
  with Cons show ?case by (simp add: ascii_def)
qed simp

lemma of_char_digit: "d < 10 \<Longrightarrow> (of_char (digit_char d) :: nat) = 48 + d"
  by (simp add: digit_char_def)

lemma show_nat_digits: "c \<in> set (show_nat n) \<Longrightarrow> 48 \<le> (of_char c :: nat) \<and> (of_char c :: nat) < 58"
proof (induction n arbitrary: c rule: show_nat.induct)
  case (1 n)
  then show ?case
    by (subst (asm) (2) show_nat.simps) (auto simp: of_char_digit split: if_splits)
qed

text \<open>A printed number holds no colon, comma or slash, so it survives splitting.\<close>

lemma show_i64_chars: "c \<in> set (show_i64 a) \<Longrightarrow> (of_char c :: nat) \<in> {45} \<union> {48..57}"
  using show_nat_digits [of c "nat (- val a)"] show_nat_digits [of c "nat (val a)"]
  by (auto simp: show_i64_def split: if_splits)

lemma show_i64_no_colon [simp]: "CHR '':'' \<notin> set (show_i64 a)"
  using show_i64_chars [of "CHR '':''" a] by auto

end
