(* ===== verification/Nodestore.thy ===== *)
theory Nodestore
  imports GoString
begin

text \<open>
  \<open>nodestore/nodestore.go\<close>: the record of each node under one etcd key. What lies outside the
  repository is a field of \<open>Store\<close>: the etcd client over a state \<open>'w\<close> of the cluster
  (\<open>kvGet\<close> and \<open>kvGetPrefix\<close> give the count and the key-value pairs of the response, \<open>kvPut\<close>
  and \<open>kvDelete\<close> the state after the call and the error), the JSON codec of the stored type
  (\<open>unmarshal\<close> decodes into an allocated value) and \<open>utils.Tail\<close>. \<open>newInfo\<close> and \<open>validate\<close> are
  the plugin's: \<open>Validate\<close> may normalise the value in place, so it returns the value it leaves.
\<close>

record ('w, 'i) Store =
  kvGet :: "'w \<Rightarrow> string \<Rightarrow> (nat \<times> (string \<times> string) list) res"
  kvGetPrefix :: "'w \<Rightarrow> string \<Rightarrow> (nat \<times> (string \<times> string) list) res"
  kvPut :: "'w \<Rightarrow> string \<Rightarrow> string \<Rightarrow> 'w \<times> goerr option"
  kvDelete :: "'w \<Rightarrow> string \<Rightarrow> 'w \<times> goerr option"
  marshal :: "'i \<Rightarrow> string res"
  unmarshal :: "string \<Rightarrow> 'i \<Rightarrow> 'i res"
  tail :: "string \<Rightarrow> string"
  keyPrefix :: string
  newInfo :: 'i
  validate :: "'i \<Rightarrow> 'i res"

text \<open>\<open>key\<close>: both templates are a prefix followed by the node name.\<close>

definition key :: "('w, 'i) Store \<Rightarrow> string \<Rightarrow> string" where
  "key s nodename = keyPrefix s @ nodename"

definition Get :: "('w, 'i) Store \<Rightarrow> 'w \<Rightarrow> string \<Rightarrow> 'i res" where
  "Get s w nodename =
     bind_res (kvGet s w (key s nodename)) (\<lambda>(count, kvs).
       if count = 0 then Inl ErrNodeNotExists
       else case kvs of
         [] \<Rightarrow> Inl ErrPanic
       | (_, value) # _ \<Rightarrow> unmarshal s value (newInfo s))"

definition GetOrEmpty :: "('w, 'i) Store \<Rightarrow> 'w \<Rightarrow> string \<Rightarrow> 'i res" where
  "GetOrEmpty s w nodename =
     (case Get s w nodename of
        Inl e \<Rightarrow> if errors_is e ErrNodeNotExists then Inr (newInfo s) else Inl e
      | Inr info \<Rightarrow> Inr info)"

text \<open>The two loops of \<open>GetMulti\<close>: collect the stored values, then one record per name.\<close>

definition collect_stored :: "('w, 'i) Store \<Rightarrow> (string \<times> string) list \<Rightarrow> (string, string) gomap" where
  "collect_stored s kvs = fold (\<lambda>(k, v). mput (tail s k) v) kvs []"

fun decode_infos :: "('w, 'i) Store \<Rightarrow> (string, string) gomap \<Rightarrow> string list \<Rightarrow>
    (string, 'i) gomap \<Rightarrow> (string, 'i) gomap res" where
  "decode_infos s stored [] infos = Inr infos"
| "decode_infos s stored (nodename # nodenames) infos =
     bind_res (case map_of stored nodename of
         Some value \<Rightarrow> unmarshal s value (newInfo s) | None \<Rightarrow> Inr (newInfo s))
       (\<lambda>info. decode_infos s stored nodenames (mput nodename info infos))"

definition GetMulti :: "('w, 'i) Store \<Rightarrow> 'w \<Rightarrow> string list \<Rightarrow> (string, 'i) gomap res" where
  "GetMulti s w nodenames =
     bind_res (kvGetPrefix s w (key s [])) (\<lambda>(_, kvs).
       decode_infos s (collect_stored s kvs) nodenames [])"

text \<open>\<open>Put\<close> gives the cluster after the call and the info as \<open>Validate\<close> left it, or the error.\<close>

definition Put :: "('w, 'i) Store \<Rightarrow> 'w \<Rightarrow> string \<Rightarrow> 'i \<Rightarrow> 'w \<times> 'i res" where
  "Put s w nodename info =
     (case validate s info of
        Inl e \<Rightarrow> (w, Inl e)
      | Inr info' \<Rightarrow>
          (case marshal s info' of
             Inl e \<Rightarrow> (w, Inl e)
           | Inr data \<Rightarrow>
               (case kvPut s w (key s nodename) data of
                  (w', Some e) \<Rightarrow> (w', Inl e)
                | (w', None) \<Rightarrow> (w', Inr info'))))"

definition Delete :: "('w, 'i) Store \<Rightarrow> 'w \<Rightarrow> string \<Rightarrow> 'w \<times> goerr option" where
  "Delete s w nodename = kvDelete s w (key s nodename)"

definition CheckAbsent :: "('w, 'i) Store \<Rightarrow> 'w \<Rightarrow> string \<Rightarrow> goerr option" where
  "CheckAbsent s w nodename =
     (case Get s w nodename of
        Inr _ \<Rightarrow> Some ErrNodeExists
      | Inl e \<Rightarrow> if errors_is e ErrNodeNotExists then None else Some e)"

section \<open>What the store relies on\<close>

text \<open>
  The documented behaviour of etcd and of the codec, relative to the contents \<open>c\<close> a cluster
  state holds: a read that succeeds returns what is stored, a write that succeeds changes its
  key and nothing else; a value that was written decodes to the record it came from.
\<close>

definition etcd_ok :: "('w, 'i) Store \<Rightarrow> ('w \<Rightarrow> string \<Rightarrow> string option) \<Rightarrow> bool" where
  "etcd_ok s c \<longleftrightarrow>
     (\<forall>w k r. kvGet s w k = Inr r \<longrightarrow>
        r = (case c w k of None \<Rightarrow> (0, []) | Some v \<Rightarrow> (1, [(k, v)]))) \<and>
     (\<forall>w k v w'. kvPut s w k v = (w', None) \<longrightarrow> c w' = (c w)(k \<mapsto> v)) \<and>
     (\<forall>w k w'. kvDelete s w k = (w', None) \<longrightarrow> c w' = (c w)(k := None))"

definition codec_ok :: "('w, 'i) Store \<Rightarrow> bool" where
  "codec_ok s \<longleftrightarrow> (\<forall>info data. marshal s info = Inr data \<longrightarrow> unmarshal s data (newInfo s) = Inr info)"

text \<open>No read fails: the cluster is reachable.\<close>

definition reads_ok :: "('w, 'i) Store \<Rightarrow> bool" where
  "reads_ok s \<longleftrightarrow> (\<forall>w k. \<exists>r. kvGet s w k = Inr r)"

section \<open>Lemmas\<close>

lemma Put_Inr_E:
  assumes "Put s w n info = (w', Inr info')"
  obtains data where "validate s info = Inr info'" "marshal s info' = Inr data"
    "kvPut s w (key s n) data = (w', None)"
  using assms by (auto simp: Put_def split: sum.splits prod.splits option.splits)

lemma Put_error_before_write:
  "Put s w n info = (w', Inl e) \<Longrightarrow> validate s info = Inl e' \<Longrightarrow> w' = w \<and> e = e'"
  by (simp add: Put_def)

lemma key_inject [simp]: "key s n = key s m \<longleftrightarrow> n = m"
  by (simp add: key_def)

lemma Get_after_Put:
  assumes "etcd_ok s c" "codec_ok s" "Put s w n info = (w', Inr info')"
    and "kvGet s w' (key s n) = Inr r"
  shows "Get s w' n = Inr info'"
proof -
  obtain data where data: "marshal s info' = Inr data" "kvPut s w (key s n) data = (w', None)"
    using assms(3) by (rule Put_Inr_E)
  with assms(1) have "c w' (key s n) = Some data" by (auto simp: etcd_ok_def)
  moreover have "r = (case c w' (key s n) of None \<Rightarrow> (0, []) | Some v \<Rightarrow> (1, [(key s n, v)]))"
    using assms(1,4) unfolding etcd_ok_def by blast
  ultimately show ?thesis
    using assms(2,4) data(1) by (simp add: Get_def codec_ok_def)
qed

lemma Get_after_Put_other:
  assumes "etcd_ok s c" "Put s w n info = (w', Inr info')" "m \<noteq> n"
    and "kvGet s w (key s m) = Inr r" "kvGet s w' (key s m) = Inr r'"
  shows "Get s w' m = Get s w m"
proof -
  obtain data where "kvPut s w (key s n) data = (w', None)"
    using assms(2) by (rule Put_Inr_E)
  with assms(1) have "c w' = (c w)(key s n \<mapsto> data)" unfolding etcd_ok_def by blast
  with assms(3) have "c w' (key s m) = c w (key s m)" by simp
  moreover have "r = (case c w (key s m) of None \<Rightarrow> (0, []) | Some v \<Rightarrow> (1, [(key s m, v)]))"
    "r' = (case c w' (key s m) of None \<Rightarrow> (0, []) | Some v \<Rightarrow> (1, [(key s m, v)]))"
    using assms(1,4,5) unfolding etcd_ok_def by blast+
  ultimately show ?thesis using assms(4,5) by (simp add: Get_def)
qed

lemma Get_after_Delete:
  assumes "etcd_ok s c" "Delete s w n = (w', None)" "kvGet s w' (key s n) = Inr r"
  shows "Get s w' n = Inl ErrNodeNotExists"
proof -
  have "c w' (key s n) = None"
    using assms(1,2) by (auto simp: etcd_ok_def Delete_def)
  moreover have "r = (case c w' (key s n) of None \<Rightarrow> (0, []) | Some v \<Rightarrow> (1, [(key s n, v)]))"
    using assms(1,3) unfolding etcd_ok_def by blast
  ultimately show ?thesis using assms(3) by (simp add: Get_def)
qed

lemma Get_GetOrEmpty: "Get s w n = Inr info \<Longrightarrow> GetOrEmpty s w n = Inr info"
  by (simp add: GetOrEmpty_def)

lemma decode_infos_dom:
  "decode_infos s stored ns infos = Inr res \<Longrightarrow> fst ` set res = fst ` set infos \<union> set ns"
proof (induction ns arbitrary: infos)
  case (Cons n ns)
  from Cons.prems obtain info where "decode_infos s stored ns (mput n info infos) = Inr res"
    by (auto split: option.splits)
  from Cons.IH [OF this] have "fst ` set res = fst ` set (mput n info infos) \<union> set ns" .
  moreover have "fst ` set (mput n info infos) = insert n (fst ` set infos)"
    by (simp flip: dom_map_of_conv_image_fst)
  ultimately show ?case by auto
qed simp

lemma decode_infos_wf: "decode_infos s stored ns infos = Inr res \<Longrightarrow> wf_map infos \<Longrightarrow> wf_map res"
  by (induction ns arbitrary: infos) (auto split: option.splits)

end
