(* ===== verification/GoFloat.thy ===== *)
theory GoFloat
  imports GoInt
begin

text \<open>
  The \<open>float64\<close> arithmetic the plugins use: conversion from \<open>int64\<close>, division, multiplication
  and truncation back to \<open>int64\<close>. A finite float is its rational value; an operation computes
  the exact rational and rounds it to 53 significant bits, ties to even. The quotients and
  products here have magnitudes between \<open>2 ^ -63\<close> and \<open>2 ^ 126\<close>, so neither overflow nor
  subnormal numbers arise and the exponent is unbounded in the model.
\<close>

definition pow2 :: "int \<Rightarrow> rat" where
  "pow2 k = (if 0 \<le> k then 2 ^ nat k else 1 / 2 ^ nat (- k))"

text \<open>The exponent of the leading bit of a positive rational.\<close>

definition ilog2 :: "rat \<Rightarrow> int" where
  "ilog2 x =
     (let (p, q) = quotient_of x; k = bitlen p - bitlen q in if pow2 k \<le> x then k else k - 1)"

definition round_even :: "rat \<Rightarrow> int" where
  "round_even x =
     (let f = \<lfloor>x\<rfloor>; d = x - of_int f
      in if d < 1 / 2 then f else if 1 / 2 < d then f + 1 else if even f then f else f + 1)"

definition f64_pos :: "rat \<Rightarrow> rat" where
  "f64_pos x = (let e = ilog2 x - 52 in of_int (round_even (x / pow2 e)) * pow2 e)"

definition f64 :: "rat \<Rightarrow> rat" where
  "f64 x = (if x = 0 then 0 else if x < 0 then - f64_pos (- x) else f64_pos x)"

text \<open>\<open>float64(a)\<close>.\<close>

definition float64 :: "i64 \<Rightarrow> rat" where
  "float64 a = f64 (of_int (val a))"

text \<open>
  \<open>int64(x)\<close>: truncation; a value outside the range gives the integer indefinite value, as the
  conversion instruction on amd64 does (the language leaves it to the implementation).
\<close>

definition int64_of :: "rat \<Rightarrow> i64" where
  "int64_of x =
     (let t = (if 0 \<le> x then \<lfloor>x\<rfloor> else \<lceil>x\<rceil>) in if in_range t then of_val t else of_val (- (2 ^ 63)))"

end
