(* ===== verification/Core_Types.thy ===== *)
theory Core_Types
  imports GoString GoFloat
begin

text \<open>
  The answers of core's plugin protocol that both plugins fill in. \<open>'f\<close> is the type of the
  float results that \<open>utils.AdvancedDivide\<close> of core gives.
\<close>

record 'f NodeDeployCapacity =
  deployCapacity :: i64
  deployWeight :: i64
  deployUsage :: 'f
  deployRate :: 'f

text \<open>The references and the samples of \<open>GetMetrics\<close>.\<close>

record NodeRef =
  Podname :: string
  Nodename :: string

record Metrics =
  mName :: string
  mLabels :: "string list"
  mValue :: string
  mKey :: string

end
