(* ===== verification/Gpu_Plugin.thy ===== *)
theory Gpu_Plugin
  imports Gpu_Types Nodestore Core_Types
begin

text \<open>
  \<open>gpu/\<close>: the verbs of the GPU plugin. \<open>GpuPlugin\<close> holds the plugin's store and what core
  supplies: \<open>Decode\<close> is \<open>resourcetypes.Decode\<close> into a struct whose only field is
  \<open>prod_count_map\<close> (\<open>NilMap\<close> when the key is absent), \<open>IsSet\<close> is \<open>RawParams.IsSet\<close>,
  \<open>AdvancedDivide\<close> is \<open>utils.AdvancedDivide\<close> on two floats into an ordered type \<open>'f\<close> of float
  results with \<open>MaxFloat64\<close>. Raw parameters are of an abstract type \<open>'r\<close>; \<open>None\<close> is a nil
  \<open>RawParams\<close>. A verb that writes takes the state of the cluster and returns the state after it.
\<close>

record ('w, 'r, 'f) GpuPlugin =
  gpuStore :: "('w, gpu_NodeResourceInfo) Store"
  gpuDecode :: "'r option \<Rightarrow> ProdCountMap res"
  gpuIsSet :: "'r option \<Rightarrow> string \<Rightarrow> bool"
  AdvancedDivide :: "rat \<Rightarrow> rat \<Rightarrow> 'f"
  MaxFloat64 :: 'f

definition gpu_newStore :: "('w, gpu_NodeResourceInfo) Store \<Rightarrow> ('w, gpu_NodeResourceInfo) Store" where
  "gpu_newStore kv = kv\<lparr>keyPrefix := ''/resource/gpu/'', newInfo := gpu_NewNodeResourceInfo,
     validate := (\<lambda>info. case gpu_info_Validate info of Some e \<Rightarrow> Inl e | None \<Rightarrow> Inr info)\<rparr>"

section \<open>calculate.go\<close>

text \<open>The inner loop of \<open>doAlloc\<close>: one workload takes its cards, or the request fails.\<close>

fun alloc_prods :: "(string, i64) gomap \<Rightarrow> (string, i64) gomap \<Rightarrow> (string, i64) gomap \<Rightarrow>
    ((string, i64) gomap \<times> (string, i64) gomap) res" where
  "alloc_prods [] available prodCountMap = Inr (available, prodCountMap)"
| "alloc_prods ((reqProd, reqCount) # req) available prodCountMap =
     (case map_of available reqProd of
        None \<Rightarrow> Inl ErrInsufficientResource
      | Some capCount \<Rightarrow>
          if capCount < reqCount then Inl ErrInsufficientResource
          else alloc_prods req (mput reqProd (mget available reqProd - reqCount) available)
                 (mput reqProd reqCount prodCountMap))"

fun alloc_loop :: "nat \<Rightarrow> (string, i64) gomap \<Rightarrow> (string, i64) gomap \<Rightarrow>
    (ProdCountMap list \<times> ProdCountMap list) res" where
  "alloc_loop 0 req available = Inr ([], [])"
| "alloc_loop (Suc k) req available =
     bind_res (alloc_prods req available []) (\<lambda>(available', prodCountMap).
       bind_res (alloc_loop k req available') (\<lambda>(enginesParams, workloadsResource).
         Inr (PMap prodCountMap # enginesParams, pcm_DeepCopy (PMap prodCountMap) # workloadsResource)))"

definition gpu_doAlloc :: "gpu_NodeResourceInfo \<Rightarrow> i64 \<Rightarrow> ProdCountMap \<Rightarrow>
    (ProdCountMap list \<times> ProdCountMap list) res" where
  "gpu_doAlloc resourceInfo deployCount req =
     alloc_loop (nat (val deployCount)) (entries req) (entries (gpu_GetAvailableResource resourceInfo))"

definition gpu_CalculateDeploy :: "('w, 'r, 'f) GpuPlugin \<Rightarrow> 'w \<Rightarrow> string \<Rightarrow> i64 \<Rightarrow> 'r option \<Rightarrow>
    (ProdCountMap list \<times> ProdCountMap list) res" where
  "gpu_CalculateDeploy p w nodename deployCount resourceRequest =
     bind_res (gpuDecode p resourceRequest) (\<lambda>req.
       check (pcm_Validate req)
         (bind_res (GetOrEmpty (gpuStore p) w nodename) (\<lambda>info.
           gpu_doAlloc info deployCount req)))"

record gpu_ReallocResponse =
  gpuEngineParams :: ProdCountMap
  gpuDeltaResource :: ProdCountMap
  gpuWorkloadResource :: ProdCountMap

text \<open>The calculation of \<open>CalculateRealloc\<close> on decoded values, then the verb.\<close>

definition gpu_realloc :: "gpu_NodeResourceInfo \<Rightarrow> ProdCountMap \<Rightarrow> ProdCountMap \<Rightarrow> gpu_ReallocResponse res" where
  "gpu_realloc info req originResource =
     bind_res (pcm_Sub (gpuUsage info) originResource) (\<lambda>usage.
       bind_res (MergeFromResource (pcm_DeepCopy req) originResource) (\<lambda>newReq.
         bind_res (gpu_doAlloc (info\<lparr>gpuUsage := usage\<rparr>) 1 newReq) (\<lambda>(enginesParams, workloadsResource).
           case (enginesParams, workloadsResource) of
             (engineParams # _, newResource # _) \<Rightarrow>
               bind_res (pcm_Sub (pcm_DeepCopy newResource) originResource) (\<lambda>deltaResource.
                 Inr \<lparr>gpuEngineParams = engineParams, gpuDeltaResource = deltaResource,
                      gpuWorkloadResource = newResource\<rparr>)
           | _ \<Rightarrow> Inl ErrPanic)))"

definition gpu_CalculateRealloc :: "('w, 'r, 'f) GpuPlugin \<Rightarrow> 'w \<Rightarrow> string \<Rightarrow> 'r option \<Rightarrow> 'r option \<Rightarrow>
    gpu_ReallocResponse res" where
  "gpu_CalculateRealloc p w nodename resource resourceRequest =
     bind_res (gpuDecode p resourceRequest) (\<lambda>req.
       check (pcm_ValidateProd req)
         (bind_res (gpuDecode p resource) (\<lambda>originResource.
           check (pcm_Validate originResource)
             (bind_res (GetOrEmpty (gpuStore p) w nodename) (\<lambda>info.
               gpu_realloc info req originResource)))))"

section \<open>node.go\<close>

definition gpu_AddNode :: "('w, 'r, 'f) GpuPlugin \<Rightarrow> 'w \<Rightarrow> string \<Rightarrow> 'r option \<Rightarrow> 'w \<times> ProdCountMap res" where
  "gpu_AddNode p w nodename resource =
     (case CheckAbsent (gpuStore p) w nodename of
        Some e \<Rightarrow> (w, Inl e)
      | None \<Rightarrow>
          (case gpu_request_Parse (gpuDecode p) resource of
             Inl e \<Rightarrow> (w, Inl e)
           | Inr req \<Rightarrow>
               (case pcm_Validate req of
                  Some e \<Rightarrow> (w, Inl e)
                | None \<Rightarrow>
                    let info = \<lparr>gpuCapacity = gpu_NewNodeResource req, gpuUsage = gpu_NewNodeResource NilMap\<rparr> in
                    (case Put (gpuStore p) w nodename info of
                       (w', Inl e) \<Rightarrow> (w', Inl e)
                     | (w', Inr info') \<Rightarrow> (w', Inr (gpuCapacity info'))))))"

definition gpu_RemoveNode :: "('w, 'r, 'f) GpuPlugin \<Rightarrow> 'w \<Rightarrow> string \<Rightarrow> 'w \<times> goerr option" where
  "gpu_RemoveNode p w nodename = Delete (gpuStore p) w nodename"

definition gpu_maxCapacity :: i64 where
  "gpu_maxCapacity = 1000000"

text \<open>The loop over the requested products, with its early exit.\<close>

fun capacity_loop :: "(string, i64) gomap \<Rightarrow> (string, i64) gomap \<Rightarrow> i64 \<Rightarrow> i64" where
  "capacity_loop [] available capacity = capacity"
| "capacity_loop ((reqProd, reqCount) # req) available capacity =
     (let capacity' = min capacity (quot (mget available reqProd) reqCount)
      in if capacity' \<le> 0 then capacity' else capacity_loop req available capacity')"

definition gpu_capacity :: "gpu_NodeResourceInfo \<Rightarrow> ProdCountMap \<Rightarrow> i64" where
  "gpu_capacity info req =
     (if 0 < pcm_Count req
      then capacity_loop (entries req) (entries (gpu_GetAvailableResource info)) gpu_maxCapacity
      else gpu_maxCapacity)"

definition gpu_doGetNodeDeployCapacity ::
    "('w, 'r, 'f) GpuPlugin \<Rightarrow> gpu_NodeResourceInfo \<Rightarrow> ProdCountMap \<Rightarrow> 'f NodeDeployCapacity" where
  "gpu_doGetNodeDeployCapacity p info req =
     \<lparr>deployCapacity = gpu_capacity info req, deployWeight = 1,
      deployUsage = AdvancedDivide p (float64 (gpu_UsageCount info)) (float64 (gpu_CapCount info)),
      deployRate = AdvancedDivide p (float64 (pcm_Count req)) (float64 (gpu_CapCount info))\<rparr>"

text \<open>The loop of \<open>GetNodesDeployCapacity\<close> over the records, nodes without room left out.\<close>

definition gpu_collect_capacity :: "('w, 'r, 'f) GpuPlugin \<Rightarrow> ProdCountMap \<Rightarrow>
    (string, gpu_NodeResourceInfo) gomap \<Rightarrow> (string, 'f NodeDeployCapacity) gomap \<times> i64" where
  "gpu_collect_capacity p req infos =
     fold (\<lambda>(nodename, info) (capacityMap, total).
         let c = gpu_doGetNodeDeployCapacity p info req in
         if 0 < deployCapacity c then (mput nodename c capacityMap, total + deployCapacity c)
         else (capacityMap, total)) infos ([], 0)"

definition gpu_GetNodesDeployCapacity :: "('w, 'r, 'f) GpuPlugin \<Rightarrow> 'w \<Rightarrow> string list \<Rightarrow> 'r option \<Rightarrow>
    ((string, 'f NodeDeployCapacity) gomap \<times> i64) res" where
  "gpu_GetNodesDeployCapacity p w nodenames resource =
     bind_res (gpuDecode p resource) (\<lambda>req.
       check (pcm_Validate req)
         (bind_res (GetMulti (gpuStore p) w nodenames) (\<lambda>infos.
           Inr (gpu_collect_capacity p req infos))))"

text \<open>\<open>resp.Add\<close> or \<open>resp.Sub\<close>, and the loop over the workloads.\<close>

definition apply_resource :: "bool \<Rightarrow> ProdCountMap \<Rightarrow> ProdCountMap \<Rightarrow> ProdCountMap res" where
  "apply_resource incr resp r = (if incr then pcm_Add resp r else pcm_Sub resp r)"

fun apply_workloads :: "bool \<Rightarrow> ProdCountMap \<Rightarrow> ProdCountMap list \<Rightarrow> ProdCountMap res" where
  "apply_workloads incr resp [] = Inr resp"
| "apply_workloads incr resp (r # rs) =
     bind_res (apply_resource incr resp r) (\<lambda>resp'. apply_workloads incr resp' rs)"

definition gpu_calculateNodeResource :: "ProdCountMap option \<Rightarrow> ProdCountMap option \<Rightarrow> ProdCountMap option \<Rightarrow>
    ProdCountMap list \<Rightarrow> bool \<Rightarrow> bool \<Rightarrow> ProdCountMap res" where
  "gpu_calculateNodeResource req nodeResource origin workloadsResource delta incr =
     (let (resp, incr') = (case origin of
            Some o' \<Rightarrow> if delta then (pcm_DeepCopy o', incr) else (gpu_NewNodeResource NilMap, True)
          | None \<Rightarrow> (gpu_NewNodeResource NilMap, True));
          nodeResource' = (case req of Some r \<Rightarrow> Some r | None \<Rightarrow> nodeResource)
      in case nodeResource' of
           Some r \<Rightarrow> apply_resource incr' resp r
         | None \<Rightarrow> apply_workloads incr' resp workloadsResource)"

fun gpu_parse_workloads :: "('w, 'r, 'f) GpuPlugin \<Rightarrow> 'r option list \<Rightarrow> ProdCountMap list res" where
  "gpu_parse_workloads p [] = Inr []"
| "gpu_parse_workloads p (r # rs) =
     bind_res (gpuDecode p r) (\<lambda>x. bind_res (gpu_parse_workloads p rs) (\<lambda>xs. Inr (x # xs)))"

definition gpu_parseNodeResourceInfos :: "('w, 'r, 'f) GpuPlugin \<Rightarrow> 'r option \<Rightarrow> 'r option \<Rightarrow> 'r option list \<Rightarrow>
    (ProdCountMap option \<times> ProdCountMap option \<times> ProdCountMap list) res" where
  "gpu_parseNodeResourceInfos p resource resourceRequest workloadsResource =
     bind_res (if resourceRequest = None then Inr None
               else bind_res (gpu_request_Parse (gpuDecode p) resourceRequest) (\<lambda>r. Inr (Some r))) (\<lambda>req.
     bind_res (if resource = None then Inr None
               else bind_res (gpuDecode p resource) (\<lambda>r. Inr (Some r))) (\<lambda>nodeResource.
     bind_res (gpu_parse_workloads p workloadsResource) (\<lambda>wrksResource.
       Inr (req, nodeResource, wrksResource))))"

text \<open>The part of a set verb after parsing and reading: put, then report before and after.\<close>

definition gpu_put_part :: "('w, 'r, 'f) GpuPlugin \<Rightarrow> 'w \<Rightarrow> string \<Rightarrow> gpu_NodeResourceInfo \<Rightarrow>
    (gpu_NodeResourceInfo \<Rightarrow> ProdCountMap) \<Rightarrow> ProdCountMap \<Rightarrow> 'w \<times> (ProdCountMap \<times> ProdCountMap) res" where
  "gpu_put_part p w nodename info part before =
     (case Put (gpuStore p) w nodename info of
        (w', Inl e) \<Rightarrow> (w', Inl e)
      | (w', Inr info') \<Rightarrow> (w', Inr (before, part info')))"

definition gpu_SetNodeResourceCapacity :: "('w, 'r, 'f) GpuPlugin \<Rightarrow> 'w \<Rightarrow> string \<Rightarrow> 'r option \<Rightarrow> 'r option \<Rightarrow>
    bool \<Rightarrow> bool \<Rightarrow> 'w \<times> (ProdCountMap \<times> ProdCountMap) res" where
  "gpu_SetNodeResourceCapacity p w nodename resource resourceRequest delta incr =
     (case bind_res (gpu_parseNodeResourceInfos p resource resourceRequest []) (\<lambda>(req, nodeResource, _).
             bind_res (GetOrEmpty (gpuStore p) w nodename) (\<lambda>info.
               let origin = gpuCapacity info;
                   req' = (if \<not> delta then map_option (\<lambda>r.
                       LoadFromOrigin r origin (gpuIsSet p resourceRequest ''prod_count_map'')) req else req)
               in bind_res (gpu_calculateNodeResource req' nodeResource (Some origin) [] delta incr)
                    (\<lambda>c. Inr (info\<lparr>gpuCapacity := c\<rparr>, pcm_DeepCopy origin)))) of
        Inl e \<Rightarrow> (w, Inl e)
      | Inr (info, before) \<Rightarrow> gpu_put_part p w nodename info gpuCapacity before)"

definition gpu_SetNodeResourceUsage :: "('w, 'r, 'f) GpuPlugin \<Rightarrow> 'w \<Rightarrow> string \<Rightarrow> 'r option \<Rightarrow> 'r option \<Rightarrow>
    'r option list \<Rightarrow> bool \<Rightarrow> bool \<Rightarrow> 'w \<times> (ProdCountMap \<times> ProdCountMap) res" where
  "gpu_SetNodeResourceUsage p w nodename resource resourceRequest workloadsResource delta incr =
     (case bind_res (gpu_parseNodeResourceInfos p resource resourceRequest workloadsResource)
             (\<lambda>(req, nodeResource, wrksResource).
             bind_res (GetOrEmpty (gpuStore p) w nodename) (\<lambda>info.
               bind_res (gpu_calculateNodeResource req nodeResource (Some (gpuUsage info)) wrksResource delta incr)
                 (\<lambda>u. Inr (info\<lparr>gpuUsage := u\<rparr>, pcm_DeepCopy (gpuUsage info))))) of
        Inl e \<Rightarrow> (w, Inl e)
      | Inr (info, before) \<Rightarrow> gpu_put_part p w nodename info gpuUsage before)"

definition gpu_SetNodeResourceInfo :: "('w, 'r, 'f) GpuPlugin \<Rightarrow> 'w \<Rightarrow> string \<Rightarrow> 'r option \<Rightarrow> 'r option \<Rightarrow>
    'w \<times> goerr option" where
  "gpu_SetNodeResourceInfo p w nodename capacity usage =
     (case bind_res (gpuDecode p capacity) (\<lambda>c. bind_res (gpuDecode p usage) (\<lambda>u.
             Inr \<lparr>gpuCapacity = c, gpuUsage = u\<rparr>)) of
        Inl e \<Rightarrow> (w, Some e)
      | Inr info \<Rightarrow>
          (case Put (gpuStore p) w nodename info of
             (w', Inl e) \<Rightarrow> (w', Some e)
           | (w', Inr _) \<Rightarrow> (w', None)))"

text \<open>\<open>GetMostIdleNode\<close>: the loop over the node names in sorted order.\<close>

fun idle_loop :: "('w, 'r, 'f::linorder) GpuPlugin \<Rightarrow> (string, gpu_NodeResourceInfo) gomap \<Rightarrow> string list \<Rightarrow>
    string \<Rightarrow> 'f \<Rightarrow> string res" where
  "idle_loop p infos [] mostIdleNode minIdle = Inr mostIdleNode"
| "idle_loop p infos (nodename # nodenames) mostIdleNode minIdle =
     (case map_of infos nodename of
        None \<Rightarrow> Inl ErrPanic
      | Some info \<Rightarrow>
          let idle = AdvancedDivide p (float64 (gpu_UsageCount info)) (float64 (gpu_CapCount info))
          in if idle < minIdle then idle_loop p infos nodenames nodename idle
             else idle_loop p infos nodenames mostIdleNode minIdle)"

definition gpu_priority :: i64 where
  "gpu_priority = 100"

definition gpu_GetMostIdleNode :: "('w, 'r, 'f::linorder) GpuPlugin \<Rightarrow> 'w \<Rightarrow> string list \<Rightarrow> (string \<times> i64) res" where
  "gpu_GetMostIdleNode p w nodenames =
     bind_res (GetMulti (gpuStore p) w nodenames) (\<lambda>infos.
       bind_res (idle_loop p infos (sort (map fst infos)) [] (MaxFloat64 p)) (\<lambda>mostIdleNode.
         Inr (mostIdleNode, gpu_priority)))"

text \<open>\<open>getNodeResourceInfo\<close>: the recomputed usage and the lines that say where it differs.\<close>

definition gpu_diffs :: "ProdCountMap \<Rightarrow> gpu_NodeResourceInfo \<Rightarrow> string list" where
  "gpu_diffs actually info =
     (if pcm_Count actually \<noteq> gpu_UsageCount info
      then [''node.usage != sum(workload.request): '' @ show_i64 (gpu_UsageCount info) @ '' != ''
              @ show_i64 (pcm_Count actually)] else []) @
     concat (map (\<lambda>(prd, count1). case map_of (entries (gpuUsage info)) prd of
         None \<Rightarrow> [prd @ '' not in usage'']
       | Some count2 \<Rightarrow>
           if count1 \<noteq> count2
           then [prd @ '': actual('' @ show_i64 count1 @ '') != usage('' @ show_i64 count2 @ '')'']
           else []) (entries actually))"

definition gpu_getNodeResourceInfo :: "('w, 'r, 'f) GpuPlugin \<Rightarrow> 'w \<Rightarrow> string \<Rightarrow> 'r option list \<Rightarrow>
    (gpu_NodeResourceInfo \<times> ProdCountMap \<times> string list) res" where
  "gpu_getNodeResourceInfo p w nodename workloadsResource =
     bind_res (Get (gpuStore p) w nodename) (\<lambda>info.
       bind_res (gpu_parse_workloads p workloadsResource) (\<lambda>wrks.
         bind_res (apply_workloads True (PMap []) wrks) (\<lambda>actually.
           Inr (info, actually, gpu_diffs actually info))))"

record gpu_InfoResponse =
  gpuRespCapacity :: ProdCountMap
  gpuRespUsage :: ProdCountMap
  gpuRespDiffs :: "string list"

definition gpu_GetNodeResourceInfo :: "('w, 'r, 'f) GpuPlugin \<Rightarrow> 'w \<Rightarrow> string \<Rightarrow> 'r option list \<Rightarrow> gpu_InfoResponse res" where
  "gpu_GetNodeResourceInfo p w nodename workloadsResource =
     bind_res (gpu_getNodeResourceInfo p w nodename workloadsResource) (\<lambda>(info, _, ds).
       Inr \<lparr>gpuRespCapacity = gpuCapacity info, gpuRespUsage = gpuUsage info, gpuRespDiffs = ds\<rparr>)"

definition gpu_FixNodeResource :: "('w, 'r, 'f) GpuPlugin \<Rightarrow> 'w \<Rightarrow> string \<Rightarrow> 'r option list \<Rightarrow> 'w \<times> gpu_InfoResponse res" where
  "gpu_FixNodeResource p w nodename workloadsResource =
     (case gpu_getNodeResourceInfo p w nodename workloadsResource of
        Inl e \<Rightarrow> (w, Inl e)
      | Inr (info, actually, ds) \<Rightarrow>
          if ds = []
          then (w, Inr \<lparr>gpuRespCapacity = gpuCapacity info, gpuRespUsage = gpuUsage info, gpuRespDiffs = ds\<rparr>)
          else (case Put (gpuStore p) w nodename (info\<lparr>gpuUsage := actually\<rparr>) of
                  (w', Inl e) \<Rightarrow> (w', Inl e)
                | (w', Inr info') \<Rightarrow>
                    (w', Inr \<lparr>gpuRespCapacity = gpuCapacity info', gpuRespUsage = gpuUsage info', gpuRespDiffs = ds\<rparr>)))"

definition gpu_GetNodesResourceInfo :: "('w, 'r, 'f) GpuPlugin \<Rightarrow> 'w \<Rightarrow> string list \<Rightarrow>
    (string, ProdCountMap \<times> ProdCountMap) gomap res" where
  "gpu_GetNodesResourceInfo p w nodenames =
     bind_res (GetMulti (gpuStore p) w nodenames) (\<lambda>infos.
       Inr (map (\<lambda>(nodename, info). (nodename, (gpuCapacity info, gpuUsage info))) infos))"

section \<open>metrics.go, and the verb without an effect\<close>

definition gpu_metric :: "NodeRef \<Rightarrow> string \<Rightarrow> string \<Rightarrow> string \<Rightarrow> i64 \<Rightarrow> Metrics" where
  "gpu_metric node prd name suffix n = \<lparr>mName = name, mLabels = [Podname node, Nodename node, prd],
     mValue = show_i64 n,
     mKey = ''core.node.'' @ replace_char (Nodename node) CHR ''.'' ''_'' @ ''.gpu.'' @
       replace_char prd CHR ''.'' ''_'' @ suffix\<rparr>"

fun gpu_metrics :: "(string, gpu_NodeResourceInfo) gomap \<Rightarrow> NodeRef list \<Rightarrow> Metrics list res" where
  "gpu_metrics infos [] = Inr []"
| "gpu_metrics infos (node # nodes) =
     (case map_of infos (Nodename node) of
        None \<Rightarrow> Inl ErrPanic
      | Some info \<Rightarrow> bind_res (gpu_metrics infos nodes) (\<lambda>metrics.
          Inr (concat (map (\<lambda>(prd, count).
              [gpu_metric node prd ''gpu_capacity'' ''.capacity'' count,
               gpu_metric node prd ''gpu_used'' ''.used'' (mget (entries (gpuUsage info)) prd)])
            (entries (gpuCapacity info))) @ metrics)))"

definition gpu_GetMetrics :: "('w, 'r, 'f) GpuPlugin \<Rightarrow> 'w \<Rightarrow> NodeRef list \<Rightarrow> Metrics list res" where
  "gpu_GetMetrics p w nodes =
     bind_res (GetMulti (gpuStore p) w (map Nodename nodes)) (\<lambda>infos. gpu_metrics infos nodes)"

definition gpu_GetMetricsDescription :: "(string \<times> string \<times> string \<times> string list) list" where
  "gpu_GetMetricsDescription =
     [(''gpu_capacity'', ''node available gpu.'', ''gauge'', [''podname'', ''nodename'', ''product'']),
      (''gpu_used'', ''node used gpu.'', ''gauge'', [''podname'', ''nodename'', ''product''])]"

definition gpu_CalculateRemap :: "string \<Rightarrow> (string, 'r option) gomap \<Rightarrow> (string, ProdCountMap) gomap res" where
  "gpu_CalculateRemap nodename workloads = Inr []"

end
