(* ===== verification/Gpu_Props.thy ===== *)
theory Gpu_Props
  imports Gpu_Plugin
begin

text \<open>
  What the GPU plugin guarantees: an allocation succeeds exactly when every product has enough
  free cards, the deploy capacity a node reports is the number of workloads that can be
  allocated, a realloc moves exactly the difference, and usage edits and repairs round-trip.
\<close>

section \<open>Allocation\<close>

definition valid_req :: "(string, i64) gomap \<Rightarrow> bool" where
  "valid_req req \<longleftrightarrow> wf_map req \<and> (\<forall>(p, n) \<in> set req. 0 < n)"

lemma valid_req_Cons:
  "valid_req ((p, n) # req) \<longleftrightarrow> 0 < n \<and> p \<notin> fst ` set req \<and> valid_req req"
  by (auto simp: valid_req_def)

lemma valid_req_validated:
  "wf_pcm q \<Longrightarrow> pcm_Validate q = None \<Longrightarrow> valid_req (entries q)"
  by (auto simp: valid_req_def wf_pcm_def pcm_Validate_None_iff)

text \<open>\<open>k\<close> copies of the request fit into what is available.\<close>

definition fits :: "nat \<Rightarrow> (string, i64) gomap \<Rightarrow> (string, i64) gomap \<Rightarrow> bool" where
  "fits k req available \<longleftrightarrow> k = 0 \<or> (\<forall>(p, n) \<in> set req. int k * val n \<le> val (mget available p))"

lemma mput_absent: "k \<notin> fst ` set m \<Longrightarrow> mput k v m = m @ [(k, v)]"
  unfolding mput_def by (induction m) auto

lemma alloc_prods_ok:
  assumes "valid_req req" "\<forall>(p, n) \<in> set req. n \<le> mget available p"
    and "fst ` set req \<inter> fst ` set acc = {}"
  shows "\<exists>a. alloc_prods req available acc = Inr (a, acc @ req) \<and>
     (\<forall>k. mget a k = mget available k - mget req k)"
  using assms
proof (induction req available acc rule: alloc_prods.induct)
  case (2 p n req available acc)
  from "2.prems"(1,2) have pos: "0 < n" "n \<le> mget available p" by (simp_all add: valid_req_Cons)
  then obtain c where c: "map_of available p = Some c" "\<not> c < n"
    by (auto simp: mget_def not_less split: option.splits)
  let ?av = "mput p (mget available p - n) available"
  have "\<exists>a. alloc_prods req ?av (mput p n acc) = Inr (a, mput p n acc @ req) \<and>
     (\<forall>k. mget a k = mget ?av k - mget req k)"
  proof (rule "2.IH" [OF c])
    show "valid_req req" using "2.prems"(1) by (simp add: valid_req_Cons)
    show "\<forall>(q, m) \<in> set req. m \<le> mget ?av q"
      using "2.prems"(1,2) by (force simp: valid_req_Cons)
    show "fst ` set req \<inter> fst ` set (mput p n acc) = {}"
      using "2.prems"(1,3) by (auto simp: valid_req_Cons mput_absent)
  qed
  then show ?case
    using c "2.prems"(1,3) by (auto simp: mput_absent valid_req_Cons mget_absent)
qed simp

lemma alloc_prods_fail:
  assumes "valid_req req" "\<exists>(p, n) \<in> set req. \<not> n \<le> mget available p"
  shows "alloc_prods req available acc = Inl ErrInsufficientResource"
  using assms
proof (induction req available acc rule: alloc_prods.induct)
  case (2 p n req available acc)
  show ?case
  proof (cases "map_of available p")
    case (Some c)
    show ?thesis
    proof (cases "c < n")
      case False
      have "alloc_prods req (mput p (mget available p - n) available) (mput p n acc)
          = Inl ErrInsufficientResource"
        using "2.prems" Some False
        by (intro "2.IH" [OF Some False]) (force simp: valid_req_Cons mget_def)+
      with Some False show ?thesis by simp
    qed (simp add: Some)
  qed simp
qed simp

lemma fits_Suc_iff:
  assumes "valid_req req" "\<forall>k. mget a k = mget available k - mget req k"
    and "\<forall>(p, n) \<in> set req. n \<le> mget available p"
  shows "fits (Suc k) req available \<longleftrightarrow> fits k req a"
proof -
  have "int (Suc k) * val n \<le> val (mget available p) \<longleftrightarrow> int k * val n \<le> val (mget a p)"
    if "(p, n) \<in> set req" for p n
  proof -
    have "mget req p = n" "0 < n" "n \<le> mget available p"
      using that assms(1,3) by (auto simp: valid_req_def mget_mem)
    then have "val (mget available p) = val n + val (mget a p)"
      using assms(2) by (simp add: val_diff_le)
    then show ?thesis by (simp add: algebra_simps)
  qed
  moreover have "val n \<le> val (mget available p)" if "(p, n) \<in> set req" for p n
    using that assms(3) by (auto simp: i64_le_iff)
  ultimately show ?thesis
    by (cases k) (auto simp: fits_def)
qed

lemma alloc_loop_eq:
  assumes "valid_req req"
  shows "alloc_loop k req available =
    (if fits k req available then Inr (replicate k (PMap req), replicate k (PMap req))
     else Inl ErrInsufficientResource)"
proof (induction k arbitrary: available)
  case 0
  show ?case by (simp add: fits_def)
next
  case (Suc k)
  show ?case
  proof (cases "\<forall>(p, n) \<in> set req. n \<le> mget available p")
    case True
    obtain a where a: "alloc_prods req available [] = Inr (a, req)"
      "\<forall>k. mget a k = mget available k - mget req k"
      using alloc_prods_ok [OF assms True, of "[]"] by auto
    have "fits (Suc k) req available \<longleftrightarrow> fits k req a"
      by (rule fits_Suc_iff [OF assms a(2) True])
    then show ?thesis
      using a(1) Suc.IH [of a] by (simp add: pcm_DeepCopy_def)
  next
    case False
    have "\<not> fits (Suc k) req available"
    proof
      assume "fits (Suc k) req available"
      then have fit: "int (Suc k) * val n \<le> val (mget available p)" if "(p, n) \<in> set req" for p n
        using that by (auto simp: fits_def)
      obtain p n where pn: "(p, n) \<in> set req" "\<not> n \<le> mget available p" using False by auto
      have "0 \<le> int k * val n"
        using pn(1) assms by (auto simp: valid_req_def i64_less_iff intro: mult_nonneg_nonneg)
      then show False
        using fit [OF pn(1)] pn(2) by (simp add: i64_le_iff algebra_simps)
    qed
    moreover have "alloc_prods req available [] = Inl ErrInsufficientResource"
      by (rule alloc_prods_fail [OF assms]) (use False in auto)
    ultimately show ?thesis by simp
  qed
qed

lemma available_mget:
  "wf_pcm (gpuUsage info) \<Longrightarrow>
   mget (entries (gpu_GetAvailableResource info)) p = count_of (gpuCapacity info) p - count_of (gpuUsage info) p"
  by (simp add: gpu_GetAvailableResource_def pcm_DeepCopy_def count_of_def wf_pcm_def mget_sub_entries)

lemma gpu_doAlloc_eq:
  assumes "wf_pcm req" "pcm_Validate req = None" "wf_pcm (gpuUsage info)"
  shows "gpu_doAlloc info deployCount req =
    (if val deployCount \<le> 0 \<or> (\<forall>(p, n) \<in> set (entries req).
          val deployCount * val n \<le> val (count_of (gpuCapacity info) p - count_of (gpuUsage info) p))
     then Inr (replicate (nat (val deployCount)) (PMap (entries req)),
               replicate (nat (val deployCount)) (PMap (entries req)))
     else Inl ErrInsufficientResource)"
proof -
  have "fits (nat (val deployCount)) (entries req) (entries (gpu_GetAvailableResource info)) \<longleftrightarrow>
     val deployCount \<le> 0 \<or> (\<forall>(p, n) \<in> set (entries req).
          val deployCount * val n \<le> val (count_of (gpuCapacity info) p - count_of (gpuUsage info) p))"
    by (auto simp: fits_def available_mget [OF assms(3)])
  then show ?thesis
    unfolding gpu_doAlloc_def alloc_loop_eq [OF valid_req_validated [OF assms(1,2)]] by simp
qed

text \<open>
  C7: \<open>doAlloc\<close> succeeds exactly when \<open>deployCount\<close> copies of the request fit into the free
  cards (capacity minus usage) of every product, and then hands every workload exactly the
  request; otherwise the answer is \<open>ErrInsufficientResource\<close>.
\<close>

theorem gpu_doAlloc_correct:
  assumes "wf_pcm req" "pcm_Validate req = None" "wf_pcm (gpuUsage info)"
  shows "gpu_doAlloc info deployCount req =
    (if val deployCount \<le> 0 \<or> (\<forall>(p, n) \<in> set (entries req).
          val deployCount * val n \<le> val (count_of (gpuCapacity info) p - count_of (gpuUsage info) p))
     then Inr (replicate (nat (val deployCount)) (PMap (entries req)),
               replicate (nat (val deployCount)) (PMap (entries req)))
     else Inl ErrInsufficientResource)"
  using assms by (rule gpu_doAlloc_eq)

theorem gpu_doAlloc_correct_witness:
  "gpu_doAlloc \<lparr>gpuCapacity = PMap [(''a'', 3)], gpuUsage = PMap [(''a'', 1)]\<rparr> 2 (PMap [(''a'', 1)])
    = Inr (replicate 2 (PMap [(''a'', 1)]), replicate 2 (PMap [(''a'', 1)])) \<and>
   gpu_doAlloc \<lparr>gpuCapacity = PMap [(''a'', 3)], gpuUsage = PMap [(''a'', 1)]\<rparr> 3 (PMap [(''a'', 1)])
    = Inl ErrInsufficientResource"
  using gpu_doAlloc_correct [of "PMap [(''a'', 1)]"
      "\<lparr>gpuCapacity = PMap [(''a'', 3)], gpuUsage = PMap [(''a'', 1)]\<rparr>" 2]
    gpu_doAlloc_correct [of "PMap [(''a'', 1)]"
      "\<lparr>gpuCapacity = PMap [(''a'', 3)], gpuUsage = PMap [(''a'', 1)]\<rparr>" 3]
  by (simp add: wf_pcm_def count_of_def pcm_Validate_def)

section \<open>Deploy capacity\<close>

lemma quot_ge_iff:
  assumes "0 < n" "0 < k"
  shows "k \<le> val (quot a n) \<longleftrightarrow> k * val n \<le> val a"
proof -
  have n: "0 < val n" using assms(1) by (simp add: i64_less_iff)
  show ?thesis
  proof (cases "0 \<le> val a")
    case True
    then show ?thesis
      using n by (simp add: val_quot_pos [OF assms(1)] tdiv_pos le_div_iff_mult_le)
  next
    case False
    have "tdiv (val a) (val n) \<le> 0"
      using False n by (simp add: tdiv_neg pos_imp_zdiv_nonneg_iff)
    moreover have "0 < k * val n" using n assms(2) by simp
    ultimately show ?thesis
      using False assms(2) by (simp add: val_quot_pos [OF assms(1)])
  qed
qed

lemma capacity_loop_ge:
  assumes "valid_req req" "0 < k"
  shows "k \<le> val (capacity_loop req available c) \<longleftrightarrow>
    k \<le> val c \<and> (\<forall>(p, n) \<in> set req. k * val n \<le> val (mget available p))"
  using assms(1)
proof (induction req available c rule: capacity_loop.induct)
  case (2 p n req available c)
  let ?c = "min c (quot (mget available p) n)"
  have n: "0 < n" and req: "valid_req req" using "2.prems" by (simp_all add: valid_req_Cons)
  have c: "k \<le> val ?c \<longleftrightarrow> k \<le> val c \<and> k * val n \<le> val (mget available p)"
    using quot_ge_iff [OF n assms(2), of "mget available p"]
    by (auto simp: min_def i64_le_iff)
  show ?case
  proof (cases "?c \<le> 0")
    case True
    then have "\<not> k \<le> val ?c" using assms(2) by (simp add: i64_le_iff)
    with True c show ?thesis by (auto simp: Let_def)
  next
    case False
    with "2.IH" [OF refl False req] c show ?thesis by (simp add: Let_def)
  qed
qed simp

lemma gpu_capacity_ge_iff:
  assumes "wf_pcm req" "pcm_Validate req = None" "wf_pcm (gpuUsage info)"
    and "entries req = [] \<or> 0 < pcm_Count req" "0 < deployCount" "deployCount \<le> gpu_maxCapacity"
  shows "deployCount \<le> gpu_capacity info req \<longleftrightarrow> (\<exists>plans. gpu_doAlloc info deployCount req = Inr plans)"
proof -
  have pos: "0 < val deployCount" using assms(5) by (simp add: i64_less_iff)
  have "deployCount \<le> gpu_capacity info req \<longleftrightarrow>
    (\<forall>(p, n) \<in> set (entries req). val deployCount * val n \<le> val (mget (entries (gpu_GetAvailableResource info)) p))"
    using assms(4,6) pos capacity_loop_ge [OF valid_req_validated [OF assms(1,2)] pos]
    by (auto simp: gpu_capacity_def i64_le_iff pcm_Count_def)
  also have "\<dots> \<longleftrightarrow> (\<exists>plans. gpu_doAlloc info deployCount req = Inr plans)"
    unfolding gpu_doAlloc_eq [OF assms(1-3)] available_mget [OF assms(3)]
    using pos by auto
  finally show ?thesis .
qed

text \<open>
  C24: the capacity a node reports is exactly the number of workloads that can be allocated on
  it, up to the cap of one million.
\<close>

theorem gpu_capacity_is_alloc_bound:
  assumes "wf_pcm req" "pcm_Validate req = None" "wf_pcm (gpuUsage info)"
    and "entries req = [] \<or> 0 < pcm_Count req" "0 < deployCount" "deployCount \<le> gpu_maxCapacity"
  shows "deployCount \<le> gpu_capacity info req \<longleftrightarrow> (\<exists>plans. gpu_doAlloc info deployCount req = Inr plans)"
  using assms by (rule gpu_capacity_ge_iff)

theorem gpu_capacity_is_alloc_bound_witness:
  "2 \<le> gpu_capacity \<lparr>gpuCapacity = PMap [(''a'', 3)], gpuUsage = PMap [(''a'', 1)]\<rparr> (PMap [(''a'', 1)])"
  using gpu_capacity_is_alloc_bound [of "PMap [(''a'', 1)]"
      "\<lparr>gpuCapacity = PMap [(''a'', 3)], gpuUsage = PMap [(''a'', 1)]\<rparr>" 2]
    gpu_doAlloc_eq [of "PMap [(''a'', 1)]" "\<lparr>gpuCapacity = PMap [(''a'', 3)], gpuUsage = PMap [(''a'', 1)]\<rparr>" 2]
  by (simp add: wf_pcm_def count_of_def pcm_Validate_def pcm_Count_def gpu_maxCapacity_def)

section \<open>Realloc\<close>

lemma mget_filter_pos:
  "wf_map m \<Longrightarrow> mget (filter (\<lambda>(_, n). \<not> n \<le> 0) m) p = (if mget m p \<le> 0 then 0 else mget m p)"
  for m :: "(string, i64) gomap"
proof (induction m)
  case (Cons x m)
  obtain k n where x: "x = (k, n)" by fastforce
  show ?case
    using Cons by (cases "k = p") (auto simp: x mget_absent split: if_splits)
qed simp

lemma mem_mget: "wf_map m \<Longrightarrow> mget m p \<noteq> 0 \<Longrightarrow> (p, mget m p) \<in> set m"
  by (auto simp: mget_def split: option.splits dest: map_of_SomeD)

lemma gpu_realloc_cases:
  assumes "wf_pcm req" "wf_pcm originResource" "wf_pcm (gpuUsage info)" "gpuUsage info \<noteq> NilMap"
  defines "new \<equiv> filter (\<lambda>(_, n). \<not> n \<le> 0) (add_entries (entries req) (entries originResource))"
  defines "used \<equiv> sub_entries (entries (gpuUsage info)) (entries originResource)"
  shows "gpu_realloc info req originResource =
     (if fits 1 new (entries (gpu_GetAvailableResource (info\<lparr>gpuUsage := PMap used\<rparr>)))
      then Inr \<lparr>gpuEngineParams = PMap new, gpuDeltaResource = PMap (sub_entries new (entries originResource)),
             gpuWorkloadResource = PMap new\<rparr>
      else Inl ErrInsufficientResource)"
proof -
  have sub: "pcm_Sub (gpuUsage info) originResource = Inr (PMap used)"
    using assms(4) by (cases "gpuUsage info") (simp_all add: used_def)
  have merge: "MergeFromResource (pcm_DeepCopy req) originResource = Inr (PMap new)"
    by (simp add: MergeFromResource_def pcm_DeepCopy_def new_def)
  have "valid_req new"
    using assms(1) by (auto simp: new_def valid_req_def wf_pcm_def not_le)
  then have alloc: "gpu_doAlloc (info\<lparr>gpuUsage := PMap used\<rparr>) 1 (PMap new) =
     (if fits 1 new (entries (gpu_GetAvailableResource (info\<lparr>gpuUsage := PMap used\<rparr>)))
      then Inr ([PMap new], [PMap new]) else Inl ErrInsufficientResource)"
    by (simp add: gpu_doAlloc_def alloc_loop_eq del: alloc_loop.simps)
  show ?thesis
    unfolding gpu_realloc_def sub merge bind_res_simps alloc by (simp add: pcm_DeepCopy_def)
qed

text \<open>
  C25: a realloc gives the workload, per product, what it had plus what is asked for, clamped at
  zero; the delta is exactly the difference to what it had; and what it now has is covered by
  the cards that are free once its own are given back.
\<close>

theorem gpu_realloc_correct:
  assumes "wf_pcm req" "wf_pcm originResource" "wf_pcm (gpuUsage info)" "gpuUsage info \<noteq> NilMap"
    and "gpu_realloc info req originResource = Inr resp"
  shows "count_of (gpuWorkloadResource resp) p =
      (if count_of req p + count_of originResource p \<le> 0 then 0
       else count_of req p + count_of originResource p) \<and>
    gpuEngineParams resp = gpuWorkloadResource resp \<and>
    count_of (gpuDeltaResource resp) p = count_of (gpuWorkloadResource resp) p - count_of originResource p \<and>
    (count_of (gpuWorkloadResource resp) p = 0 \<or> count_of (gpuWorkloadResource resp) p
      \<le> count_of (gpuCapacity info) p - (count_of (gpuUsage info) p - count_of originResource p))"
proof -
  let ?new = "filter (\<lambda>(_, n). \<not> n \<le> 0) (add_entries (entries req) (entries originResource))"
  let ?used = "sub_entries (entries (gpuUsage info)) (entries originResource)"
  note cases = gpu_realloc_cases [OF assms(1-4)]
  have fit: "fits 1 ?new (entries (gpu_GetAvailableResource (info\<lparr>gpuUsage := PMap ?used\<rparr>)))"
    and resp: "resp = \<lparr>gpuEngineParams = PMap ?new,
      gpuDeltaResource = PMap (sub_entries ?new (entries originResource)), gpuWorkloadResource = PMap ?new\<rparr>"
    using assms(5) by (auto simp: cases split: if_splits)
  have wf: "wf_map (entries req)" "wf_map (entries originResource)" "wf_map ?new" "wf_map ?used"
    using assms(1-3) by (auto simp: wf_pcm_def)
  have "mget ?new p = 0 \<or>
      mget ?new p \<le> mget (entries (gpu_GetAvailableResource (info\<lparr>gpuUsage := PMap ?used\<rparr>))) p"
    using fit mem_mget [OF wf(3), of p] by (force simp: fits_def i64_le_iff)
  then have "mget ?new p = 0 \<or>
      mget ?new p \<le> count_of (gpuCapacity info) p - (count_of (gpuUsage info) p - count_of originResource p)"
    using wf by (simp add: available_mget wf_pcm_def count_of_def mget_sub_entries)
  with wf show ?thesis
    by (simp add: resp count_of_def mget_filter_pos mget_add_entries mget_sub_entries)
qed

theorem gpu_realloc_correct_witness:
  "\<exists>resp. gpu_realloc
      \<lparr>gpuCapacity = PMap [(''a'', 2), (''b'', 2)], gpuUsage = PMap [(''a'', 1)]\<rparr>
      (PMap [(''a'', - 1), (''b'', 1)]) (PMap [(''a'', 1)]) = Inr resp \<and>
    count_of (gpuWorkloadResource resp) ''b'' = 1 \<and> count_of (gpuDeltaResource resp) ''b'' = 1"
proof -
  let ?info = "\<lparr>gpuCapacity = PMap [(''a'', 2), (''b'', 2)], gpuUsage = PMap [(''a'', 1)]\<rparr>"
  let ?req = "PMap [(''a'', - 1), (''b'', 1)]" and ?old = "PMap [(''a'', 1)]"
  have "\<not> isl (gpu_realloc ?info ?req ?old)" by code_simp
  then obtain resp where resp: "gpu_realloc ?info ?req ?old = Inr resp"
    by (cases "gpu_realloc ?info ?req ?old") auto
  with gpu_realloc_correct [OF _ _ _ _ this, of "''b''"] show ?thesis
    by (simp add: wf_pcm_def count_of_def)
qed

text \<open>The table of the documentation: one card given back, one of another product taken.\<close>

lemma gpu_realloc_table:
  "map_option (\<lambda>r. entries (gpuWorkloadResource r)) (case gpu_realloc
      \<lparr>gpuCapacity = PMap [(''nvidia-3090'', 2), (''nvidia-3070'', 2)], gpuUsage = PMap [(''nvidia-3090'', 1)]\<rparr>
      (PMap [(''nvidia-3090'', - 1), (''nvidia-3070'', 1)]) (PMap [(''nvidia-3090'', 1)])
     of Inr r \<Rightarrow> Some r | Inl _ \<Rightarrow> None) = Some [(''nvidia-3070'', 1)]"
  by code_simp

text \<open>
  A usage record whose map is \<open>null\<close> (which \<open>SetNodeResourceInfo\<close> stores when it is given no
  usage) makes a realloc of a workload that holds cards panic: \<open>CalculateRealloc\<close> subtracts from
  the decoded map without the copy the other verbs make.
\<close>

lemma gpu_realloc_nil_usage_panics:
  "entries originResource \<noteq> [] \<Longrightarrow>
   gpu_realloc \<lparr>gpuCapacity = c, gpuUsage = NilMap\<rparr> req originResource = Inl ErrPanic"
  by (simp add: gpu_realloc_def)

end
