(* ===== verification/Store_Props.thy ===== *)
theory Store_Props
  imports Nodestore
begin

text \<open>
  What the store gives the verbs of both plugins: a record that was put is read back, a verb that fails
  has not touched the cluster, and one range read is as good as a read per node.
\<close>

section \<open>Failing writes\<close>

text \<open>
  The cluster after a verb on node \<open>n\<close> failed with \<open>e\<close>: as it was, or what etcd made of the one write
  that it refused.
\<close>

definition untouched :: "('w, 'i) Store \<Rightarrow> string \<Rightarrow> 'w \<Rightarrow> 'w \<times> 'o res \<Rightarrow> bool" where
  "untouched s n w r \<longleftrightarrow> (case snd r of Inr _ \<Rightarrow> True
     | Inl e \<Rightarrow> fst r = w \<or> (\<exists>data. kvPut s w (key s n) data = (fst r, Some e)))"

lemma Put_changed:
  "Put s w n info = (w', Inl e) \<Longrightarrow> w' = w \<or> (\<exists>data. kvPut s w (key s n) data = (w', Some e))"
  by (auto simp: Put_def split: sum.splits prod.splits option.splits)

lemma untouched_simps [simp]: "untouched s n w (w, r)" "untouched s n w (w', Inr x)"
  by (auto simp: untouched_def split: sum.splits)

lemma untouched_Put:
  "untouched s n w (case Put s w n info of (w', Inl e) \<Rightarrow> (w', Inl e) | (w', Inr info') \<Rightarrow> (w', Inr (f info')))"
  using Put_changed [of s w n info] by (auto simp: untouched_def split: prod.splits sum.splits)

section \<open>Reading by contents\<close>

lemma Get_by_content:
  assumes "etcd_ok s c" "reads_ok s"
  shows "Get s w n = (case c w (key s n) of None \<Rightarrow> Inl ErrNodeNotExists | Some v \<Rightarrow> unmarshal s v (newInfo s))"
proof -
  obtain r where r: "kvGet s w (key s n) = Inr r" using assms(2) unfolding reads_ok_def by blast
  then have "r = (case c w (key s n) of None \<Rightarrow> (0, []) | Some v \<Rightarrow> (1, [(key s n, v)]))"
    using assms(1) unfolding etcd_ok_def by blast
  with r show ?thesis by (simp add: Get_def split: option.splits)
qed

section \<open>Range reads\<close>

text \<open>
  A range read over the prefix of the keys gives the pairs stored under it; the keys there are those of
  nodes, whose names core's \<open>Tail\<close> cuts off (they hold no slash).
\<close>

definition range_ok :: "('w, 'i) Store \<Rightarrow> ('w \<Rightarrow> string \<Rightarrow> string option) \<Rightarrow> 'w \<Rightarrow> bool" where
  "range_ok s c w \<longleftrightarrow>
     (\<forall>r. kvGetPrefix s w (key s []) = Inr r \<longrightarrow>
        set (snd r) = {(k, v). c w k = Some v \<and> has_prefix k (key s [])}) \<and>
     (\<forall>n. has_prefix (key s n) (key s [])) \<and>
     (\<forall>k v. c w k = Some v \<and> has_prefix k (key s []) \<longrightarrow> k = key s (tail s k))"

lemma map_of_collect:
  assumes "\<forall>(k, v) \<in> set kvs. m (nm k) = Some v" "map_of st n = m n \<or> map_of st n = None \<and> n \<in> (\<lambda>(k, _). nm k) ` set kvs"
  shows "map_of (fold (\<lambda>(k, v). mput (nm k) v) kvs st) n = m n"
  using assms
proof (induction kvs arbitrary: st)
  case (Cons e kvs)
  obtain k v where e: "e = (k, v)" by force
  have "map_of (fold (\<lambda>(k, v). mput (nm k) v) kvs (mput (nm k) v st)) n = m n"
  proof (rule Cons.IH)
    show "\<forall>(k, v) \<in> set kvs. m (nm k) = Some v" using Cons.prems(1) by simp
    show "map_of (mput (nm k) v st) n = m n \<or> map_of (mput (nm k) v st) n = None \<and> n \<in> (\<lambda>(k, _). nm k) ` set kvs"
      using Cons.prems by (cases "n = nm k") (simp_all add: e)
  qed
  then show ?case by (simp add: e)
qed simp

lemma collect_stored_spec:
  assumes "etcd_ok s c" "range_ok s c w" "kvGetPrefix s w (key s []) = Inr (cnt, kvs)"
  shows "map_of (collect_stored s kvs) n = c w (key s n)"
proof -
  have kvs: "set kvs = {(k, v). c w k = Some v \<and> has_prefix k (key s [])}"
    using assms(2,3) unfolding range_ok_def by fastforce
  have own: "k = key s (tail s k)" if "(k, v) \<in> set kvs" for k v
    using that assms(2) unfolding kvs range_ok_def by blast
  have pre: "has_prefix (key s n) (key s [])" for n using assms(2) by (simp add: range_ok_def)
  show ?thesis
    unfolding collect_stored_def
  proof (rule map_of_collect [where m = "\<lambda>n. c w (key s n)" and nm = "tail s"])
    show "\<forall>(k, v) \<in> set kvs. c w (key s (tail s k)) = Some v"
      using own unfolding kvs by (auto simp flip: own)
    show "map_of [] n = c w (key s n) \<or> map_of [] n = None \<and> n \<in> (\<lambda>(k, _). tail s k) ` set kvs"
    proof (cases "c w (key s n)")
      case (Some v)
      then have mem: "(key s n, v) \<in> set kvs" using pre unfolding kvs by simp
      then have "n = tail s (key s n)" using own [OF mem] by simp
      with mem show ?thesis by force
    qed simp
  qed
qed

lemma decode_infos_spec:
  assumes "decode_infos s stored ns infos = Inr res" "n \<in> set ns \<union> fst ` set infos"
    and "\<forall>n i. n \<notin> set ns \<and> map_of infos n = Some i \<longrightarrow> P n i"
    and "\<And>n i. (case map_of stored n of Some v \<Rightarrow> unmarshal s v (newInfo s) | None \<Rightarrow> Inr (newInfo s)) = Inr i \<Longrightarrow> P n i"
  shows "\<exists>i. map_of res n = Some i \<and> P n i"
  using assms(1-3)
proof (induction ns arbitrary: infos)
  case Nil
  then obtain i where "map_of infos n = Some i" by (cases "map_of infos n") (auto simp: map_of_eq_None_iff)
  with Nil show ?case by auto
next
  case (Cons m ns)
  from Cons.prems(1) obtain i where i: "decode_infos s stored ns (mput m i infos) = Inr res"
    "(case map_of stored m of Some v \<Rightarrow> unmarshal s v (newInfo s) | None \<Rightarrow> Inr (newInfo s)) = Inr i"
    by auto
  have "fst ` set (mput m i infos) = insert m (fst ` set infos)"
    by (simp flip: dom_map_of_conv_image_fst)
  then show ?case
    using Cons.prems(2,3) assms(4) [OF i(2)] by (intro Cons.IH [OF i(1)]) auto
qed

lemma GetMulti_spec:
  assumes "etcd_ok s c" "reads_ok s" "range_ok s c w" "GetMulti s w ns = Inr infos"
  shows "wf_map infos" "fst ` set infos = set ns" "n \<in> set ns \<Longrightarrow> \<exists>i. map_of infos n = Some i \<and> GetOrEmpty s w n = Inr i"
proof -
  obtain cnt kvs where kv: "kvGetPrefix s w (key s []) = Inr (cnt, kvs)"
    "decode_infos s (collect_stored s kvs) ns [] = Inr infos"
    using assms(4) by (auto simp: GetMulti_def)
  show "wf_map infos" using decode_infos_wf [OF kv(2)] by simp
  show "fst ` set infos = set ns" using decode_infos_dom [OF kv(2)] by simp
  have "GetOrEmpty s w n = Inr i"
    if "(case map_of (collect_stored s kvs) n of Some v \<Rightarrow> unmarshal s v (newInfo s) | None \<Rightarrow> Inr (newInfo s)) = Inr i" for n i
  proof -
    obtain r where r: "kvGet s w (key s n) = Inr r" using assms(2) unfolding reads_ok_def by blast
    then have "r = (case c w (key s n) of None \<Rightarrow> (0, []) | Some v \<Rightarrow> (1, [(key s n, v)]))"
      using assms(1) unfolding etcd_ok_def by blast
    then show ?thesis
      using that r collect_stored_spec [OF assms(1,3) kv(1), of n]
      by (auto simp: GetOrEmpty_def Get_def split: option.splits)
  qed
  from decode_infos_spec [OF kv(2) _ _ this, of n]
  show "n \<in> set ns \<Longrightarrow> \<exists>i. map_of infos n = Some i \<and> GetOrEmpty s w n = Inr i" by simp
qed

section \<open>A store to evaluate on\<close>

text \<open>
  An etcd that is a map from keys to values, and a codec for the records of a finite table: its code for
  a record is the position there, in unary.
\<close>

definition last_part :: "string \<Rightarrow> string" where
  "last_part k = last (split_at CHR ''/'' k)"

definition table_store :: "'i list \<Rightarrow> 'i \<Rightarrow> ((string, string) gomap, 'i) Store" where
  "table_store infos empty_info = \<lparr>
     kvGet = (\<lambda>w k. Inr (case map_of w k of None \<Rightarrow> (0, []) | Some v \<Rightarrow> (1, [(k, v)]))),
     kvGetPrefix = (\<lambda>w k. Inr (length w, filter (\<lambda>(k', _). has_prefix k' k) w)),
     kvPut = (\<lambda>w k v. (mput k v w, None)), kvDelete = (\<lambda>w k. (mdelete k w, None)),
     marshal = (\<lambda>info. case index_of (\<lambda>x. x = info) infos of
       Some i \<Rightarrow> Inr (replicate i CHR ''1'') | None \<Rightarrow> Inl (ErrExternal ''marshal'')),
     unmarshal = (\<lambda>data _. if length data < length infos then Inr (infos ! length data) else Inl (ErrExternal ''unmarshal'')),
     tail = last_part, keyPrefix = [], newInfo = empty_info, validate = Inr\<rparr>"

lemma table_codec: "index_of (\<lambda>x. x = info) infos = Some i \<Longrightarrow> i < length infos \<and> infos ! i = info"
  by (blast dest: index_of_SomeD)

lemma table_store_ok:
  "etcd_ok (table_store infos e\<lparr>keyPrefix := k, newInfo := i, validate := v\<rparr>) map_of"
  "codec_ok (table_store infos e\<lparr>keyPrefix := k, newInfo := i, validate := v\<rparr>)"
  "reads_ok (table_store infos e\<lparr>keyPrefix := k, newInfo := i, validate := v\<rparr>)"
  by (auto simp: etcd_ok_def codec_ok_def reads_ok_def table_store_def fun_eq_iff dest: table_codec split: option.splits)

text \<open>
  C23: One range read is as good as a read per node. What \<open>GetMulti\<close> returns has exactly the names asked
  for, each with the record \<open>GetOrEmpty\<close> reads: the stored one, or an empty one for a node the plugin
  never saw.
\<close>

theorem GetMulti_is_GetOrEmpty:
  assumes "etcd_ok s c" "reads_ok s" "range_ok s c w" "GetMulti s w ns = Inr infos"
  shows "wf_map infos \<and> fst ` set infos = set ns \<and>
    (\<forall>n \<in> set ns. \<exists>info. map_of infos n = Some info \<and> GetOrEmpty s w n = Inr info)"
  using GetMulti_spec [OF assms] by blast

definition sample_store :: "((string, string) gomap, nat) Store" where
  "sample_store = table_store [7, 8] 0\<lparr>keyPrefix := ''/r/'', newInfo := 0, validate := Inr\<rparr>"

theorem GetMulti_is_GetOrEmpty_witness:
  "\<exists>infos. GetMulti sample_store [(''/r/a'', ''1''), (''/x/b'', [])] [''a'', ''b''] = Inr infos \<and>
    map_of infos ''a'' = Some 8 \<and> map_of infos ''b'' = Some 0"
proof -
  let ?w = "[(''/r/a'', ''1''), (''/x/b'', [])] :: (string, string) gomap"
  have "case GetMulti sample_store ?w [''a'', ''b''] of Inr _ \<Rightarrow> True | Inl _ \<Rightarrow> False" by code_simp
  then obtain infos where run: "GetMulti sample_store ?w [''a'', ''b''] = Inr infos" using Inr_of_case by blast
  have one: "GetOrEmpty sample_store ?w ''a'' = Inr 8" "GetOrEmpty sample_store ?w ''b'' = Inr 0" by code_simp+
  have "range_ok sample_store map_of ?w"
    by (auto simp: range_ok_def sample_store_def table_store_def key_def has_prefix_def last_part_def split: if_splits)
  from GetMulti_is_GetOrEmpty [OF table_store_ok(1,3) this [unfolded sample_store_def] run [unfolded sample_store_def]]
  show ?thesis using run one by (simp add: sample_store_def)
qed

end
