(* ===== verification/Ledger.thy ===== *)
theory Ledger
  imports Prelude
begin

text \<open>
  The contract both plugins build on: a resource has an amount per kind of thing it counts,
  \<open>Add\<close> and \<open>Sub\<close> add and subtract amounts, and both keep the resource well formed. GPU card
  maps, volume maps and disk lists are ledgers; what a plugin does to its usage record (adding
  the resources of workloads, taking them away, rewriting the record from a snapshot) is
  folding one of the two operations over a list.
\<close>

locale ledger =
  fixes add :: "'r \<Rightarrow> 'r \<Rightarrow> 'r"
    and sub :: "'r \<Rightarrow> 'r \<Rightarrow> 'r"
    and amount :: "'r \<Rightarrow> 'k \<Rightarrow> 'v::ab_group_add"
    and wf :: "'r \<Rightarrow> bool"
  assumes amount_add: "wf r \<Longrightarrow> wf s \<Longrightarrow> amount (add r s) k = amount r k + amount s k"
    and amount_sub: "wf r \<Longrightarrow> wf s \<Longrightarrow> amount (sub r s) k = amount r k - amount s k"
    and wf_add: "wf r \<Longrightarrow> wf s \<Longrightarrow> wf (add r s)"
    and wf_sub: "wf r \<Longrightarrow> wf s \<Longrightarrow> wf (sub r s)"
begin

lemma sub_add_amount: "wf r \<Longrightarrow> wf s \<Longrightarrow> amount (sub (add r s) s) k = amount r k"
  by (simp add: amount_add amount_sub wf_add)

lemma add_sub_amount: "wf r \<Longrightarrow> wf s \<Longrightarrow> amount (add (sub r s) s) k = amount r k"
  by (simp add: amount_add amount_sub wf_sub)

lemma wf_fold_add: "wf r \<Longrightarrow> \<forall>s \<in> set ss. wf s \<Longrightarrow> wf (fold (\<lambda>s r. add r s) ss r)"
  by (induction ss arbitrary: r) (auto simp: wf_add)

lemma wf_fold_sub: "wf r \<Longrightarrow> \<forall>s \<in> set ss. wf s \<Longrightarrow> wf (fold (\<lambda>s r. sub r s) ss r)"
  by (induction ss arbitrary: r) (auto simp: wf_sub)

lemma amount_fold_add:
  "wf r \<Longrightarrow> \<forall>s \<in> set ss. wf s \<Longrightarrow>
   amount (fold (\<lambda>s r. add r s) ss r) k = amount r k + sum_list (map (\<lambda>s. amount s k) ss)"
  by (induction ss arbitrary: r) (auto simp: amount_add wf_add add.assoc)

lemma amount_fold_sub:
  "wf r \<Longrightarrow> \<forall>s \<in> set ss. wf s \<Longrightarrow>
   amount (fold (\<lambda>s r. sub r s) ss r) k = amount r k - sum_list (map (\<lambda>s. amount s k) ss)"
  by (induction ss arbitrary: r) (auto simp: amount_sub wf_sub algebra_simps)

text \<open>Taking away what was added, in whatever order, gives the amounts back.\<close>

lemma fold_sub_fold_add:
  assumes "wf r" "\<forall>s \<in> set ss. wf s" "mset ss = mset ss'"
  shows "amount (fold (\<lambda>s r. sub r s) ss' (fold (\<lambda>s r. add r s) ss r)) k = amount r k"
proof -
  have "\<forall>s \<in> set ss'. wf s" using assms(2,3) by (metis set_mset_mset)
  moreover have "sum_list (map (\<lambda>s. amount s k) ss) = sum_list (map (\<lambda>s. amount s k) ss')"
    by (rule sum_list_mset_eq [OF assms(3)])
  ultimately show ?thesis
    using assms(1,2) by (simp add: amount_fold_sub wf_fold_add amount_fold_add)
qed

end

end
