(* ===== verification/Gpu_Nodes.thy ===== *)
theory Gpu_Nodes
  imports Gpu_Props Store_Props Ledger
begin

text \<open>
  The verbs of the GPU plugin composed through the store: what the usage record says after adding and
  taking away workloads and after a repair, what the several-node verbs report, and that a failing verb
  leaves the cluster alone. \<open>gpu_on p c\<close> says what the verbs rely on, with \<open>c\<close> the contents of a cluster.
\<close>

interpretation card_ledger: ledger add_entries sub_entries mget wf_map
  by unfold_locales (simp_all add: mget_add_entries mget_sub_entries)

definition gpu_on :: "('w, 'r, 'f) GpuPlugin \<Rightarrow> ('w \<Rightarrow> string \<Rightarrow> string option) \<Rightarrow> bool" where
  "gpu_on p c \<longleftrightarrow> (\<exists>kv. gpuStore p = gpu_newStore kv) \<and> etcd_ok (gpuStore p) c \<and>
     codec_ok (gpuStore p) \<and> reads_ok (gpuStore p)"

lemma gpu_Put:
  assumes "gpu_on p c" "Put (gpuStore p) w n info = (w', Inr info')"
  shows "info' = info" "gpu_info_Validate info = None" "Get (gpuStore p) w' n = Inr info"
proof -
  have v: "validate (gpuStore p) info = Inr info'" using assms(2) by (rule Put_Inr_E)
  show info: "info' = info" and "gpu_info_Validate info = None"
    using assms(1) v by (auto simp: gpu_on_def gpu_newStore_def split: option.splits)
  obtain r where "kvGet (gpuStore p) w' (key (gpuStore p) n) = Inr r"
    using assms(1) unfolding gpu_on_def reads_ok_def by blast
  then show "Get (gpuStore p) w' n = Inr info"
    using assms info by (intro Get_after_Put [of _ c]) (auto simp: gpu_on_def)
qed

section \<open>A plugin to evaluate on\<close>

text \<open>Raw parameters are card maps; two nodes are stored, a third name never was.\<close>

definition sample_gpu :: "((string, string) gomap, ProdCountMap, rat) GpuPlugin" where
  "sample_gpu = \<lparr>gpuStore = gpu_newStore (table_store
       [\<lparr>gpuCapacity = PMap [(''a'', 4)], gpuUsage = PMap []\<rparr>,
        \<lparr>gpuCapacity = PMap [(''a'', 4)], gpuUsage = PMap [(''a'', 1)]\<rparr>,
        \<lparr>gpuCapacity = PMap [(''a'', 4), (''b'', 2)], gpuUsage = PMap [(''a'', 3)]\<rparr>,
        \<lparr>gpuCapacity = PMap [(''a'', 4)], gpuUsage = PMap [(''a'', 3)]\<rparr>] gpu_NewNodeResourceInfo),
     gpuDecode = (\<lambda>r. case r of Some m \<Rightarrow> Inr m | None \<Rightarrow> Inr NilMap), gpuIsSet = (\<lambda>r _. r \<noteq> None),
     AdvancedDivide = (\<lambda>a b. if b = 0 then 0 else a / b), MaxFloat64 = 2 ^ 1023\<rparr>"

definition gpu_cluster :: "(string, string) gomap" where
  "gpu_cluster = [(''/resource/gpu/n1'', ''1''), (''/resource/gpu/n2'', ''11'')]"

lemma sample_gpu_on: "gpu_on sample_gpu map_of"
  using table_store_ok by (auto simp: gpu_on_def sample_gpu_def gpu_newStore_def)

lemma sample_gpu_range: "range_ok (gpuStore sample_gpu) map_of gpu_cluster"
proof -
  have "tail (gpuStore sample_gpu) = last_part" "kvGetPrefix (gpuStore sample_gpu) = (\<lambda>w k. Inr (length w, filter (\<lambda>(k', _). has_prefix k' k) w))"
    "keyPrefix (gpuStore sample_gpu) = ''/resource/gpu/''"
    by (simp_all add: sample_gpu_def gpu_newStore_def table_store_def)
  moreover have "last_part ''/resource/gpu/n1'' = ''n1''" "last_part ''/resource/gpu/n2'' = ''n2''" by code_simp+
  ultimately show ?thesis
    by (auto simp: range_ok_def gpu_cluster_def key_def has_prefix_def split: if_splits)
qed

section \<open>The usage of workloads\<close>

lemma apply_workloads_eq:
  "apply_workloads incr (PMap m) ws =
     Inr (PMap (fold (\<lambda>s r. if incr then add_entries r s else sub_entries r s) (map entries ws) m))"
  by (induction ws arbitrary: m) (auto simp: apply_resource_def)

lemma workloads_amount:
  assumes "wf_map m" "\<forall>x \<in> set ws. wf_pcm x"
  shows "wf_map (fold (\<lambda>s r. if incr then add_entries r s else sub_entries r s) (map entries ws) m)"
    "mget (fold (\<lambda>s r. if incr then add_entries r s else sub_entries r s) (map entries ws) m) k =
       (if incr then mget m k + sum_list (map (\<lambda>x. count_of x k) ws) else mget m k - sum_list (map (\<lambda>x. count_of x k) ws))"
proof -
  have wf: "\<forall>s \<in> set (map entries ws). wf_map s" using assms(2) by (simp add: wf_pcm_def)
  show "wf_map (fold (\<lambda>s r. if incr then add_entries r s else sub_entries r s) (map entries ws) m)"
    using card_ledger.wf_fold_add [OF assms(1) wf] card_ledger.wf_fold_sub [OF assms(1) wf] by (cases incr) simp_all
  show "mget (fold (\<lambda>s r. if incr then add_entries r s else sub_entries r s) (map entries ws) m) k =
       (if incr then mget m k + sum_list (map (\<lambda>x. count_of x k) ws) else mget m k - sum_list (map (\<lambda>x. count_of x k) ws))"
    using card_ledger.amount_fold_add [OF assms(1) wf, of k] card_ledger.amount_fold_sub [OF assms(1) wf, of k]
    by (cases incr) (simp_all add: count_of_def comp_def)
qed

lemma fold_add_no_zero: "no_zero m \<Longrightarrow> no_zero (fold (\<lambda>s r. add_entries r s) ss m)"
  by (induction ss arbitrary: m) auto

definition cards_of :: "ProdCountMap list \<Rightarrow> (string, i64) gomap" where
  "cards_of ws = fold (\<lambda>s r. add_entries r s) (map entries ws) []"

lemma cards_of_facts:
  assumes "\<forall>x \<in> set ws. wf_pcm x"
  shows "wf_map (cards_of ws)" "no_zero (cards_of ws)" "mget (cards_of ws) k = sum_list (map (\<lambda>x. count_of x k) ws)"
  using workloads_amount [OF _ assms, of "[]" True] by (auto simp: cards_of_def fold_add_no_zero)

lemma gpu_getNodeResourceInfo_eq:
  assumes "Get (gpuStore p) w n = Inr info" "gpu_parse_workloads p rs = Inr ws"
  shows "gpu_getNodeResourceInfo p w n rs = Inr (info, PMap (cards_of ws), gpu_diffs (PMap (cards_of ws)) info)"
  using assms by (simp add: gpu_getNodeResourceInfo_def apply_workloads_eq cards_of_def)

section \<open>Differences\<close>

lemma gpu_diffs_Nil_iff:
  "gpu_diffs a info = [] \<longleftrightarrow> pcm_Count a = gpu_UsageCount info \<and>
     (\<forall>(k, n) \<in> set (entries a). map_of (entries (gpuUsage info)) k = Some n)"
  by (auto simp: gpu_diffs_def split: option.splits if_splits)

lemma sum_list_val:
  "\<forall>(k, n) \<in> set m. 0 \<le> val n \<Longrightarrow> sum_list (map (\<lambda>(_, n). val n) m) < 2 ^ 63 \<Longrightarrow>
   val (sum_list (map snd m)) = sum_list (map (\<lambda>(_, n). val n) m)"
proof (induction m)
  case (Cons e m)
  have "0 \<le> sum_list (map (\<lambda>(_, n). val n) m)" using Cons.prems(1) by (intro sum_list_nonneg) auto
  moreover have "0 \<le> val (snd e)" using Cons.prems(1) by (cases e) auto
  ultimately show ?case using Cons by (cases e) (auto simp: val_add in_range_def)
qed simp

lemma submap_same_total:
  assumes "wf_map a" "wf_map u" "set a \<subseteq> set u" "\<forall>(k, n) \<in> set u. 0 < val n"
    and "sum_list (map (\<lambda>(_, n). val n) u) < 2 ^ 63" "sum_list (map snd a) = sum_list (map snd u)"
  shows "set a = set u"
proof (rule ccontr)
  let ?v = "\<lambda>(_ :: 'a, n). val n"
  have d: "distinct a" "distinct u" using assms(1,2) by (simp_all add: wf_map_def distinct_map)
  assume "set a \<noteq> set u"
  then obtain e where e: "e \<in> set u - set a" using assms(3) by blast
  have s: "sum_list (map ?v m) = sum ?v (set m)" if "distinct m" for m
    using that by (simp add: sum_list_distinct_conv_sum_set)
  have split: "sum ?v (set u) = sum ?v (set a) + sum ?v (set u - set a)"
    using assms(3) by (simp add: sum.subset_diff [OF assms(3)])
  have "0 < sum ?v (set u - set a)" using e assms(4) by (intro sum_pos) auto
  moreover have "0 \<le> sum ?v (set a)" using assms(3,4) by (intro sum_nonneg) fastforce
  moreover have "val (sum_list (map snd a)) = sum ?v (set a)"
    using assms(3-5) split s d calculation by (subst sum_list_val) (fastforce simp: case_prod_beta)+
  moreover have "val (sum_list (map snd u)) = sum ?v (set u)"
    using assms(4,5) s d by (subst sum_list_val) (fastforce simp: case_prod_beta)+
  ultimately show False using split assms(6) by simp
qed

lemma gpu_no_diffs:
  assumes ws: "\<forall>x \<in> set ws. wf_pcm x" and u: "wf_pcm (gpuUsage info)" "pcm_Validate (gpuUsage info) = None"
    and total: "sum_list (map (\<lambda>(_, n). val n) (entries (gpuUsage info))) < 2 ^ 63"
  shows "gpu_diffs (PMap (cards_of ws)) info = [] \<longleftrightarrow> (\<forall>k. count_of (gpuUsage info) k = sum_list (map (\<lambda>x. count_of x k) ws))"
proof -
  let ?u = "entries (gpuUsage info)"
  note c = cards_of_facts [OF ws]
  have wf: "wf_map ?u" and pos: "\<forall>(k, n) \<in> set ?u. 0 < val n"
    using u by (auto simp: wf_pcm_def pcm_Validate_None_iff i64_less_iff)
  have nz: "no_zero ?u" using validate_no_zero [OF wf] u(2) by (simp add: pcm_Validate_def)
  show ?thesis (is "_ \<longleftrightarrow> ?same")
  proof
    assume d: "gpu_diffs (PMap (cards_of ws)) info = []"
    then have sub: "set (cards_of ws) \<subseteq> set ?u"
      by (auto simp: gpu_diffs_Nil_iff dest: map_of_SomeD)
    have "sum_list (map snd (cards_of ws)) = sum_list (map snd ?u)"
      using d by (simp add: gpu_diffs_Nil_iff pcm_Count_def gpu_UsageCount_def)
    from submap_same_total [OF c(1) wf sub pos total this] have "map_of (cards_of ws) = map_of ?u"
      using c(1) wf by (simp add: map_of_inject_set wf_map_def)
    then show ?same using c(3) by (simp add: count_of_def mget_def)
  next
    assume ?same
    then have same: "same_map (cards_of ws) ?u"
      using c by (intro same_map_if_mget c(1,2) wf nz) (simp add: count_of_def)
    then have "mset (cards_of ws) = mset ?u" using c(1) wf by (rule same_map_mset)
    then have "sum_list (map snd (cards_of ws)) = sum_list (map snd ?u)" by (rule sum_list_mset_eq)
    moreover have "map_of ?u k = Some n" if "(k, n) \<in> set (cards_of ws)" for k n
      using that same c(1) wf by (metis same_map_def wf_map_of_iff)
    ultimately show "gpu_diffs (PMap (cards_of ws)) info = []"
      by (auto simp: gpu_diffs_Nil_iff pcm_Count_def gpu_UsageCount_def)
  qed
qed

text \<open>
  C33: What \<open>GetNodeResourceInfo\<close> of the GPU plugin compares. For a stored usage that validation accepted
  it reports no difference exactly when every product's stored count is the sum over the workloads:
  the total that is compared as well makes up for the products that only the stored usage has.
\<close>

theorem gpu_no_diffs_iff:
  assumes "Get (gpuStore p) w n = Inr info" "gpu_parse_workloads p rs = Inr ws" "\<forall>x \<in> set ws. wf_pcm x"
    and "wf_pcm (gpuUsage info)" "pcm_Validate (gpuUsage info) = None"
    and "sum_list (map (\<lambda>(_, n). val n) (entries (gpuUsage info))) < 2 ^ 63"
  shows "map_sum id gpuRespDiffs (gpu_GetNodeResourceInfo p w n rs) = Inr [] \<longleftrightarrow>
    (\<forall>k. count_of (gpuUsage info) k = sum_list (map (\<lambda>x. count_of x k) ws))"
  using gpu_no_diffs [OF assms(3-6)]
  by (simp add: gpu_GetNodeResourceInfo_def gpu_getNodeResourceInfo_eq [OF assms(1,2)])

theorem gpu_no_diffs_iff_witness:
  "map_sum id gpuRespDiffs (gpu_GetNodeResourceInfo sample_gpu gpu_cluster ''n2'' [Some (PMap [(''a'', 1)]), Some (PMap [(''a'', 2)])]) = Inr []"
proof -
  let ?info = "\<lparr>gpuCapacity = PMap [(''a'', 4), (''b'', 2)], gpuUsage = PMap [(''a'', 3)]\<rparr>"
    and ?ws = "[PMap [(''a'', 1)], PMap [(''a'', 2)]]"
  have "Get (gpuStore sample_gpu) gpu_cluster ''n2'' = Inr ?info" by code_simp
  moreover have "gpu_parse_workloads sample_gpu (map Some ?ws) = Inr ?ws" by (simp add: sample_gpu_def)
  ultimately have "map_sum id gpuRespDiffs (gpu_GetNodeResourceInfo sample_gpu gpu_cluster ''n2'' (map Some ?ws)) = Inr [] \<longleftrightarrow>
      (\<forall>k. count_of (gpuUsage ?info) k = sum_list (map (\<lambda>x. count_of x k) ?ws))"
    by (rule gpu_no_diffs_iff) (simp_all add: wf_pcm_def pcm_Validate_def)
  then show ?thesis by (simp add: count_of_def)
qed

section \<open>Repairing\<close>

lemma gpu_diffs_self: "wf_map m \<Longrightarrow> gpu_diffs (PMap m) (info\<lparr>gpuUsage := PMap m\<rparr>) = []"
  by (auto simp: gpu_diffs_Nil_iff pcm_Count_def gpu_UsageCount_def wf_map_def)

text \<open>
  C34: Repairing the GPU usage works. After a successful \<open>FixNodeResource\<close> the node reports no difference
  for the same workloads, its capacity is what it was, and when there was something to repair the stored
  count of every product is the sum over the workloads.
\<close>

theorem gpu_fix_then_no_diffs:
  assumes "gpu_on p c" "Get (gpuStore p) w n = Inr info" "gpu_parse_workloads p rs = Inr ws" "\<forall>x \<in> set ws. wf_pcm x"
    and "gpu_FixNodeResource p w n rs = (w', Inr resp)"
  shows "\<exists>resp'. gpu_GetNodeResourceInfo p w' n rs = Inr resp' \<and> gpuRespDiffs resp' = [] \<and>
    gpuRespCapacity resp' = gpuCapacity info \<and> gpuRespUsage resp' = gpuRespUsage resp \<and>
    (gpuRespDiffs resp \<noteq> [] \<longrightarrow> (\<forall>k. count_of (gpuRespUsage resp) k = sum_list (map (\<lambda>x. count_of x k) ws)))"
proof (cases "gpu_diffs (PMap (cards_of ws)) info = []")
  case True
  then show ?thesis
    using assms(2,3,5) by (auto simp: gpu_FixNodeResource_def gpu_getNodeResourceInfo_eq gpu_GetNodeResourceInfo_def)
next
  case False
  let ?info = "info\<lparr>gpuUsage := PMap (cards_of ws)\<rparr>"
  obtain info' where put: "Put (gpuStore p) w n ?info = (w', Inr info')"
    and resp: "resp = \<lparr>gpuRespCapacity = gpuCapacity info', gpuRespUsage = gpuUsage info',
      gpuRespDiffs = gpu_diffs (PMap (cards_of ws)) info\<rparr>"
    using False assms(2,3,5)
    by (auto simp: gpu_FixNodeResource_def gpu_getNodeResourceInfo_eq split: prod.splits sum.splits)
  show ?thesis
    using gpu_Put [OF assms(1) put] resp cards_of_facts [OF assms(4)] assms(3)
    by (auto simp: gpu_GetNodeResourceInfo_def gpu_getNodeResourceInfo_eq gpu_diffs_self count_of_def)
qed

theorem gpu_fix_then_no_diffs_witness:
  "\<exists>w' resp resp'. gpu_FixNodeResource sample_gpu gpu_cluster ''n1'' [] = (w', Inr resp) \<and> gpuRespDiffs resp \<noteq> [] \<and>
     gpu_GetNodeResourceInfo sample_gpu w' ''n1'' [] = Inr resp' \<and> gpuRespDiffs resp' = []"
proof -
  let ?fix = "gpu_FixNodeResource sample_gpu gpu_cluster ''n1'' []"
  have "case snd ?fix of Inr resp \<Rightarrow> gpuRespDiffs resp \<noteq> [] | Inl _ \<Rightarrow> False" by code_simp
  then obtain w' resp where run: "?fix = (w', Inr resp)" "gpuRespDiffs resp \<noteq> []"
    by (cases ?fix) (auto split: sum.splits)
  have "Get (gpuStore sample_gpu) gpu_cluster ''n1'' = Inr \<lparr>gpuCapacity = PMap [(''a'', 4)], gpuUsage = PMap [(''a'', 1)]\<rparr>" by code_simp
  from gpu_fix_then_no_diffs [OF sample_gpu_on this _ _ run(1), of "[]"] show ?thesis using run by auto
qed

section \<open>Usage\<close>

lemma gpu_SetNodeResourceUsage_workloads:
  assumes "gpu_on p c" "GetOrEmpty (gpuStore p) w n = Inr info" "gpu_parse_workloads p rs = Inr ws"
    and "gpu_SetNodeResourceUsage p w n None None rs True incr = (w', Inr (before, now))"
  shows "before = PMap (entries (gpuUsage info))"
    "now = PMap (fold (\<lambda>s r. if incr then add_entries r s else sub_entries r s) (map entries ws) (entries (gpuUsage info)))"
    "Get (gpuStore p) w' n = Inr (info\<lparr>gpuUsage := now\<rparr>)"
proof -
  let ?u = "PMap (fold (\<lambda>s r. if incr then add_entries r s else sub_entries r s) (map entries ws) (entries (gpuUsage info)))"
  obtain info' where put: "Put (gpuStore p) w n (info\<lparr>gpuUsage := ?u\<rparr>) = (w', Inr info')"
    and parts: "before = PMap (entries (gpuUsage info))" "now = gpuUsage info'"
    using assms(2-4)
    by (auto simp: gpu_SetNodeResourceUsage_def gpu_parseNodeResourceInfos_def gpu_calculateNodeResource_def
        pcm_DeepCopy_def apply_workloads_eq gpu_put_part_def split: prod.splits sum.splits)
  show "before = PMap (entries (gpuUsage info))" "now = ?u" "Get (gpuStore p) w' n = Inr (info\<lparr>gpuUsage := now\<rparr>)"
    using gpu_Put [OF assms(1) put] parts by simp_all
qed

text \<open>
  C35: GPU usage round trip. Adding workloads to the usage of a node and taking them away again, in
  whatever order, gives every product the count it had, and the capacity is never touched.
\<close>

theorem gpu_usage_incr_decr_restores:
  assumes "gpu_on p c" "GetOrEmpty (gpuStore p) w n = Inr info" "wf_pcm (gpuUsage info)"
    and "gpu_parse_workloads p rs = Inr ws" "gpu_parse_workloads p rs' = Inr ws'" "mset ws = mset ws'" "\<forall>x \<in> set ws. wf_pcm x"
    and "gpu_SetNodeResourceUsage p w n None None rs True True = (w1, Inr (before, mid))"
    and "gpu_SetNodeResourceUsage p w1 n None None rs' True False = (w2, Inr (mid', now))"
  shows "(\<forall>k. count_of mid' k = count_of mid k) \<and> (\<forall>k. count_of now k = count_of before k) \<and>
    Get (gpuStore p) w2 n = Inr \<lparr>gpuCapacity = gpuCapacity info, gpuUsage = now\<rparr>"
proof -
  note one = gpu_SetNodeResourceUsage_workloads [OF assms(1,2,4,8), unfolded if_True]
  note two = gpu_SetNodeResourceUsage_workloads [OF assms(1) Get_GetOrEmpty [OF one(3)] assms(5,9), unfolded if_False]
  have "mget (entries now) k = mget (entries (gpuUsage info)) k" for k
    using card_ledger.fold_sub_fold_add [of "entries (gpuUsage info)" "map entries ws" "map entries ws'" k] assms(3,6,7)
    by (simp add: two(2) one(2) wf_pcm_def)
  then show ?thesis using one two by (cases info) (simp add: count_of_def)
qed

theorem gpu_usage_incr_decr_restores_witness:
  "\<exists>w1 w2 before mid mid' now.
     gpu_SetNodeResourceUsage sample_gpu gpu_cluster ''n1'' None None [Some (PMap [(''a'', 2)]), None] True True = (w1, Inr (before, mid)) \<and>
     count_of mid ''a'' = 3 \<and>
     gpu_SetNodeResourceUsage sample_gpu w1 ''n1'' None None [None, Some (PMap [(''a'', 2)])] True False = (w2, Inr (mid', now)) \<and>
     count_of now ''a'' = count_of before ''a''"
proof -
  let ?info = "\<lparr>gpuCapacity = PMap [(''a'', 4)], gpuUsage = PMap [(''a'', 1)]\<rparr>"
  let ?one = "gpu_SetNodeResourceUsage sample_gpu gpu_cluster ''n1'' None None [Some (PMap [(''a'', 2)]), None] True True"
  let ?two = "gpu_SetNodeResourceUsage sample_gpu (fst ?one) ''n1'' None None [None, Some (PMap [(''a'', 2)])] True False"
  have get: "GetOrEmpty (gpuStore sample_gpu) gpu_cluster ''n1'' = Inr ?info" by code_simp
  have parse: "gpu_parse_workloads sample_gpu [Some (PMap [(''a'', 2)]), None] = Inr [PMap [(''a'', 2)], NilMap]"
    "gpu_parse_workloads sample_gpu [None, Some (PMap [(''a'', 2)])] = Inr [NilMap, PMap [(''a'', 2)]]"
    by (simp_all add: sample_gpu_def)
  have "case snd ?one of Inr (before, mid) \<Rightarrow> count_of mid ''a'' = 3 | Inl _ \<Rightarrow> False" by code_simp
  then obtain w1 before mid where one: "?one = (w1, Inr (before, mid))" "count_of mid ''a'' = 3"
    by (cases ?one) (auto split: sum.splits)
  have "case snd ?two of Inr _ \<Rightarrow> True | Inl _ \<Rightarrow> False" by code_simp
  then obtain w2 mid' now where two: "gpu_SetNodeResourceUsage sample_gpu w1 ''n1'' None None [None, Some (PMap [(''a'', 2)])] True False = (w2, Inr (mid', now))"
    using one(1) by (cases ?two) (auto split: sum.splits)
  have "\<forall>k. count_of now k = count_of before k"
    using gpu_usage_incr_decr_restores [OF sample_gpu_on get _ parse _ _ one(1) two] by (simp add: wf_pcm_def)
  then show ?thesis using one two by blast
qed

section \<open>Verbs on several nodes\<close>

definition idle_of :: "('w, 'r, 'f) GpuPlugin \<Rightarrow> gpu_NodeResourceInfo \<Rightarrow> 'f" where
  "idle_of p info = AdvancedDivide p (float64 (gpu_UsageCount info)) (float64 (gpu_CapCount info))"

lemma idle_loop_spec:
  fixes p :: "('w, 'r, 'f::linorder) GpuPlugin"
  assumes "\<forall>n \<in> set ns. map_of infos n \<noteq> None" "sorted_wrt (<) ns"
  shows "\<exists>m. idle_loop p infos ns best least = Inr m \<and>
    (m = best \<and> (\<forall>n \<in> set ns. \<forall>i. map_of infos n = Some i \<longrightarrow> least \<le> idle_of p i) \<or>
     (\<exists>info. m \<in> set ns \<and> map_of infos m = Some info \<and> idle_of p info < least \<and>
        (\<forall>n \<in> set ns. \<forall>i. map_of infos n = Some i \<longrightarrow> idle_of p info \<le> idle_of p i \<and> (idle_of p info = idle_of p i \<longrightarrow> m \<le> n))))"
  using assms
proof (induction ns arbitrary: best least)
  case (Cons n ns)
  obtain i where i: "map_of infos n = Some i" using Cons.prems(1) by auto
  have rest: "\<forall>n \<in> set ns. map_of infos n \<noteq> None" "sorted_wrt (<) ns" "\<forall>m \<in> set ns. n < m"
    using Cons.prems by auto
  show ?case
  proof (cases "idle_of p i < least")
    case True
    then have step: "idle_loop p infos (n # ns) best least = idle_loop p infos ns n (idle_of p i)"
      using i by (simp add: idle_of_def Let_def)
    show ?thesis
      using Cons.IH [OF rest(1,2), of n "idle_of p i"] i rest(3) True unfolding step
      by (fastforce intro: less_imp_le)
  next
    case False
    then have step: "idle_loop p infos (n # ns) best least = idle_loop p infos ns best least"
      using i by (simp add: idle_of_def Let_def)
    show ?thesis
      using Cons.IH [OF rest(1,2), of best least] i rest(3) False unfolding step
      by (fastforce simp: not_less intro: less_imp_le)
  qed
qed simp

text \<open>
  C36: The most idle node. When at least one node is asked for and no ratio is as large as \<open>MaxFloat64\<close>,
  \<open>GetMostIdleNode\<close> names one of the nodes asked for whose ratio of used to all cards is least, the first
  by name among those with the least ratio.
\<close>

theorem gpu_most_idle_is_least:
  fixes p :: "('w, 'r, 'f::linorder) GpuPlugin"
  assumes "gpu_on p c" "range_ok (gpuStore p) c w" "GetMulti (gpuStore p) w ns = Inr infos" "ns \<noteq> []"
    and "\<forall>n info. n \<in> set ns \<and> GetOrEmpty (gpuStore p) w n = Inr info \<longrightarrow> idle_of p info < MaxFloat64 p"
  shows "\<exists>m info. gpu_GetMostIdleNode p w ns = Inr (m, gpu_priority) \<and> m \<in> set ns \<and>
    GetOrEmpty (gpuStore p) w m = Inr info \<and>
    (\<forall>n i. n \<in> set ns \<and> GetOrEmpty (gpuStore p) w n = Inr i \<longrightarrow>
       idle_of p info \<le> idle_of p i \<and> (idle_of p info = idle_of p i \<longrightarrow> m \<le> n))"
proof -
  have "etcd_ok (gpuStore p) c" "reads_ok (gpuStore p)" using assms(1) by (simp_all add: gpu_on_def)
  note multi = GetMulti_spec [OF this assms(2,3)]
  let ?names = "sort (map fst infos)"
  have names: "set ?names = set ns" using multi(2) by simp
  have "sorted_wrt (<) ?names"
    using multi(1) by (simp add: wf_map_def strict_sorted_iff)
  moreover have "\<forall>n \<in> set ?names. map_of infos n \<noteq> None" using multi(3) unfolding names by fastforce
  ultimately obtain m where m: "idle_loop p infos ?names [] (MaxFloat64 p) = Inr m"
    "m = [] \<and> (\<forall>n \<in> set ns. \<forall>i. map_of infos n = Some i \<longrightarrow> MaxFloat64 p \<le> idle_of p i) \<or>
     (\<exists>info. m \<in> set ns \<and> map_of infos m = Some info \<and> idle_of p info < MaxFloat64 p \<and>
        (\<forall>n \<in> set ns. \<forall>i. map_of infos n = Some i \<longrightarrow> idle_of p info \<le> idle_of p i \<and> (idle_of p info = idle_of p i \<longrightarrow> m \<le> n)))"
    using idle_loop_spec [of ?names infos p "[]" "MaxFloat64 p"] unfolding names by blast
  have least: "\<exists>info. m \<in> set ns \<and> map_of infos m = Some info \<and>
        (\<forall>n \<in> set ns. \<forall>i. map_of infos n = Some i \<longrightarrow> idle_of p info \<le> idle_of p i \<and> (idle_of p info = idle_of p i \<longrightarrow> m \<le> n))"
    using m(2)
  proof
    assume far: "m = [] \<and> (\<forall>n \<in> set ns. \<forall>i. map_of infos n = Some i \<longrightarrow> MaxFloat64 p \<le> idle_of p i)"
    obtain n where n: "n \<in> set ns" using assms(4) by (cases ns) auto
    then obtain i where "map_of infos n = Some i" "GetOrEmpty (gpuStore p) w n = Inr i" using multi(3) by blast
    then show ?thesis using far n assms(5) by fastforce
  qed blast
  then obtain info where info: "m \<in> set ns" "map_of infos m = Some info"
    "\<forall>n \<in> set ns. \<forall>i. map_of infos n = Some i \<longrightarrow> idle_of p info \<le> idle_of p i \<and> (idle_of p info = idle_of p i \<longrightarrow> m \<le> n)"
    by blast
  have "GetOrEmpty (gpuStore p) w m = Inr info" using multi(3) [OF info(1)] info(2) by auto
  moreover have "\<forall>n i. n \<in> set ns \<and> GetOrEmpty (gpuStore p) w n = Inr i \<longrightarrow>
       idle_of p info \<le> idle_of p i \<and> (idle_of p info = idle_of p i \<longrightarrow> m \<le> n)"
    using multi(3) info(3) by fastforce
  moreover have "gpu_GetMostIdleNode p w ns = Inr (m, gpu_priority)"
    using m(1) assms(3) by (simp add: gpu_GetMostIdleNode_def)
  ultimately show ?thesis using info(1) by blast
qed

theorem gpu_most_idle_is_least_witness:
  "\<exists>m. gpu_GetMostIdleNode sample_gpu gpu_cluster [''n2'', ''n1''] = Inr (m, gpu_priority) \<and> m \<in> {''n1'', ''n2''}"
proof -
  let ?i1 = "\<lparr>gpuCapacity = PMap [(''a'', 4)], gpuUsage = PMap [(''a'', 1)]\<rparr>"
    and ?i2 = "\<lparr>gpuCapacity = PMap [(''a'', 4), (''b'', 2)], gpuUsage = PMap [(''a'', 3)]\<rparr>"
  have one: "GetOrEmpty (gpuStore sample_gpu) gpu_cluster ''n1'' = Inr ?i1" "GetOrEmpty (gpuStore sample_gpu) gpu_cluster ''n2'' = Inr ?i2"
    "idle_of sample_gpu ?i1 < MaxFloat64 sample_gpu" "idle_of sample_gpu ?i2 < MaxFloat64 sample_gpu" by code_simp+
  have "case GetMulti (gpuStore sample_gpu) gpu_cluster [''n2'', ''n1''] of Inr _ \<Rightarrow> True | Inl _ \<Rightarrow> False" by code_simp
  then obtain infos where multi: "GetMulti (gpuStore sample_gpu) gpu_cluster [''n2'', ''n1''] = Inr infos" using Inr_of_case by blast
  have "\<forall>n info. n \<in> set [''n2'', ''n1''] \<and> GetOrEmpty (gpuStore sample_gpu) gpu_cluster n = Inr info \<longrightarrow>
      idle_of sample_gpu info < MaxFloat64 sample_gpu" using one by auto
  from gpu_most_idle_is_least [OF sample_gpu_on sample_gpu_range multi _ this] show ?thesis by auto
qed

section \<open>Capacity of several nodes\<close>

lemma collect_capacity_eq:
  assumes "wf_map infos" "fst ` set infos \<inter> fst ` set cm = {}"
  shows "fold (\<lambda>(nodename, info) (capacityMap, total).
       let c = gpu_doGetNodeDeployCapacity p info req in
       if 0 < deployCapacity c then (mput nodename c capacityMap, total + deployCapacity c)
       else (capacityMap, total)) infos (cm, tot) =
    (let new = filter (\<lambda>(_, c). 0 < deployCapacity c) (map (\<lambda>(n, info). (n, gpu_doGetNodeDeployCapacity p info req)) infos)
     in (cm @ new, tot + sum_list (map (\<lambda>(_, c). deployCapacity c) new)))"
  using assms
proof (induction infos arbitrary: cm tot)
  case (Cons e infos)
  obtain n i where e: "e = (n, i)" by force
  show ?case
    using Cons.prems Cons.IH [of cm tot]
      Cons.IH [of "cm @ [(n, gpu_doGetNodeDeployCapacity p i req)]" "tot + deployCapacity (gpu_doGetNodeDeployCapacity p i req)"]
    by (auto simp: e Let_def mput_absent ac_simps)
qed simp

lemma map_of_filter_map:
  "wf_map m \<Longrightarrow> map_of (filter (\<lambda>(_, c). P c) (map (\<lambda>(n, i). (n, f i)) m)) n =
     (case map_of m n of Some i \<Rightarrow> if P (f i) then Some (f i) else None | None \<Rightarrow> None)"
proof (induction m)
  case (Cons e m)
  obtain n' i where e: "e = (n', i)" by force
  have "map_of m n' = None" using Cons.prems by (simp add: e map_of_eq_None_iff)
  then show ?case using Cons by (cases "n = n'") (simp_all add: e)
qed simp

definition listed :: "('w, 'r, 'f) GpuPlugin \<Rightarrow> ProdCountMap \<Rightarrow> (string, gpu_NodeResourceInfo) gomap \<Rightarrow>
    (string, 'f NodeDeployCapacity) gomap" where
  "listed p req infos = filter (\<lambda>(_, c). 0 < deployCapacity c)
     (map (\<lambda>(n, info). (n, gpu_doGetNodeDeployCapacity p info req)) infos)"

lemma gpu_collect_capacity_eq:
  "wf_map infos \<Longrightarrow> gpu_collect_capacity p req infos =
     (listed p req infos, sum_list (map (\<lambda>(_, c). deployCapacity c) (listed p req infos)))"
  unfolding gpu_collect_capacity_def listed_def by (subst collect_capacity_eq) (simp_all add: Let_def)

text \<open>
  C20: What \<open>GetNodesDeployCapacity\<close> promises \<open>CalculateDeploy\<close> keeps. A node asked for is listed with room
  for \<open>k\<close> workloads exactly when deploying \<open>k\<close> workloads of the request on it succeeds (up to the cap of one
  million), and the total is the sum over the nodes listed.
\<close>

theorem gpu_capacity_is_deployable:
  assumes "gpu_on p c" "range_ok (gpuStore p) c w" "gpu_GetNodesDeployCapacity p w ns r = Inr (cm, tot)"
    and "gpuDecode p r = Inr req" "wf_pcm req" "entries req = [] \<or> 0 < pcm_Count req"
    and "n \<in> set ns" "\<forall>info. GetOrEmpty (gpuStore p) w n = Inr info \<longrightarrow> wf_pcm (gpuUsage info)"
    and "0 < k" "k \<le> gpu_maxCapacity"
  shows "((\<exists>cap. map_of cm n = Some cap \<and> k \<le> deployCapacity cap) \<longleftrightarrow> (\<exists>plans. gpu_CalculateDeploy p w n k r = Inr plans)) \<and>
    tot = sum_list (map (\<lambda>(_, cap). deployCapacity cap) cm)"
proof -
  obtain infos where v: "pcm_Validate req = None" and multi: "GetMulti (gpuStore p) w ns = Inr infos"
    and cm: "gpu_collect_capacity p req infos = (cm, tot)"
    using assms(3,4) by (auto simp: gpu_GetNodesDeployCapacity_def check_def split: option.splits)
  have on: "etcd_ok (gpuStore p) c" "reads_ok (gpuStore p)" using assms(1) by (simp_all add: gpu_on_def)
  note m = GetMulti_spec [OF on assms(2) multi]
  obtain info where info: "map_of infos n = Some info" "GetOrEmpty (gpuStore p) w n = Inr info"
    using m(3) [OF assms(7)] by blast
  have res: "cm = listed p req infos" "tot = sum_list (map (\<lambda>(_, c). deployCapacity c) cm)"
    using cm unfolding gpu_collect_capacity_eq [OF m(1)] by auto
  have cap: "map_of cm n = (if 0 < gpu_capacity info req then Some (gpu_doGetNodeDeployCapacity p info req) else None)"
    unfolding res(1) listed_def map_of_filter_map [OF m(1)] info(1) by (simp add: gpu_doGetNodeDeployCapacity_def)
  have "gpu_CalculateDeploy p w n k r = gpu_doAlloc info k req"
    using assms(4) v info(2) by (simp add: gpu_CalculateDeploy_def)
  moreover have "k \<le> gpu_capacity info req \<longleftrightarrow> (\<exists>plans. gpu_doAlloc info k req = Inr plans)"
    using gpu_capacity_ge_iff [OF assms(5) v _ assms(6,9,10)] assms(8) info(2) by blast
  ultimately show ?thesis
    using cap res assms(9) by (auto simp: gpu_doGetNodeDeployCapacity_def)
qed

theorem gpu_capacity_is_deployable_witness:
  "\<exists>cm tot. gpu_GetNodesDeployCapacity sample_gpu gpu_cluster [''n1'', ''n3''] (Some (PMap [(''a'', 1)])) = Inr (cm, tot) \<and>
     (\<exists>plans. gpu_CalculateDeploy sample_gpu gpu_cluster ''n1'' 3 (Some (PMap [(''a'', 1)])) = Inr plans)"
proof -
  let ?get = "gpu_GetNodesDeployCapacity sample_gpu gpu_cluster [''n1'', ''n3''] (Some (PMap [(''a'', 1)]))"
  have "case ?get of Inr (cm, _) \<Rightarrow> (case map_of cm ''n1'' of Some cap \<Rightarrow> 3 \<le> deployCapacity cap | None \<Rightarrow> False) | Inl _ \<Rightarrow> False" by code_simp
  then obtain cm tot cap where run: "?get = Inr (cm, tot)" "map_of cm ''n1'' = Some cap" "3 \<le> deployCapacity cap"
    by (auto split: sum.splits option.splits)
  have "GetOrEmpty (gpuStore sample_gpu) gpu_cluster ''n1'' = Inr \<lparr>gpuCapacity = PMap [(''a'', 4)], gpuUsage = PMap [(''a'', 1)]\<rparr>" by code_simp
  then have "\<forall>info. GetOrEmpty (gpuStore sample_gpu) gpu_cluster ''n1'' = Inr info \<longrightarrow> wf_pcm (gpuUsage info)"
    by (simp add: wf_pcm_def)
  moreover have "gpuDecode sample_gpu (Some (PMap [(''a'', 1)])) = Inr (PMap [(''a'', 1)])" by (simp add: sample_gpu_def)
  ultimately show ?thesis
    using gpu_capacity_is_deployable [OF sample_gpu_on sample_gpu_range run(1), of "PMap [(''a'', 1)]" "''n1''" 3] run
    by (auto simp: wf_pcm_def pcm_Count_def gpu_maxCapacity_def)
qed

section \<open>Failing\<close>

text \<open>
  C37: A GPU verb that fails leaves the cluster as it found it, unless etcd itself refused the write.
\<close>

theorem gpu_verbs_fail_untouched:
  "untouched (gpuStore p) n w (gpu_AddNode p w n resource) \<and>
   untouched (gpuStore p) n w (gpu_SetNodeResourceCapacity p w n resource raw delta incr) \<and>
   untouched (gpuStore p) n w (gpu_SetNodeResourceUsage p w n resource raw workloads delta incr) \<and>
   untouched (gpuStore p) n w (gpu_FixNodeResource p w n workloads)"
proof (intro conjI)
  have part: "untouched (gpuStore p) n w (gpu_put_part p w n info part before)" for info part before
    unfolding gpu_put_part_def by (rule untouched_Put)
  show "untouched (gpuStore p) n w (gpu_AddNode p w n resource)"
    unfolding gpu_AddNode_def Let_def by (auto simp: untouched_Put split: option.split sum.split)
  show "untouched (gpuStore p) n w (gpu_SetNodeResourceCapacity p w n resource raw delta incr)"
    unfolding gpu_SetNodeResourceCapacity_def by (auto simp: part split: sum.split prod.split)
  show "untouched (gpuStore p) n w (gpu_SetNodeResourceUsage p w n resource raw workloads delta incr)"
    unfolding gpu_SetNodeResourceUsage_def by (auto simp: part split: sum.split prod.split)
  show "untouched (gpuStore p) n w (gpu_FixNodeResource p w n workloads)"
    unfolding gpu_FixNodeResource_def by (auto simp: untouched_Put split: sum.split prod.split)
qed


end
