(* ===== verification/Disk.thy ===== *)
theory Disk
  imports GoString Ledger
begin

text \<open>
  \<open>storage/types/disk.go\<close>: disks with mount points and read/write IOPS and BPS quota, and lists
  of them. A \<open>*Disk\<close> that points into a list is its position there: entries are changed in
  place, never moved. \<open>parseRAM\<close> stands for \<open>resourcetypes.ParseRAMInHuman\<close>.
\<close>

record Disk =
  Device :: string
  Mounts :: "string list"
  dReadIOPS :: i64
  dWriteIOPS :: i64
  dReadBPS :: i64
  dWriteBPS :: i64

type_synonym Disks = "Disk list"

section \<open>Printing and parsing\<close>

definition disk_String :: "Disk \<Rightarrow> string" where
  "disk_String d = join_with '':'' [Device d, join_with '','' (Mounts d), show_i64 (dReadIOPS d),
     show_i64 (dWriteIOPS d), show_i64 (dReadBPS d), show_i64 (dWriteBPS d)]"

text \<open>\<open>strconv.ParseInt(s, 10, 64)\<close>.\<close>

definition digit_val :: "char \<Rightarrow> nat option" where
  "digit_val c = (let n = of_char c :: nat in if 48 \<le> n \<and> n < 58 then Some (n - 48) else None)"

fun parse_digits :: "nat \<Rightarrow> string \<Rightarrow> nat option" where
  "parse_digits acc [] = Some acc"
| "parse_digits acc (c # s) =
     (case digit_val c of None \<Rightarrow> None | Some d \<Rightarrow> parse_digits (10 * acc + d) s)"

definition parse_nat :: "string \<Rightarrow> nat option" where
  "parse_nat s = (if s = [] then None else parse_digits 0 s)"

definition ParseInt :: "string \<Rightarrow> i64 res" where
  "ParseInt s =
     (let signed = (case s of c # s' \<Rightarrow>
            if c = CHR ''-'' then map_option (\<lambda>n. - int n) (parse_nat s')
            else if c = CHR ''+'' then map_option int (parse_nat s')
            else map_option int (parse_nat s) | [] \<Rightarrow> None)
      in case signed of
           None \<Rightarrow> Inl (ErrExternal ''invalid syntax'')
         | Some x \<Rightarrow> if in_range x then Inr (of_val x) else Inl (ErrExternal ''value out of range''))"

definition disk_Parse :: "(string \<Rightarrow> i64 res) \<Rightarrow> string \<Rightarrow> Disk res" where
  "disk_Parse parseRAM s =
     (case split_at CHR '':'' s of
        [p0, p1, p2, p3, p4, p5] \<Rightarrow>
          bind_res (ParseInt p2) (\<lambda>rIOPS.
          bind_res (ParseInt p3) (\<lambda>wIOPS.
          bind_res (parseRAM p4) (\<lambda>rBPS.
          bind_res (parseRAM p5) (\<lambda>wBPS.
            Inr \<lparr>Device = p0, Mounts = split_at CHR '','' p1, dReadIOPS = rIOPS,
                 dWriteIOPS = wIOPS, dReadBPS = rBPS, dWriteBPS = wBPS\<rparr>))))
      | _ \<Rightarrow> Inl ErrInvalidDisk)"

definition disks_DeepCopy :: "Disks \<Rightarrow> Disks" where
  "disks_DeepCopy d = map (\<lambda>disk. disk) d"

section \<open>Lookups\<close>

definition GetDiskByDevice :: "Disks \<Rightarrow> string \<Rightarrow> nat option" where
  "GetDiskByDevice d device = index_of (\<lambda>disk. Device disk = device) d"

text \<open>\<open>mountCovers\<close> takes both arguments without a trailing slash.\<close>

definition mountCovers :: "string \<Rightarrow> string \<Rightarrow> bool" where
  "mountCovers path mount \<longleftrightarrow>
     path = mount \<or> (has_prefix path mount \<and> path ! length mount = CHR ''/'')"

definition mount_depth :: "string \<Rightarrow> int" where
  "mount_depth base = int (count_char base CHR ''/'') + 1"

text \<open>The two nested loops of \<open>GetDiskByPath\<close>; the state is \<open>best\<close> and \<open>bestDepth\<close>.\<close>

fun best_of_mounts :: "string \<Rightarrow> nat \<Rightarrow> string list \<Rightarrow> nat option \<times> int \<Rightarrow> nat option \<times> int" where
  "best_of_mounts path i [] acc = acc"
| "best_of_mounts path i (mount # mounts) (best, bestDepth) =
     (let base = trim_suffix mount ''/''; depth = mount_depth base
      in best_of_mounts path i mounts
           (if bestDepth \<le> depth \<and> mountCovers path base then (Some i, depth) else (best, bestDepth)))"

fun best_of_disks :: "string \<Rightarrow> nat \<Rightarrow> Disks \<Rightarrow> nat option \<times> int \<Rightarrow> nat option \<times> int" where
  "best_of_disks path i [] acc = acc"
| "best_of_disks path i (disk # d) acc =
     best_of_disks path (Suc i) d (best_of_mounts path i (Mounts disk) acc)"

definition GetDiskByPath :: "Disks \<Rightarrow> string \<Rightarrow> nat option" where
  "GetDiskByPath d path = fst (best_of_disks (trim_suffix path ''/'') 0 d (None, - 1))"

section \<open>Add and Sub\<close>

definition add_quotas :: "Disk \<Rightarrow> Disk \<Rightarrow> Disk" where
  "add_quotas disk disk1 =
     disk\<lparr>dReadIOPS := dReadIOPS disk + dReadIOPS disk1, dWriteIOPS := dWriteIOPS disk + dWriteIOPS disk1,
          dReadBPS := dReadBPS disk + dReadBPS disk1, dWriteBPS := dWriteBPS disk + dWriteBPS disk1,
          Mounts := (if Mounts disk1 \<noteq> [] then Mounts disk1 else Mounts disk)\<rparr>"

definition sub_quotas :: "Disk \<Rightarrow> Disk \<Rightarrow> Disk" where
  "sub_quotas disk disk1 =
     disk\<lparr>dReadIOPS := dReadIOPS disk - dReadIOPS disk1, dWriteIOPS := dWriteIOPS disk - dWriteIOPS disk1,
          dReadBPS := dReadBPS disk - dReadBPS disk1, dWriteBPS := dWriteBPS disk - dWriteBPS disk1,
          Mounts := (if Mounts disk1 \<noteq> [] then Mounts disk1 else Mounts disk)\<rparr>"

definition neg_quotas :: "Disk \<Rightarrow> Disk" where
  "neg_quotas disk1 =
     disk1\<lparr>dReadIOPS := - dReadIOPS disk1, dWriteIOPS := - dWriteIOPS disk1,
           dReadBPS := - dReadBPS disk1, dWriteBPS := - dWriteBPS disk1\<rparr>"

fun disks_add_loop :: "Disks \<Rightarrow> Disks \<Rightarrow> Disks \<Rightarrow> Disks" where
  "disks_add_loop d [] toAppend = d @ toAppend"
| "disks_add_loop d (disk1 # d1) toAppend =
     (case GetDiskByDevice d (Device disk1) of
        Some i \<Rightarrow> disks_add_loop (d[i := add_quotas (d ! i) disk1]) d1 toAppend
      | None \<Rightarrow> disks_add_loop d d1 (toAppend @ [disk1]))"

definition disks_Add :: "Disks \<Rightarrow> Disks \<Rightarrow> Disks" where
  "disks_Add d d1 = disks_add_loop d d1 []"

fun disks_sub_loop :: "Disks \<Rightarrow> Disks \<Rightarrow> Disks \<Rightarrow> Disks" where
  "disks_sub_loop d [] toAppend = d @ toAppend"
| "disks_sub_loop d (disk1 # d1) toAppend =
     (case GetDiskByDevice d (Device disk1) of
        Some i \<Rightarrow> disks_sub_loop (d[i := sub_quotas (d ! i) disk1]) d1 toAppend
      | None \<Rightarrow> disks_sub_loop d d1 (toAppend @ [neg_quotas disk1]))"

definition disks_Sub :: "Disks \<Rightarrow> Disks \<Rightarrow> Disks" where
  "disks_Sub d d1 = disks_sub_loop d d1 []"

definition RemoveMounts :: "Disks \<Rightarrow> Disks" where
  "RemoveMounts d = map (\<lambda>disk. disk\<lparr>Mounts := []\<rparr>) (disks_DeepCopy d)"

text \<open>
  \<open>slices.SortFunc(_, compareDiskDevice)\<close>. The disks of a record have devices of their own, so there is
  one sorted list of them and any sorting algorithm finds it (\<open>sort_disks_determined\<close>). When devices
  repeat the order of the entries of one device is that of the insertion sort Go uses up to twelve elements.
\<close>

definition sort_disks :: "Disks \<Rightarrow> Disks" where
  "sort_disks d = sort_key Device d"

lemma sort_disks_determined:
  assumes "mset ds = mset d" "sorted (map Device ds)" "distinct (map Device d)"
  shows "sort_disks d = ds"
  using sort_determined [OF assms(1,2)] assms(3) by (simp add: sort_disks_def distinct_map)

section \<open>The four quotas of a disk\<close>

datatype quota_kind = RIOPS | WIOPS | RBPS | WBPS

fun quota :: "Disk \<Rightarrow> quota_kind \<Rightarrow> i64" where
  "quota d RIOPS = dReadIOPS d"
| "quota d WIOPS = dWriteIOPS d"
| "quota d RBPS = dReadBPS d"
| "quota d WBPS = dWriteBPS d"

lemma all_quota_kind: "(\<forall>k. P k) \<longleftrightarrow> P RIOPS \<and> P WIOPS \<and> P RBPS \<and> P WBPS"
  by (metis quota_kind.exhaust)

lemma quota_add_quotas [simp]: "quota (add_quotas d d1) k = quota d k + quota d1 k"
  by (cases k) (simp_all add: add_quotas_def)

lemma quota_sub_quotas [simp]: "quota (sub_quotas d d1) k = quota d k - quota d1 k"
  by (cases k) (simp_all add: sub_quotas_def)

lemma quota_neg_quotas [simp]: "quota (neg_quotas d) k = - quota d k"
  by (cases k) (simp_all add: neg_quotas_def)

lemma device_simps [simp]:
  "Device (add_quotas d d1) = Device d" "Device (sub_quotas d d1) = Device d" "Device (neg_quotas d) = Device d"
  by (simp_all add: add_quotas_def sub_quotas_def neg_quotas_def)

lemma disk_eqI:
  "Device d = Device d' \<Longrightarrow> Mounts d = Mounts d' \<Longrightarrow> (\<And>k. quota d k = quota d' k) \<Longrightarrow> d = d'"
  for d d' :: Disk
  by (metis (full_types) Disk.equality old.unit.exhaust quota.simps)

text \<open>The amount of a quota a list of disks holds on a device: that of the first disk named so.\<close>

definition disks_amount :: "Disks \<Rightarrow> string \<times> quota_kind \<Rightarrow> i64" where
  "disks_amount d dk = (case GetDiskByDevice d (fst dk) of None \<Rightarrow> 0 | Some i \<Rightarrow> quota (d ! i) (snd dk))"

definition wf_disks :: "Disks \<Rightarrow> bool" where
  "wf_disks d \<longleftrightarrow> distinct (map Device d)"

end
