(* ===== verification/Disk_Props.thy ===== *)
theory Disk_Props
  imports Disk
begin

text \<open>
  Facts about disks: \<open>Add\<close> and \<open>Sub\<close> add and subtract the quotas device by device,
  \<open>GetDiskByPath\<close> finds the disk with the deepest mount point that covers a path, and
  \<open>Parse\<close> undoes \<open>String\<close>.
\<close>

section \<open>Add and Sub are a ledger\<close>

lemma disks_amount_Nil [simp]: "disks_amount [] dk = 0"
  by (simp add: disks_amount_def GetDiskByDevice_def)

lemma disks_amount_Cons [simp]:
  "disks_amount (x # d) (dev, k) = (if Device x = dev then quota x k else disks_amount d (dev, k))"
  by (cases "index_of (\<lambda>disk. Device disk = dev) d")
    (simp_all add: disks_amount_def GetDiskByDevice_def del: index_of_None_iff)

lemma disks_amount_absent: "dev \<notin> Device ` set d \<Longrightarrow> disks_amount d (dev, k) = 0"
  by (induction d) auto

lemma disks_amount_member: "wf_disks ds \<Longrightarrow> d \<in> set ds \<Longrightarrow> disks_amount ds (Device d, k) = quota d k"
  by (induction ds) (auto simp: wf_disks_def)

lemma disks_amount_append:
  "disks_amount (d @ e) (dev, k) =
     (if dev \<in> Device ` set d then disks_amount d (dev, k) else disks_amount e (dev, k))"
  by (induction d) auto

lemma GetDiskByDevice_SomeD:
  "GetDiskByDevice d dev = Some i \<Longrightarrow> i < length d \<and> Device (d ! i) = dev"
  by (auto simp: GetDiskByDevice_def dest: index_of_SomeD)

lemma GetDiskByDevice_None_iff: "GetDiskByDevice d dev = None \<longleftrightarrow> dev \<notin> Device ` set d"
  by (auto simp: GetDiskByDevice_def)

lemma disks_amount_update:
  assumes "GetDiskByDevice d dev0 = Some i" "Device x = dev0"
  shows "disks_amount (d[i := x]) (dev, k) = (if dev = dev0 then quota x k else disks_amount d (dev, k))"
  using assms
proof (induction d arbitrary: i)
  case (Cons y d)
  then show ?case
    by (cases i) (auto simp: GetDiskByDevice_def split: if_splits)
qed (simp add: GetDiskByDevice_def)

text \<open>One loop for both operations: how an entry is changed, and how an absent one is added.\<close>

fun disks_loop :: "(Disk \<Rightarrow> Disk \<Rightarrow> Disk) \<Rightarrow> (Disk \<Rightarrow> Disk) \<Rightarrow> Disks \<Rightarrow> Disks \<Rightarrow> Disks \<Rightarrow> Disks" where
  "disks_loop upd new d [] toAppend = d @ toAppend"
| "disks_loop upd new d (disk1 # d1) toAppend =
     (case GetDiskByDevice d (Device disk1) of
        Some i \<Rightarrow> disks_loop upd new (d[i := upd (d ! i) disk1]) d1 toAppend
      | None \<Rightarrow> disks_loop upd new d d1 (toAppend @ [new disk1]))"

lemma disks_Add_loop: "disks_Add d d1 = disks_loop add_quotas (\<lambda>x. x) d d1 []"
proof -
  have "disks_add_loop d d1 a = disks_loop add_quotas (\<lambda>x. x) d d1 a" for a
    by (induction d d1 a rule: disks_add_loop.induct) (auto split: option.splits)
  then show ?thesis by (simp add: disks_Add_def)
qed

lemma disks_Sub_loop: "disks_Sub d d1 = disks_loop sub_quotas neg_quotas d d1 []"
proof -
  have "disks_sub_loop d d1 a = disks_loop sub_quotas neg_quotas d d1 a" for a
    by (induction d d1 a rule: disks_sub_loop.induct) (auto split: option.splits)
  then show ?thesis by (simp add: disks_Sub_def)
qed

lemma map_Device_update:
  "GetDiskByDevice d dev = Some i \<Longrightarrow> Device x = dev \<Longrightarrow> map Device (d[i := x]) = map Device d"
  using GetDiskByDevice_SomeD [of d dev i] by (simp add: map_update list_update_same_conv)

lemma disks_loop_devices:
  assumes "\<And>x y. Device (upd x y) = Device x" "\<And>x. Device (new x) = Device x"
  shows "map Device (disks_loop upd new d d1 app) =
     map Device d @ map Device app @ filter (\<lambda>dev. dev \<notin> Device ` set d) (map Device d1)"
proof (induction d1 arbitrary: d app)
  case (Cons x d1)
  show ?case
  proof (cases "GetDiskByDevice d (Device x)")
    case None
    then have "Device x \<notin> Device ` set d" by (simp add: GetDiskByDevice_None_iff)
    with None show ?thesis by (simp add: Cons.IH assms(2))
  next
    case (Some i)
    let ?d = "d[i := upd (d ! i) x]"
    have eq: "map Device ?d = map Device d"
      using Some GetDiskByDevice_SomeD [OF Some] by (simp add: map_Device_update assms(1))
    then have "Device ` set ?d = Device ` set d" by (metis set_map)
    moreover have "Device x \<in> Device ` set d"
      using Some by (metis GetDiskByDevice_None_iff option.distinct(1))
    ultimately show ?thesis using Some eq by (simp add: Cons.IH)
  qed
qed simp

lemma disks_loop_wf:
  assumes "\<And>x y. Device (upd x y) = Device x" "\<And>x. Device (new x) = Device x"
    and "wf_disks d" "wf_disks d1"
  shows "wf_disks (disks_loop upd new d d1 [])"
  using assms(3,4) unfolding wf_disks_def disks_loop_devices [of upd new, OF assms(1,2)]
  by auto

lemma disks_loop_amount:
  assumes dev: "\<And>x y. Device (upd x y) = Device x" "\<And>x. Device (new x) = Device x"
    and quota: "\<And>x y k. quota (upd x y) k = quota x k + f (quota y k)" "\<And>x k. quota (new x) k = f (quota x k)"
    and zero: "f 0 = 0"
    and "wf_disks d1" "Device ` set app \<inter> Device ` set d = {}" "Device ` set app \<inter> Device ` set d1 = {}"
  shows "disks_amount (disks_loop upd new d d1 app) (dv, k) =
     disks_amount (d @ app) (dv, k) + f (disks_amount d1 (dv, k))"
  using assms(6-8)
proof (induction d1 arbitrary: d app)
  case Nil
  then show ?case by (simp add: zero)
next
  case (Cons x d1)
  have d1: "wf_disks d1" "Device x \<notin> Device ` set d1"
    using Cons.prems(1) by (auto simp: wf_disks_def)
  show ?case
  proof (cases "GetDiskByDevice d (Device x)")
    case None
    then have x: "Device x \<notin> Device ` set d" by (simp add: GetDiskByDevice_None_iff)
    have "disks_amount (disks_loop upd new d d1 (app @ [new x])) (dv, k) =
        disks_amount (d @ app @ [new x]) (dv, k) + f (disks_amount d1 (dv, k))"
      using Cons.prems(2,3) x d1 by (intro Cons.IH) (auto simp: dev)
    then show ?thesis
      using None x d1 Cons.prems(2,3)
      by (auto simp: disks_amount_append dev quota zero disks_amount_absent)
  next
    case (Some i)
    let ?d = "d[i := upd (d ! i) x]"
    have i: "Device (d ! i) = Device x" "i < length d" using GetDiskByDevice_SomeD [OF Some] by auto
    have "map Device ?d = map Device d" using Some i by (simp add: map_Device_update dev)
    then have devs: "Device ` set ?d = Device ` set d" by (metis set_map)
    have amount: "disks_amount ?d (dv, k) =
       (if dv = Device x then quota (d ! i) k + f (quota x k) else disks_amount d (dv, k))" for dv
      using i by (simp add: disks_amount_update [OF Some] dev quota)
    have old: "disks_amount d (Device x, k) = quota (d ! i) k"
      using Some by (simp add: disks_amount_def)
    have "disks_amount (disks_loop upd new ?d d1 app) (dv, k) =
        disks_amount (?d @ app) (dv, k) + f (disks_amount d1 (dv, k))"
      using Cons.prems(2,3) d1 by (intro Cons.IH) (simp_all add: devs)
    moreover have "Device x \<in> Device ` set d"
      using Some by (metis GetDiskByDevice_None_iff option.distinct(1))
    moreover have "disks_amount d1 (Device x, k) = 0" using d1(2) by (rule disks_amount_absent)
    ultimately show ?thesis
      using Some by (cases "dv = Device x")
        (simp_all add: disks_amount_append devs amount old zero del: list_update.simps)
  qed
qed

interpretation disk_ledger: ledger disks_Add disks_Sub disks_amount wf_disks
proof
  fix r s :: Disks and k :: "string \<times> quota_kind"
  assume wf: "wf_disks r" "wf_disks s"
  show "disks_amount (disks_Add r s) k = disks_amount r k + disks_amount s k"
    using disks_loop_amount [of add_quotas "\<lambda>x. x" "\<lambda>q. q" s "[]" r "fst k" "snd k"] wf
    by (simp add: disks_Add_loop)
  show "disks_amount (disks_Sub r s) k = disks_amount r k - disks_amount s k"
    using disks_loop_amount [of sub_quotas neg_quotas uminus s "[]" r "fst k" "snd k"] wf
    by (simp add: disks_Sub_loop)
  show "wf_disks (disks_Add r s)" "wf_disks (disks_Sub r s)"
    using wf by (auto simp: disks_Add_loop disks_Sub_loop intro!: disks_loop_wf)
qed

section \<open>Finding the disk that covers a path\<close>

lemma mountCovers_iff: "mountCovers path mount \<longleftrightarrow> path = mount \<or> (\<exists>rest. path = mount @ CHR ''/'' # rest)"
proof
  assume covers: "mountCovers path mount"
  show "path = mount \<or> (\<exists>rest. path = mount @ CHR ''/'' # rest)"
  proof (cases "path = mount")
    case False
    with covers have pre: "length mount \<le> length path" "take (length mount) path = mount"
      and slash: "path ! length mount = CHR ''/''"
      by (auto simp: mountCovers_def has_prefix_def)
    with False have "length mount < length path"
      by (metis le_neq_implies_less take_all order_refl)
    with slash have "drop (length mount) path = CHR ''/'' # drop (Suc (length mount)) path"
      by (simp flip: Cons_nth_drop_Suc)
    with pre(2) show ?thesis by (metis append_take_drop_id)
  qed simp
next
  assume "path = mount \<or> (\<exists>rest. path = mount @ CHR ''/'' # rest)"
  then show "mountCovers path mount"
    by (auto simp: mountCovers_def has_prefix_def nth_append)
qed

text \<open>A mount point of a disk, compared with a path the way \<open>GetDiskByPath\<close> does.\<close>

definition covers :: "string \<Rightarrow> string \<Rightarrow> bool" where
  "covers path mount \<longleftrightarrow> mountCovers (trim_suffix path ''/'') (trim_suffix mount ''/'')"

definition depth_of :: "string \<Rightarrow> int" where
  "depth_of mount = mount_depth (trim_suffix mount ''/'')"

text \<open>
  The loop invariant: \<open>C\<close> is the set of (position, mount) pairs seen so far, the accumulator is
  the deepest covering one of them, the last among equals.
\<close>

definition best_ok :: "string \<Rightarrow> (nat \<times> string) set \<Rightarrow> nat option \<times> int \<Rightarrow> bool" where
  "best_ok path C acc \<longleftrightarrow>
     (case acc of
        (None, n) \<Rightarrow> n = - 1 \<and> (\<forall>(j, m) \<in> C. \<not> covers path m)
      | (Some i, n) \<Rightarrow> (\<exists>m. (i, m) \<in> C \<and> covers path m \<and> n = depth_of m) \<and>
          (\<forall>(j, m) \<in> C. covers path m \<longrightarrow> depth_of m \<le> n \<and> (depth_of m = n \<longrightarrow> j \<le> i)))"

lemma depth_of_pos: "1 \<le> depth_of m"
  by (simp add: depth_of_def mount_depth_def)

lemma best_ok_step:
  assumes "best_ok path C (best, n)" "\<forall>(j, m) \<in> C. j \<le> i"
  shows "best_ok path (insert (i, m) C)
     (if n \<le> depth_of m \<and> covers path m then (Some i, depth_of m) else (best, n))"
  using assms depth_of_pos [of m] by (auto simp: best_ok_def split: option.splits)

lemma best_of_mounts_ok:
  assumes "best_ok path C acc" "\<forall>(j, m) \<in> C. j \<le> i"
  shows "best_ok path (C \<union> Pair i ` set ms) (best_of_mounts (trim_suffix path ''/'') i ms acc)"
  using assms
proof (induction ms arbitrary: C acc)
  case (Cons m ms)
  obtain best n where acc: "acc = (best, n)" by fastforce
  have "best_ok path (insert (i, m) C)
     (if n \<le> depth_of m \<and> covers path m then (Some i, depth_of m) else (best, n))"
    using Cons.prems best_ok_step acc by simp
  moreover have "\<forall>(j, m) \<in> insert (i, m) C. j \<le> i" using Cons.prems(2) by simp
  ultimately show ?case
    using Cons.IH unfolding covers_def depth_of_def by (fastforce simp: acc Let_def)
qed simp

definition mounts_from :: "nat \<Rightarrow> Disks \<Rightarrow> (nat \<times> string) set" where
  "mounts_from i d = {(i + j, m) | j m. j < length d \<and> m \<in> set (Mounts (d ! j))}"

lemma mounts_from_Cons: "mounts_from i (x # d) = Pair i ` set (Mounts x) \<union> mounts_from (Suc i) d"
  unfolding mounts_from_def by (force simp: less_Suc_eq_0_disj)

lemma best_of_disks_ok:
  assumes "best_ok path C acc" "\<forall>(j, m) \<in> C. j < i"
  shows "best_ok path (C \<union> mounts_from i d) (best_of_disks (trim_suffix path ''/'') i d acc)"
  using assms
proof (induction d arbitrary: C acc i)
  case Nil
  then show ?case by (simp add: mounts_from_def)
next
  case (Cons x d)
  have "best_ok path (C \<union> Pair i ` set (Mounts x)) (best_of_mounts (trim_suffix path ''/'') i (Mounts x) acc)"
    using Cons.prems by (intro best_of_mounts_ok) auto
  from Cons.IH [OF this, of "Suc i"] Cons.prems(2) show ?case
    by (force simp: mounts_from_Cons Un_assoc)
qed

lemma GetDiskByPath_ok:
  "\<exists>n. best_ok path (mounts_from 0 d) (GetDiskByPath d path, n)"
proof -
  have "best_ok path {} (None, - 1)" by (simp add: best_ok_def)
  from best_of_disks_ok [OF this, of 0 d] show ?thesis
    unfolding GetDiskByPath_def by (metis empty_iff prod.collapse sup_bot_left)
qed

lemma GetDiskByPath_bound: "GetDiskByPath d path = Some i \<Longrightarrow> i < length d"
  using GetDiskByPath_ok [of path d] by (auto simp: best_ok_def mounts_from_def)

text \<open>
  C26: \<open>GetDiskByPath\<close> returns no disk exactly when no mount point covers the path; otherwise the
  disk it returns has a covering mount point as deep as any other, and no later disk has one of
  that depth.
\<close>

theorem GetDiskByPath_deepest:
  "case GetDiskByPath d path of
     None \<Rightarrow> (\<forall>disk \<in> set d. \<forall>m \<in> set (Mounts disk). \<not> covers path m)
   | Some i \<Rightarrow> i < length d \<and> (\<exists>m \<in> set (Mounts (d ! i)). covers path m \<and>
       (\<forall>j < length d. \<forall>m' \<in> set (Mounts (d ! j)). covers path m' \<longrightarrow>
          depth_of m' \<le> depth_of m \<and> (depth_of m' = depth_of m \<longrightarrow> j \<le> i)))"
proof -
  obtain n where ok: "best_ok path (mounts_from 0 d) (GetDiskByPath d path, n)"
    using GetDiskByPath_ok by blast
  show ?thesis
  proof (cases "GetDiskByPath d path")
    case None
    with ok show ?thesis by (fastforce simp: best_ok_def mounts_from_def in_set_conv_nth)
  next
    case (Some i)
    with ok show ?thesis by (fastforce simp: best_ok_def mounts_from_def)
  qed
qed

definition two_disks :: Disks where
  "two_disks = [\<lparr>Device = ''sda'', Mounts = [''/'', ''/data''], dReadIOPS = 0, dWriteIOPS = 0, dReadBPS = 0, dWriteBPS = 0\<rparr>,
     \<lparr>Device = ''sdb'', Mounts = [''/data/1/''], dReadIOPS = 0, dWriteIOPS = 0, dReadBPS = 0, dWriteBPS = 0\<rparr>]"

theorem GetDiskByPath_deepest_witness:
  "\<exists>m \<in> set (Mounts (two_disks ! 1)). covers ''/data/1/x'' m \<and>
     (\<forall>j < length two_disks. \<forall>m' \<in> set (Mounts (two_disks ! j)). covers ''/data/1/x'' m' \<longrightarrow> depth_of m' \<le> depth_of m)"
proof -
  have "GetDiskByPath two_disks ''/data/1/x'' = Some 1" by code_simp
  with GetDiskByPath_deepest [of two_disks "''/data/1/x''"] show ?thesis by auto
qed

end
