(* ===== verification/Volume.thy ===== *)
theory Volume
  imports Disk
begin

text \<open>
  \<open>storage/types/volume.go\<close>: volume bindings, sizes per device, and volume plans. A
  \<open>VolumePlan\<close> is a Go map keyed by \<open>*VolumeBinding\<close>: one entry per pointer, so two entries may
  hold equal bindings. It is the list of its entries in iteration order; bindings are not
  changed while they are keys. \<open>parseRAM\<close> stands for \<open>resourcetypes.ParseRAMInHuman\<close>.
\<close>

record VolumeBinding =
  Source :: string
  Destination :: string
  Flags :: string
  SizeInBytes :: i64
  ReadIOPS :: i64
  WriteIOPS :: i64
  ReadBPS :: i64
  WriteBPS :: i64

type_synonym VolumeBindings = "VolumeBinding list"

definition empty_binding :: VolumeBinding where
  "empty_binding = \<lparr>Source = [], Destination = [], Flags = [], SizeInBytes = 0,
     ReadIOPS = 0, WriteIOPS = 0, ReadBPS = 0, WriteBPS = 0\<rparr>"

section \<open>Bindings\<close>

definition vb_Validate :: "VolumeBinding \<Rightarrow> goerr option" where
  "vb_Validate vb = (if Destination vb = [] then Some ErrInvalidVolume else None)"

text \<open>
  The flags are sorted, character by character; \<open>cmp.Or\<close> replaces empty flags by \<open>rw\<close>.
\<close>

definition parse_flags :: "string \<Rightarrow> string" where
  "parse_flags s = (let flags = concat (sort (explode s)) in if flags = [] then ''rw'' else flags)"

definition pad_parts :: "string list \<Rightarrow> string list" where
  "pad_parts parts =
     (let parts' = (if length parts = 2 then parts @ [''rw''] else parts)
      in parts' @ replicate (8 - length parts') ''0'')"

definition NewVolumeBinding :: "(string \<Rightarrow> i64 res) \<Rightarrow> string \<Rightarrow> VolumeBinding res" where
  "NewVolumeBinding parseRAM volume =
     (let parts = split_at CHR '':'' volume in
      if 8 < length parts \<or> length parts < 2 then Inl ErrInvalidVolume
      else let ps = pad_parts parts in
        bind_res (parseRAM (ps ! 3)) (\<lambda>size.
        bind_res (parseRAM (ps ! 4)) (\<lambda>rIOPS.
        bind_res (parseRAM (ps ! 5)) (\<lambda>wIOPS.
        bind_res (parseRAM (ps ! 6)) (\<lambda>rBPS.
        bind_res (parseRAM (ps ! 7)) (\<lambda>wBPS.
          let vb = \<lparr>Source = ps ! 0, Destination = ps ! 1, Flags = parse_flags (ps ! 2),
                    SizeInBytes = size, ReadIOPS = rIOPS, WriteIOPS = wIOPS,
                    ReadBPS = rBPS, WriteBPS = wBPS\<rparr>
          in check (vb_Validate vb) (Inr vb)))))))"

definition RequireSchedule :: "VolumeBinding \<Rightarrow> bool" where
  "RequireSchedule vb \<longleftrightarrow> has_suffix (Source vb) ''AUTO'' \<or> Source vb = []"

definition RequireScheduleUnlimitedQuota :: "VolumeBinding \<Rightarrow> bool" where
  "RequireScheduleUnlimitedQuota vb \<longleftrightarrow> RequireSchedule vb \<and> SizeInBytes vb = 0 \<and>
     ReadIOPS vb = 0 \<and> WriteIOPS vb = 0 \<and> ReadBPS vb = 0 \<and> WriteBPS vb = 0"

definition RequireScheduleMonopoly :: "VolumeBinding \<Rightarrow> bool" where
  "RequireScheduleMonopoly vb \<longleftrightarrow> RequireSchedule vb \<and> contains_char (Flags vb) CHR ''m''"

definition RequireIOPS :: "VolumeBinding \<Rightarrow> bool" where
  "RequireIOPS vb \<longleftrightarrow> 0 < ReadIOPS vb \<or> 0 < WriteIOPS vb \<or> 0 < ReadBPS vb \<or> 0 < WriteBPS vb"

definition ValidIOParameters :: "VolumeBinding \<Rightarrow> bool" where
  "ValidIOParameters vb \<longleftrightarrow> 0 \<le> ReadIOPS vb \<and> 0 \<le> WriteIOPS vb \<and> 0 \<le> ReadBPS vb \<and> 0 \<le> WriteBPS vb"

definition print_flags :: "bool \<Rightarrow> string \<Rightarrow> string" where
  "print_flags nrm flags0 =
     (let flags = (if nrm then replace_char flags0 CHR ''m'' [] else flags0)
      in if contains_char flags CHR ''o''
         then replace_char (replace_char (replace_char flags CHR ''o'' []) CHR ''r'' ''ro'') CHR ''w'' ''wo''
         else flags)"

definition vb_ToString :: "bool \<Rightarrow> VolumeBinding \<Rightarrow> string" where
  "vb_ToString nrm vb =
     (if \<not> nrm \<or> ReadIOPS vb \<noteq> 0 \<or> WriteIOPS vb \<noteq> 0 \<or> ReadBPS vb \<noteq> 0 \<or> WriteBPS vb \<noteq> 0
      then join_with '':'' [Source vb, Destination vb, print_flags nrm (Flags vb),
             show_i64 (SizeInBytes vb), show_i64 (ReadIOPS vb), show_i64 (WriteIOPS vb),
             show_i64 (ReadBPS vb), show_i64 (WriteBPS vb)]
      else join_with '':'' [Source vb, Destination vb, print_flags nrm (Flags vb),
             show_i64 (SizeInBytes vb)])"

definition GetMapKey :: "VolumeBinding \<Rightarrow> string \<times> string \<times> string" where
  "GetMapKey vb = (Source vb, Destination vb, Flags vb)"

definition AddQuota :: "VolumeBinding \<Rightarrow> VolumeBinding \<Rightarrow> VolumeBinding" where
  "AddQuota vb v = vb\<lparr>SizeInBytes := SizeInBytes vb + SizeInBytes v,
     ReadIOPS := ReadIOPS vb + ReadIOPS v, WriteIOPS := WriteIOPS vb + WriteIOPS v,
     ReadBPS := ReadBPS vb + ReadBPS v, WriteBPS := WriteBPS vb + WriteBPS v\<rparr>"

definition DiskQuota :: "VolumeBinding \<Rightarrow> Disk \<Rightarrow> Disk" where
  "DiskQuota vb disk = \<lparr>Device = Device disk, Mounts = Mounts disk, dReadIOPS = ReadIOPS vb,
     dWriteIOPS = WriteIOPS vb, dReadBPS = ReadBPS vb, dWriteBPS = WriteBPS vb\<rparr>"

section \<open>Lists of bindings\<close>

fun NewVolumeBindings :: "(string \<Rightarrow> i64 res) \<Rightarrow> string list \<Rightarrow> VolumeBindings res" where
  "NewVolumeBindings parseRAM [] = Inr []"
| "NewVolumeBindings parseRAM (v # vs) =
     bind_res (NewVolumeBinding parseRAM v) (\<lambda>vb.
       bind_res (NewVolumeBindings parseRAM vs) (\<lambda>vbs. Inr (vb # vbs)))"

fun vbs_Validate :: "VolumeBindings \<Rightarrow> goerr option" where
  "vbs_Validate [] = None"
| "vbs_Validate (vb # vbs) =
     (if RequireScheduleMonopoly vb \<and> SizeInBytes vb \<le> 0 then Some ErrInvalidVolume
      else if \<not> ValidIOParameters vb then Some ErrInvalidParams
      else vbs_Validate vbs)"

definition NeedSchedule :: "VolumeBindings \<Rightarrow> bool" where
  "NeedSchedule vbs \<longleftrightarrow> list_ex (\<lambda>vb. RequireSchedule vb \<or> RequireIOPS vb) vbs"

definition vbs_strings :: "VolumeBindings \<Rightarrow> string list" where
  "vbs_strings vbs = map (vb_ToString False) vbs"

definition vbs_String :: "VolumeBindings \<Rightarrow> string" where
  "vbs_String vbs = join_with '','' (vbs_strings vbs)"

definition TotalSize :: "VolumeBindings \<Rightarrow> i64" where
  "TotalSize vbs = foldl (\<lambda>total vb. total + SizeInBytes vb) 0 vbs"

text \<open>
  \<open>MergeVolumeBindings(vbs1, vbs2...)\<close>: one entry per (source, destination, flags); an entry
  whose size ends up negative is dropped. The result lists the entries of the map in the order \<open>k\<close> the
  last loop meets them.
\<close>

fun merge_into :: "(string \<times> string \<times> string, VolumeBinding) gomap \<Rightarrow> VolumeBindings \<Rightarrow>
    (string \<times> string \<times> string, VolumeBinding) gomap" where
  "merge_into m [] = m"
| "merge_into m (vb # vbs) =
     (case map_of m (GetMapKey vb) of
        Some binding \<Rightarrow> merge_into (mput (GetMapKey vb) (AddQuota binding vb) m) vbs
      | None \<Rightarrow> merge_into (mput (GetMapKey vb) vb m) vbs)"

definition MergeVolumeBindings :: "nat \<Rightarrow> VolumeBindings \<Rightarrow> VolumeBindings list \<Rightarrow> VolumeBindings" where
  "MergeVolumeBindings k vbs1 vbs2 =
     filter (\<lambda>vb. 0 \<le> SizeInBytes vb) (map snd (shuffle k (merge_into [] (concat (vbs2 @ [vbs1])))))"

section \<open>Sizes per device\<close>

type_synonym Volumes = "(string, i64) gomap"

definition vols_Add :: "Volumes \<Rightarrow> Volumes \<Rightarrow> Volumes" where
  "vols_Add v v1 = fold (\<lambda>(k, value) v. mput k (mget v k + value) v) v1 v"

definition vols_Sub :: "Volumes \<Rightarrow> Volumes \<Rightarrow> Volumes" where
  "vols_Sub v v1 = fold (\<lambda>(k, value) v. mput k (mget v k - value) v) v1 v"

definition GetDevice :: "Volumes \<Rightarrow> string" where
  "GetDevice v = (case v of [] \<Rightarrow> [] | (k, _) # _ \<Rightarrow> k)"

definition GetSize :: "Volumes \<Rightarrow> i64" where
  "GetSize v = (case v of [] \<Rightarrow> 0 | (_, sz) # _ \<Rightarrow> sz)"

definition Total :: "Volumes \<Rightarrow> i64" where
  "Total v = sum_list (map snd v)"

section \<open>Volume plans\<close>

type_synonym VolumePlan = "(VolumeBinding \<times> Volumes) list"

text \<open>\<open>GetVolumes\<close> looks an entry up by destination; the result is its position.\<close>

definition GetVolumes :: "VolumePlan \<Rightarrow> VolumeBinding \<Rightarrow> nat option" where
  "GetVolumes p vb = index_of (\<lambda>(binding, _). Destination vb = Destination binding) p"

definition remove_at :: "nat \<Rightarrow> 'a list \<Rightarrow> 'a list" where
  "remove_at i xs = take i xs @ drop (Suc i) xs"

definition merge_entry :: "VolumePlan \<Rightarrow> VolumeBinding \<times> Volumes \<Rightarrow> VolumePlan" where
  "merge_entry p e =
     (let (vb, vm) = e in
      case GetVolumes p vb of
        Some i \<Rightarrow>
          (let (oldVB, oldVM) = p ! i
           in remove_at i p @ [(AddQuota vb oldVB, [(GetDevice vm, GetSize vm + GetSize oldVM)])])
      | None \<Rightarrow> p @ [(vb, vm)])"

definition plan_Merge :: "VolumePlan \<Rightarrow> VolumePlan \<Rightarrow> VolumePlan" where
  "plan_Merge p p2 = foldl merge_entry p p2"

definition apply_plan_entry :: "VolumePlan \<Rightarrow> VolumeBinding \<Rightarrow> VolumeBinding" where
  "apply_plan_entry plan vb =
     (case GetVolumes plan vb of
        None \<Rightarrow> vb
      | Some i \<Rightarrow>
          let vmap = snd (plan ! i); vb' = vb\<lparr>Source := GetDevice vmap\<rparr>
          in if SizeInBytes vb' < GetSize vmap then vb'\<lparr>SizeInBytes := GetSize vmap\<rparr> else vb')"

definition ApplyPlan :: "VolumeBindings \<Rightarrow> VolumePlan \<Rightarrow> VolumeBindings" where
  "ApplyPlan vbs plan = map (apply_plan_entry plan) vbs"

text \<open>The JSON forms, up to the codec: string-keyed maps and lists of strings.\<close>

definition plan_MarshalJSON :: "VolumePlan \<Rightarrow> (string, Volumes) gomap" where
  "plan_MarshalJSON p = fold (\<lambda>(vb, vmap) m. mput (vb_ToString False vb) vmap m) p []"

fun plan_UnmarshalJSON :: "(string \<Rightarrow> i64 res) \<Rightarrow> VolumePlan \<Rightarrow> (string, Volumes) gomap \<Rightarrow> VolumePlan res" where
  "plan_UnmarshalJSON parseRAM p [] = Inr p"
| "plan_UnmarshalJSON parseRAM p ((volume, vmap) # m) =
     bind_res (NewVolumeBinding parseRAM volume) (\<lambda>vb. plan_UnmarshalJSON parseRAM (p @ [(vb, vmap)]) m)"

end
