(* ===== verification/Node.thy ===== *)
theory Node
  imports Volume
begin

text \<open>
  \<open>storage/types/node.go\<close>: what a node has and what its workloads use, and the request that
  edits it. The \<open>RawParams\<close> accessors core supplies (\<open>StringSlice\<close>, \<open>SizeInBytes\<close>, \<open>IsSet\<close>,
  \<open>String\<close>) are the fields of \<open>RawParams\<close> over raw parameters of type \<open>'r\<close>, next to
  \<open>parseRAM\<close>, core's \<open>ParseRAMInHuman\<close>.
\<close>

record NodeResource =
  Volumes :: Volumes
  Disks :: Disks
  Storage :: i64

definition empty_resource :: NodeResource where
  "empty_resource = \<lparr>Volumes = [], Disks = [], Storage = 0\<rparr>"

definition nr_DeepCopy :: "NodeResource \<Rightarrow> NodeResource" where
  "nr_DeepCopy n = \<lparr>Volumes = Volumes n, Disks = disks_DeepCopy (Disks n), Storage = Storage n\<rparr>"

definition RemoveEmpty :: "NodeResource \<Rightarrow> NodeResource" where
  "RemoveEmpty n = n\<lparr>Volumes := filter (\<lambda>(_, sz). \<not> sz = 0) (Volumes n)\<rparr>"

definition nr_Add :: "NodeResource \<Rightarrow> NodeResource \<Rightarrow> NodeResource" where
  "nr_Add n n1 = \<lparr>Volumes = vols_Add (Volumes n) (Volumes n1), Disks = disks_Add (Disks n) (Disks n1),
     Storage = Storage n + Storage n1\<rparr>"

definition nr_Sub :: "NodeResource \<Rightarrow> NodeResource \<Rightarrow> NodeResource" where
  "nr_Sub n n1 = \<lparr>Volumes = vols_Sub (Volumes n) (Volumes n1), Disks = disks_Sub (Disks n) (Disks n1),
     Storage = Storage n - Storage n1\<rparr>"

record NodeResourceInfo =
  Capacity :: NodeResource
  Usage :: NodeResource

definition NewNodeResourceInfo :: NodeResourceInfo where
  "NewNodeResourceInfo = \<lparr>Capacity = empty_resource, Usage = empty_resource\<rparr>"

section \<open>Validation\<close>

definition quota_negative :: "Disk \<Rightarrow> bool" where
  "quota_negative d \<longleftrightarrow> dReadIOPS d < 0 \<or> dWriteIOPS d < 0 \<or> dReadBPS d < 0 \<or> dWriteBPS d < 0"

definition quota_exceeds :: "Disk \<Rightarrow> Disk \<Rightarrow> bool" where
  "quota_exceeds usage disk \<longleftrightarrow> dReadIOPS disk < dReadIOPS usage \<or> dWriteIOPS disk < dWriteIOPS usage \<or>
     dReadBPS disk < dReadBPS usage \<or> dWriteBPS disk < dWriteBPS usage"

definition quota_nonzero :: "Disk \<Rightarrow> bool" where
  "quota_nonzero d \<longleftrightarrow> dReadIOPS d \<noteq> 0 \<or> dWriteIOPS d \<noteq> 0 \<or> dReadBPS d \<noteq> 0 \<or> dWriteBPS d \<noteq> 0"

text \<open>
  \<open>validateDisks\<close>: the first loop checks every capacity disk against its usage and gives the
  usage the capacity's mounts; a usage disk that capacity does not know is an error if it holds
  quota and is dropped otherwise. The result is the usage list it leaves.
\<close>

fun check_capacity_disks :: "Disks \<Rightarrow> Disks \<Rightarrow> Disks res" where
  "check_capacity_disks [] usage = Inr usage"
| "check_capacity_disks (disk # capacity) usage =
     (if quota_negative disk then Inl ErrInvalidDisk
      else case GetDiskByDevice usage (Device disk) of
        None \<Rightarrow> check_capacity_disks capacity usage
      | Some i \<Rightarrow>
          let usage' = usage[i := (usage ! i)\<lparr>Mounts := Mounts disk\<rparr>] in
          if quota_negative (usage ! i) then Inl ErrInvalidDisk
          else if quota_exceeds (usage ! i) disk then Inl ErrInvalidDisk
          else check_capacity_disks capacity usage')"

definition validateDisks :: "Disks \<Rightarrow> Disks \<Rightarrow> Disks res" where
  "validateDisks capacity usage =
     bind_res (check_capacity_disks capacity usage) (\<lambda>usage'.
       if list_ex (\<lambda>disk. GetDiskByDevice capacity (Device disk) = None \<and> quota_nonzero disk) usage'
       then Inl ErrInvalidDisk
       else Inr (filter (\<lambda>disk. GetDiskByDevice capacity (Device disk) \<noteq> None) usage'))"

fun validateVolume :: "Volumes \<Rightarrow> Volumes \<Rightarrow> goerr option" where
  "validateVolume [] usage = None"
| "validateVolume ((k, v) # capacity) usage =
     (if v < 0 then Some ErrInvalidVolume
      else case map_of usage k of
        Some u \<Rightarrow> if v < u \<or> u < 0 then Some ErrInvalidVolume else validateVolume capacity usage
      | None \<Rightarrow> validateVolume capacity usage)"

definition validateStorage :: "NodeResource \<Rightarrow> NodeResource \<Rightarrow> goerr option" where
  "validateStorage capacity usage =
     (if Storage capacity < 0 then Some ErrInvalidStorage
      else if Storage usage < 0 then Some ErrInvalidStorage else None)"

text \<open>
  \<open>Validate\<close> on the two pointers, either of which may be nil; the result is the record it
  leaves: missing usage filled in with zeros, disks sorted by device, usage disks normalised.
\<close>

definition info_Validate :: "NodeResource option \<Rightarrow> NodeResource option \<Rightarrow> NodeResourceInfo res" where
  "info_Validate capacity usage =
     (case capacity of
        None \<Rightarrow> Inl ErrInvalidCapacity
      | Some c \<Rightarrow>
          let u = (case usage of
                Some u \<Rightarrow> u
              | None \<Rightarrow> \<lparr>Volumes = map (\<lambda>(device, _). (device, 0)) (Volumes c),
                   Disks = map (\<lambda>disk. \<lparr>Device = Device disk, Mounts = Mounts disk, dReadIOPS = 0,
                     dWriteIOPS = 0, dReadBPS = 0, dWriteBPS = 0\<rparr>) (Disks c), Storage = 0\<rparr>);
              u' = u\<lparr>Disks := sort_disks (Disks u)\<rparr>;
              c' = c\<lparr>Disks := sort_disks (Disks c)\<rparr>;
              v = validateVolume (Volumes c') (Volumes u');
              s = validateStorage c' u';
              d = validateDisks (Disks c') (Disks u')
          in (case errors_join [v, s, (case d of Inl e \<Rightarrow> Some e | Inr _ \<Rightarrow> None)] of
               Some e \<Rightarrow> Inl e
             | None \<Rightarrow> Inr \<lparr>Capacity = c', Usage = u'\<lparr>Disks := (case d of Inl _ \<Rightarrow> Disks u' | Inr ds \<Rightarrow> ds)\<rparr>\<rparr>))"

section \<open>Requests\<close>

record 'r RawParams =
  parseRAM :: "string \<Rightarrow> i64 res"
  rawStringSlice :: "'r \<Rightarrow> string \<Rightarrow> string list"
  rawSizeInBytes :: "'r \<Rightarrow> string \<Rightarrow> i64 res"
  rawIsSet :: "'r \<Rightarrow> string \<Rightarrow> bool"
  rawString :: "'r \<Rightarrow> string \<Rightarrow> string"

record NodeResourceRequest =
  reqVolumes :: Volumes
  reqStorage :: i64
  reqDisks :: Disks
  RMDisks :: "string list"

fun parse_volumes :: "(string \<Rightarrow> i64 res) \<Rightarrow> string list \<Rightarrow> Volumes \<Rightarrow> Volumes res" where
  "parse_volumes ram [] volumes = Inr volumes"
| "parse_volumes ram (volume # vs) volumes =
     (case split_at CHR '':'' volume of
        [p0, p1] \<Rightarrow> bind_res (ram p1) (\<lambda>sz. parse_volumes ram vs (mput p0 sz volumes))
      | _ \<Rightarrow> Inl ErrInvalidVolume)"

fun parse_disks :: "(string \<Rightarrow> i64 res) \<Rightarrow> string list \<Rightarrow> Disks res" where
  "parse_disks ram [] = Inr []"
| "parse_disks ram (s # ss) =
     (case disk_Parse ram s of
        Inl e \<Rightarrow> Inl (ErrJoin [ErrInvalidDisk, e])
      | Inr disk \<Rightarrow> bind_res (parse_disks ram ss) (\<lambda>d. Inr (disk # d)))"

definition req_Parse :: "'r RawParams \<Rightarrow> 'r \<Rightarrow> NodeResourceRequest res" where
  "req_Parse rp raw =
     bind_res (parse_volumes (parseRAM rp) (rawStringSlice rp raw ''volumes'') []) (\<lambda>volumes.
     bind_res (rawSizeInBytes rp raw ''storage'') (\<lambda>storage.
     bind_res (parse_disks (parseRAM rp) (rawStringSlice rp raw ''disks'')) (\<lambda>d.
       Inr \<lparr>reqVolumes = volumes, reqStorage = storage + Total volumes, reqDisks = d,
            RMDisks = (if rawIsSet rp raw ''rm-disks''
              then split_at CHR '','' (rawString rp raw ''rm-disks'') else [])\<rparr>)))"

text \<open>\<open>SkipEmpty\<close>: absolute mode keeps the stored value of every key the request leaves out.\<close>

definition SkipEmpty :: "'r RawParams \<Rightarrow> 'r \<Rightarrow> NodeResourceRequest \<Rightarrow> NodeResource \<Rightarrow> NodeResourceRequest" where
  "SkipEmpty rp raw n nodeResource =
     (let n1 = (if \<not> rawIsSet rp raw ''volumes'' then n\<lparr>reqVolumes := Volumes nodeResource\<rparr> else n);
          n2 = (if \<not> rawIsSet rp raw ''storage'' then
                  (if rawIsSet rp raw ''volumes''
                   then n1\<lparr>reqStorage := Storage nodeResource - Total (Volumes nodeResource) + Total (reqVolumes n1)\<rparr>
                   else n1\<lparr>reqStorage := Storage nodeResource\<rparr>)
                else n1)
      in if \<not> rawIsSet rp raw ''disks'' then n2\<lparr>reqDisks := Disks nodeResource\<rparr> else n2)"

end
