(* ===== verification/GoSlices.thy ===== *)
theory GoSlices
  imports Prelude
begin

text \<open>
  The parts of Go's \<open>container/heap\<close> and \<open>slices\<close> the scheduler uses, on lists. The heap lives
  in the slice itself, the order is that of the element type.
\<close>

section \<open>container/heap\<close>

definition swap :: "nat \<Rightarrow> nat \<Rightarrow> 'a list \<Rightarrow> 'a list" where
  "swap i j xs = xs[i := xs ! j, j := xs ! i]"

definition parent :: "nat \<Rightarrow> nat" where
  "parent j = (j - 1) div 2"

function heap_up :: "'a::linorder list \<Rightarrow> nat \<Rightarrow> 'a list" where
  "heap_up xs j =
     (let i = parent j in
      if i = j \<or> \<not> xs ! j < xs ! i then xs else heap_up (swap i j xs) i)"
  by pat_completeness auto
termination
  by (relation "measure snd") (auto simp: parent_def)

function heap_down :: "'a::linorder list \<Rightarrow> nat \<Rightarrow> nat \<Rightarrow> 'a list" where
  "heap_down xs i n =
     (let j1 = 2 * i + 1 in
      if n \<le> j1 then xs
      else let j2 = j1 + 1; j = (if j2 < n \<and> xs ! j2 < xs ! j1 then j2 else j1)
        in if \<not> xs ! j < xs ! i then xs else heap_down (swap i j xs) j n)"
  by pat_completeness auto
termination
  by (relation "measure (\<lambda>(xs, i, n). n - i)") auto

declare heap_up.simps [simp del] heap_down.simps [simp del]

definition heap_Init :: "'a::linorder list \<Rightarrow> 'a list" where
  "heap_Init xs = fold (\<lambda>i ys. heap_down ys i (length xs)) (rev [0..<length xs div 2]) xs"

definition heap_Push :: "'a::linorder \<Rightarrow> 'a list \<Rightarrow> 'a list" where
  "heap_Push x xs = heap_up (xs @ [x]) (length xs)"

definition heap_Pop :: "'a::linorder list \<Rightarrow> 'a \<times> 'a list" where
  "heap_Pop xs =
     (let n = length xs - 1; ys = heap_down (swap 0 n xs) 0 n in (ys ! n, take n ys))"

lemma length_heap_Pop: "xs \<noteq> [] \<Longrightarrow> length (snd (heap_Pop xs)) < length xs"
  by (cases xs) (auto simp: heap_Pop_def Let_def min_def)

lemma heap_Pop_less: "(x, ys) = heap_Pop xs \<Longrightarrow> xs \<noteq> [] \<Longrightarrow> length ys < length xs"
  using length_heap_Pop by (metis snd_conv)

section \<open>slices\<close>

text \<open>\<open>slices.BinarySearchFunc\<close>, the position only: \<open>lt x\<close> is \<open>cmp(x, target) < 0\<close>.\<close>

function bsearch_loop :: "('a \<Rightarrow> bool) \<Rightarrow> 'a list \<Rightarrow> nat \<Rightarrow> nat \<Rightarrow> nat" where
  "bsearch_loop lt xs i j =
     (if i < j then
        let h = (i + j) div 2 in
        if lt (xs ! h) then bsearch_loop lt xs (h + 1) j else bsearch_loop lt xs i h
      else i)"
  by pat_completeness auto
termination
  by (relation "measure (\<lambda>(lt, xs, i, j). j - i)") auto

declare bsearch_loop.simps [simp del]

definition BinarySearch :: "('a \<Rightarrow> bool) \<Rightarrow> 'a list \<Rightarrow> nat" where
  "BinarySearch lt xs = bsearch_loop lt xs 0 (length xs)"

text \<open>\<open>slices.Delete(xs, p, p+1)\<close> and \<open>slices.MaxFunc\<close> (the first maximum of a non-empty list).\<close>

definition delete_at :: "nat \<Rightarrow> 'a list \<Rightarrow> 'a list" where
  "delete_at p xs = take p xs @ drop (Suc p) xs"

fun max_by :: "('a \<Rightarrow> 'b::linorder) \<Rightarrow> 'a \<Rightarrow> 'a list \<Rightarrow> 'a" where
  "max_by f m [] = m"
| "max_by f m (x # xs) = max_by f (if f m < f x then x else m) xs"

section \<open>Priority queues\<close>

text \<open>
  What the scheduler needs of the heap: the operations keep the elements, and \<open>pop\<close> takes a
  least one.
\<close>

locale priority_queue =
  fixes init :: "'a::linorder list \<Rightarrow> 'a list"
    and push :: "'a \<Rightarrow> 'a list \<Rightarrow> 'a list"
    and pop :: "'a list \<Rightarrow> 'a \<times> 'a list"
    and ok :: "'a list \<Rightarrow> bool"
  assumes init_mset: "mset (init xs) = mset xs"
    and init_ok: "ok (init xs)"
    and push_mset: "ok q \<Longrightarrow> mset (push x q) = add_mset x (mset q)"
    and push_ok: "ok q \<Longrightarrow> ok (push x q)"
    and pop_mset: "ok q \<Longrightarrow> q \<noteq> [] \<Longrightarrow> add_mset (fst (pop q)) (mset (snd (pop q))) = mset q"
    and pop_ok: "ok q \<Longrightarrow> q \<noteq> [] \<Longrightarrow> ok (snd (pop q))"
    and pop_least: "ok q \<Longrightarrow> q \<noteq> [] \<Longrightarrow> y \<in> set q \<Longrightarrow> fst (pop q) \<le> y"
begin

lemma pop_length: "ok q \<Longrightarrow> q \<noteq> [] \<Longrightarrow> Suc (length (snd (pop q))) = length q"
  using pop_mset [of q] by (metis size_add_mset size_mset)

lemma pop_fst_in: "ok q \<Longrightarrow> q \<noteq> [] \<Longrightarrow> fst (pop q) \<in> set q"
  using pop_mset [of q] by (metis set_mset_mset union_single_eq_member)

lemma pop_snd_subset: "ok q \<Longrightarrow> q \<noteq> [] \<Longrightarrow> set (snd (pop q)) \<subseteq> set q"
  using pop_mset [of q] by (metis set_mset_add_mset_insert set_mset_mset subset_insertI)

lemma pop_least_rest: "ok q \<Longrightarrow> q \<noteq> [] \<Longrightarrow> y \<in> set (snd (pop q)) \<Longrightarrow> fst (pop q) \<le> y"
  using pop_least pop_snd_subset by blast

text \<open>Pushing back what was set aside gives the queue its elements again.\<close>

lemma fold_push_mset: "ok q \<Longrightarrow> mset (fold push xs q) = mset q + mset xs"
  by (induction xs arbitrary: q) (simp_all add: push_mset push_ok)

lemma fold_push_ok: "ok q \<Longrightarrow> ok (fold push xs q)"
  by (induction xs arbitrary: q) (simp_all add: push_ok)

end

section \<open>The heap operations are a priority queue\<close>

definition heap_from :: "nat \<Rightarrow> nat \<Rightarrow> 'a::linorder list \<Rightarrow> bool" where
  "heap_from k n xs \<longleftrightarrow> (\<forall>j < n. 0 < j \<and> k \<le> parent j \<longrightarrow> xs ! parent j \<le> xs ! j)"

definition is_heap :: "'a::linorder list \<Rightarrow> bool" where
  "is_heap xs \<longleftrightarrow> heap_from 0 (length xs) xs"

lemma parent_less: "0 < j \<Longrightarrow> parent j < j"
  by (simp add: parent_def)

lemma parent_bound: "j < n \<Longrightarrow> parent j < n"
  by (simp add: parent_def)

lemma parent_eq_iff: "0 < j \<Longrightarrow> parent j = i \<longleftrightarrow> j = 2 * i + 1 \<or> j = 2 * i + 2"
  by (auto simp: parent_def)

lemma length_swap [simp]: "length (swap i j xs) = length xs"
  by (simp add: swap_def)

lemma mset_swap' [simp]: "i < length xs \<Longrightarrow> j < length xs \<Longrightarrow> mset (swap i j xs) = mset xs"
  unfolding swap_def by (rule mset_swap)

lemma nth_swap: "i < length xs \<Longrightarrow> j < length xs \<Longrightarrow> k < length xs \<Longrightarrow>
  swap i j xs ! k = (if k = j then xs ! i else if k = i then xs ! j else xs ! k)"
  by (simp add: swap_def nth_list_update)

lemma heap_down_spec:
  assumes "n \<le> length xs" "i < n \<or> n = 0"
    and "\<forall>j < n. 0 < j \<and> k \<le> parent j \<and> parent j \<noteq> i \<longrightarrow> xs ! parent j \<le> xs ! j"
    and "\<forall>j < n. 0 < j \<and> parent j = i \<and> 0 < i \<and> k \<le> parent i \<longrightarrow> xs ! parent i \<le> xs ! j"
    and "k \<le> i"
  shows "heap_from k n (heap_down xs i n) \<and> mset (heap_down xs i n) = mset xs \<and>
    (\<forall>m. n \<le> m \<and> m < length xs \<longrightarrow> heap_down xs i n ! m = xs ! m)"
  using assms
proof (induction xs i n rule: heap_down.induct)
  case (1 xs i n)
  define c where c_def: "c = (if 2 * i + 1 + 1 < n \<and> xs ! (2 * i + 1 + 1) < xs ! (2 * i + 1) then 2 * i + 1 + 1 else 2 * i + 1)"
  show ?case
  proof (cases "n \<le> 2 * i + 1 \<or> \<not> xs ! c < xs ! i")
    case True
    then have stop: "heap_down xs i n = xs" by (subst heap_down.simps) (auto simp: Let_def c_def)
    have "xs ! i \<le> xs ! j" if "j < n" "0 < j" "parent j = i" for j
      using True that by (auto simp: c_def parent_eq_iff split: if_splits)
    then have "heap_from k n xs"
      using "1.prems"(3) unfolding heap_from_def by metis
    with stop show ?thesis by simp
  next
    case False
    then have j: "i < c" "c < n" "parent c = i" "xs ! c < xs ! i"
      by (auto simp: c_def parent_def)
    then have len: "i < length xs" "c < length xs" "n \<le> length (swap i c xs)"
      using "1.prems"(1) by auto
    have down: "heap_down xs i n = heap_down (swap i c xs) c n"
      using False by (subst heap_down.simps) (auto simp: Let_def c_def)
    have least: "xs ! c \<le> xs ! m" if "m < n" "0 < m" "parent m = i" for m
      using that by (auto simp: c_def parent_eq_iff)
    have IH: "heap_from k n (heap_down (swap i c xs) c n) \<and>
       mset (heap_down (swap i c xs) c n) = mset (swap i c xs) \<and>
       (\<forall>m. n \<le> m \<and> m < length (swap i c xs) \<longrightarrow> heap_down (swap i c xs) c n ! m = swap i c xs ! m)"
    proof (rule "1.IH" [OF refl _ refl c_def])
      show "\<not> n \<le> 2 * i + 1" "\<not> \<not> xs ! c < xs ! i" using False by auto
      show "n \<le> length (swap i c xs)" "c < n \<or> n = 0" using len j by auto
      show "k \<le> c" using j(1) "1.prems"(5) by linarith
      show "\<forall>m < n. 0 < m \<and> k \<le> parent m \<and> parent m \<noteq> c \<longrightarrow>
          swap i c xs ! parent m \<le> swap i c xs ! m"
      proof (intro allI impI)
        fix m
        assume m: "m < n" "0 < m \<and> k \<le> parent m \<and> parent m \<noteq> c"
        then have pm: "parent m < n" "m < length xs" using parent_less [of m] "1.prems"(1) by auto
        show "swap i c xs ! parent m \<le> swap i c xs ! m"
        proof (cases "parent m = i")
          case True
          with m j least [of m] parent_less [of m] pm len show ?thesis
            by (cases "m = c") (simp_all add: nth_swap less_imp_le)
        next
          case False
          have "m \<noteq> c" using False j(3) by auto
          moreover have "xs ! parent i \<le> xs ! c" if "m = i"
            using "1.prems"(4) m j that len by auto
          moreover have "xs ! parent m \<le> xs ! m"
            using "1.prems"(3) m False by blast
          ultimately show ?thesis
            using False m pm len by (auto simp: nth_swap)
        qed
      qed
      show "\<forall>m < n. 0 < m \<and> parent m = c \<and> 0 < c \<and> k \<le> parent c \<longrightarrow>
          swap i c xs ! parent c \<le> swap i c xs ! m"
      proof (intro allI impI)
        fix m
        assume m: "m < n" "0 < m \<and> parent m = c \<and> 0 < c \<and> k \<le> parent c"
        then have "c < m" using parent_less [of m] by auto
        moreover have "xs ! parent m \<le> xs ! m"
          using "1.prems"(3,5) m j by (metis le_trans less_imp_le_nat less_irrefl)
        ultimately show "swap i c xs ! parent c \<le> swap i c xs ! m"
          using m j len "1.prems"(1) by (simp add: nth_swap)
      qed
    qed
    then show ?thesis using down len j "1.prems"(1) by (auto simp: nth_swap)
  qed
qed


lemma heap_up_spec:
  assumes "j < length xs"
    and "\<forall>m < length xs. 0 < m \<and> m \<noteq> j \<longrightarrow> xs ! parent m \<le> xs ! m"
    and "\<forall>m < length xs. 0 < m \<and> parent m = j \<and> 0 < j \<longrightarrow> xs ! parent j \<le> xs ! m"
  shows "is_heap (heap_up xs j) \<and> mset (heap_up xs j) = mset xs"
  using assms
proof (induction xs j rule: heap_up.induct)
  case (1 xs j)
  let ?i = "parent j"
  show ?case
  proof (cases "?i = j \<or> \<not> xs ! j < xs ! ?i")
    case True
    then have stop: "heap_up xs j = xs" by (subst heap_up.simps) (simp add: Let_def)
    have "xs ! parent j \<le> xs ! j" using True by auto
    then have "is_heap xs" using "1.prems"(2) unfolding is_heap_def heap_from_def by metis
    with stop show ?thesis by simp
  next
    case False
    then have j: "0 < j" "?i < j" "xs ! j < xs ! ?i" by (auto simp: parent_def)
    then have len: "?i < length xs" "j < length xs" using "1.prems"(1) by auto
    have up: "heap_up xs j = heap_up (swap ?i j xs) ?i"
      using False by (subst heap_up.simps) (simp add: Let_def)
    have "is_heap (heap_up (swap ?i j xs) ?i) \<and> mset (heap_up (swap ?i j xs) ?i) = mset (swap ?i j xs)"
    proof (rule "1.IH" [OF refl])
      show "\<not> (?i = j \<or> \<not> xs ! j < xs ! ?i)" using False .
      show "?i < length (swap ?i j xs)" using len by simp
      show "\<forall>m < length (swap ?i j xs). 0 < m \<and> m \<noteq> ?i \<longrightarrow>
          swap ?i j xs ! parent m \<le> swap ?i j xs ! m"
      proof (intro allI impI)
        fix m
        assume m: "m < length (swap ?i j xs)" "0 < m \<and> m \<noteq> ?i"
        then have pm: "parent m < m" "parent m < length xs" "m < length xs"
          using parent_less [of m] by auto
        show "swap ?i j xs ! parent m \<le> swap ?i j xs ! m"
        proof (cases "m = j")
          case True
          with j len pm show ?thesis by (simp add: nth_swap less_imp_le)
        next
          case False
          have old: "xs ! parent m \<le> xs ! m" using "1.prems"(2) m pm False by blast
          have "xs ! ?i \<le> xs ! m" if "parent m = j" using "1.prems"(3) that m pm j by blast
          moreover have "xs ! j \<le> xs ! m" if "parent m = ?i" using old that j by auto
          ultimately show ?thesis using old False m pm len by (auto simp: nth_swap)
        qed
      qed
      show "\<forall>m < length (swap ?i j xs). 0 < m \<and> parent m = ?i \<and> 0 < ?i \<longrightarrow>
          swap ?i j xs ! parent ?i \<le> swap ?i j xs ! m"
      proof (intro allI impI)
        fix m
        assume m: "m < length (swap ?i j xs)" "0 < m \<and> parent m = ?i \<and> 0 < ?i"
        have pi: "parent ?i < ?i" using m parent_less by blast
        have "xs ! parent ?i \<le> xs ! ?i" using "1.prems"(2) m pi len j by (metis less_irrefl)
        moreover have "xs ! ?i \<le> xs ! m" if "m \<noteq> j" using "1.prems"(2) m that by auto
        ultimately show "swap ?i j xs ! parent ?i \<le> swap ?i j xs ! m"
          using m pi len j parent_less [of m] by (cases "m = j") (auto simp: nth_swap)
      qed
    qed
    then show ?thesis using up len by simp
  qed
qed

lemma is_heap_least:
  assumes "is_heap xs" "m < length xs"
  shows "xs ! 0 \<le> xs ! m"
  using assms(2)
proof (induction m rule: less_induct)
  case (less m)
  show ?case
  proof (cases "m = 0")
    case False
    then have "parent m < m" by (simp add: parent_less)
    with less have "xs ! 0 \<le> xs ! parent m" by simp
    also have "\<dots> \<le> xs ! m" using assms(1) less.prems False by (simp add: is_heap_def heap_from_def)
    finally show ?thesis .
  qed simp
qed

lemma heap_Push_spec:
  assumes "is_heap q"
  shows "is_heap (heap_Push x q)" "mset (heap_Push x q) = add_mset x (mset q)"
proof -
  have "is_heap (heap_up (q @ [x]) (length q)) \<and> mset (heap_up (q @ [x]) (length q)) = mset (q @ [x])"
  proof (rule heap_up_spec)
    show "\<forall>m < length (q @ [x]). 0 < m \<and> m \<noteq> length q \<longrightarrow> (q @ [x]) ! parent m \<le> (q @ [x]) ! m"
      using assms by (auto simp: nth_append is_heap_def heap_from_def parent_bound)
    show "\<forall>m < length (q @ [x]). 0 < m \<and> parent m = length q \<and> 0 < length q \<longrightarrow>
        (q @ [x]) ! parent (length q) \<le> (q @ [x]) ! m"
    proof (intro allI impI)
      fix m
      assume "m < length (q @ [x])" "0 < m \<and> parent m = length q \<and> 0 < length q"
      moreover from this have "length q < m" using parent_less [of m] by auto
      ultimately show "(q @ [x]) ! parent (length q) \<le> (q @ [x]) ! m" by simp
    qed
  qed simp
  then show "is_heap (heap_Push x q)" "mset (heap_Push x q) = add_mset x (mset q)"
    by (simp_all add: heap_Push_def)
qed

lemma heap_from_mono: "heap_from k n xs \<Longrightarrow> k \<le> l \<Longrightarrow> heap_from l n xs"
  by (auto simp: heap_from_def)

lemma heap_Init_loop:
  assumes "heap_from k (length xs) xs" "k \<le> length xs div 2"
  shows "let ys = fold (\<lambda>i ys. heap_down ys i (length xs)) (rev [0..<k]) xs
    in heap_from 0 (length xs) ys \<and> mset ys = mset xs"
  using assms
proof (induction k arbitrary: xs)
  case 0
  then show ?case by simp
next
  case (Suc k)
  let ?ys = "heap_down xs k (length xs)"
  have "heap_from k (length xs) ?ys \<and> mset ?ys = mset xs \<and>
    (\<forall>m. length xs \<le> m \<and> m < length xs \<longrightarrow> ?ys ! m = xs ! m)"
  proof (rule heap_down_spec)
    show "k < length xs \<or> length xs = 0" using Suc.prems(2) by auto
    show "\<forall>j < length xs. 0 < j \<and> k \<le> parent j \<and> parent j \<noteq> k \<longrightarrow> xs ! parent j \<le> xs ! j"
      using Suc.prems(1) by (auto simp: heap_from_def)
    show "\<forall>j < length xs. 0 < j \<and> parent j = k \<and> 0 < k \<and> k \<le> parent k \<longrightarrow> xs ! parent k \<le> xs ! j"
      using parent_less [of k] by auto
  qed simp_all
  moreover from this have "length ?ys = length xs" by (metis size_mset)
  ultimately show ?case
    using Suc.IH [of ?ys] Suc.prems(2) by (simp add: Let_def)
qed

lemma heap_Init_spec: "is_heap (heap_Init xs)" "mset (heap_Init xs) = mset xs"
proof -
  have "heap_from (length xs div 2) (length xs) xs"
    by (auto simp: heap_from_def parent_def)
  from heap_Init_loop [OF this order_refl]
  have init: "heap_from 0 (length xs) (heap_Init xs)" "mset (heap_Init xs) = mset xs"
    by (simp_all add: heap_Init_def Let_def)
  then show "is_heap (heap_Init xs)" "mset (heap_Init xs) = mset xs"
    by (simp_all add: is_heap_def) (metis size_mset)
qed

lemma heap_Pop_spec:
  assumes "is_heap q" "q \<noteq> []"
  shows "fst (heap_Pop q) = q ! 0" "is_heap (snd (heap_Pop q))"
    "add_mset (fst (heap_Pop q)) (mset (snd (heap_Pop q))) = mset q"
proof -
  let ?n = "length q - 1"
  let ?xs = "swap 0 ?n q"
  let ?ys = "heap_down ?xs 0 ?n"
  have n: "?n < length q" "0 < length q" using assms(2) by auto
  have spec: "heap_from 0 ?n ?ys \<and> mset ?ys = mset ?xs \<and>
     (\<forall>m. ?n \<le> m \<and> m < length ?xs \<longrightarrow> ?ys ! m = ?xs ! m)"
  proof (rule heap_down_spec)
    show "\<forall>j < ?n. 0 < j \<and> 0 \<le> parent j \<and> parent j \<noteq> 0 \<longrightarrow> ?xs ! parent j \<le> ?xs ! j"
    proof (intro allI impI)
      fix j assume j: "j < ?n" "0 < j \<and> 0 \<le> parent j \<and> parent j \<noteq> 0"
      then have "parent j < ?n" using parent_less [of j] by auto
      with j n assms(1) show "?xs ! parent j \<le> ?xs ! j"
        by (auto simp: nth_swap is_heap_def heap_from_def)
    qed
  qed auto
  have ms: "mset ?ys = mset q" using spec n by simp
  then have len: "length ?ys = length q" by (metis size_mset)
  have last: "?ys ! ?n = q ! 0" using spec n by (simp add: nth_swap)
  have split: "?ys = take ?n ?ys @ [?ys ! ?n]"
    using len n by (metis One_nat_def Suc_pred take_Suc_conv_app_nth take_all order_refl)
  show "fst (heap_Pop q) = q ! 0" using last by (simp add: heap_Pop_def Let_def)
  show "add_mset (fst (heap_Pop q)) (mset (snd (heap_Pop q))) = mset q"
    using ms split by (simp add: heap_Pop_def Let_def) (metis add_mset_add_single mset.simps mset_append)
  show "is_heap (snd (heap_Pop q))"
    using spec len n unfolding is_heap_def heap_from_def
    by (auto simp: heap_Pop_def Let_def parent_bound)
qed

interpretation heap_queue: priority_queue heap_Init heap_Push heap_Pop is_heap
proof
  fix q xs :: "'a list" and x y :: 'a
  show "mset (heap_Init xs) = mset xs" "is_heap (heap_Init xs)"
    by (rule heap_Init_spec)+
  show "is_heap q \<Longrightarrow> is_heap (heap_Push x q)" by (rule heap_Push_spec)
  show "is_heap q \<Longrightarrow> q \<noteq> [] \<Longrightarrow> is_heap (snd (heap_Pop q))" by (rule heap_Pop_spec)
  show "is_heap q \<Longrightarrow> q \<noteq> [] \<Longrightarrow> y \<in> set q \<Longrightarrow> fst (heap_Pop q) \<le> y"
    by (auto simp: heap_Pop_spec in_set_conv_nth is_heap_least)
  show "is_heap q \<Longrightarrow> mset (heap_Push x q) = add_mset x (mset q)" by (rule heap_Push_spec)
  show "is_heap q \<Longrightarrow> q \<noteq> [] \<Longrightarrow> add_mset (fst (heap_Pop q)) (mset (snd (heap_Pop q))) = mset q"
    by (rule heap_Pop_spec)
qed

section \<open>Binary search\<close>

text \<open>On a list where the predicate holds on a prefix, the search finds where it stops.\<close>

lemma bsearch_loop_spec:
  assumes "i \<le> j" "j \<le> length xs" "\<forall>m < i. lt (xs ! m)" "\<forall>m. j \<le> m \<and> m < length xs \<longrightarrow> \<not> lt (xs ! m)"
    and "\<And>m n. m < n \<Longrightarrow> n < length xs \<Longrightarrow> lt (xs ! n) \<Longrightarrow> lt (xs ! m)"
  shows "let p = bsearch_loop lt xs i j in
     p \<le> length xs \<and> (\<forall>m < p. lt (xs ! m)) \<and> (\<forall>m. p \<le> m \<and> m < length xs \<longrightarrow> \<not> lt (xs ! m))"
  using assms
proof (induction lt xs i j rule: bsearch_loop.induct)
  case (1 lt xs i j)
  show ?case
  proof (cases "i < j")
    case False
    with "1.prems" show ?thesis by (subst bsearch_loop.simps) auto
  next
    case True
    let ?h = "(i + j) div 2"
    have h: "i \<le> ?h" "?h < j" using True by auto
    show ?thesis
    proof (cases "lt (xs ! ?h)")
      case lt: True
      have "\<forall>m < ?h + 1. lt (xs ! m)"
        using "1.prems"(2,5) lt h by (metis Suc_eq_plus1 less_Suc_eq order_less_le_trans)
      with "1.IH"(1) [OF True refl lt] "1.prems" h True lt show ?thesis
        by (subst bsearch_loop.simps) (simp add: Let_def)
    next
      case ge: False
      have "\<forall>m. ?h \<le> m \<and> m < length xs \<longrightarrow> \<not> lt (xs ! m)"
        using "1.prems"(5) ge by (metis le_neq_implies_less)
      with "1.IH"(2) [OF True refl ge] "1.prems" h True ge show ?thesis
        by (subst bsearch_loop.simps) (simp add: Let_def)
    qed
  qed
qed

lemma BinarySearch_spec:
  assumes "\<And>m n. m < n \<Longrightarrow> n < length xs \<Longrightarrow> lt (xs ! n) \<Longrightarrow> lt (xs ! m)"
  shows "BinarySearch lt xs \<le> length xs" "m < BinarySearch lt xs \<Longrightarrow> lt (xs ! m)"
    "BinarySearch lt xs \<le> m \<Longrightarrow> m < length xs \<Longrightarrow> \<not> lt (xs ! m)"
proof -
  have "BinarySearch lt xs \<le> length xs \<and> (\<forall>m < BinarySearch lt xs. lt (xs ! m)) \<and>
     (\<forall>m. BinarySearch lt xs \<le> m \<and> m < length xs \<longrightarrow> \<not> lt (xs ! m))"
    unfolding BinarySearch_def
    by (rule bsearch_loop_spec [unfolded Let_def]) (auto intro: assms)
  then show "BinarySearch lt xs \<le> length xs" "m < BinarySearch lt xs \<Longrightarrow> lt (xs ! m)"
    "BinarySearch lt xs \<le> m \<Longrightarrow> m < length xs \<Longrightarrow> \<not> lt (xs ! m)"
    by blast+
qed

lemma BinarySearch_bound: "BinarySearch lt xs \<le> length xs"
proof -
  have "i \<le> j \<Longrightarrow> bsearch_loop lt xs i j \<le> j" for i j
  proof (induction lt xs i j rule: bsearch_loop.induct)
    case (1 lt xs i j)
    have h: "(i + j) div 2 \<le> j" "i \<le> (i + j) div 2" "i < j \<Longrightarrow> (i + j) div 2 + 1 \<le> j"
      using 1(3) by auto
    show ?case
    proof (cases "i < j")
      case True
      with 1(1) [OF True refl] 1(2) [OF True refl] h show ?thesis
        by (subst bsearch_loop.simps) (auto simp: Let_def dest: order_trans [OF _ h(1)])
    qed (subst bsearch_loop.simps, use 1(3) in simp)
  qed
  then show ?thesis by (simp add: BinarySearch_def)
qed

section \<open>Maxima\<close>

lemma max_by_spec: "max_by f m xs \<in> insert m (set xs) \<and> (\<forall>x \<in> insert m (set xs). f x \<le> f (max_by f m xs))"
  by (induction f m xs rule: max_by.induct) (auto split: if_splits intro: order_trans less_imp_le dest: leI)

end
