(* ===== verification/Schedule.thy ===== *)
theory Schedule
  imports Node GoSlices GoFloat
begin

text \<open>
  \<open>storage/schedule\<close>: placing volume requests on the devices of a node. A function that changes
  the host takes it and returns it changed, next to its result, on the error paths too. A
  \<open>*volume\<close> is an element of the list that holds it, a \<open>*Disk\<close> the position in \<open>hdisks\<close>
  (\<open>None\<close> is nil). Counts of plans are integers; \<open>MaxInt\<close> is \<open>math.MaxInt\<close>.
\<close>

section \<open>Volumes and hosts\<close>

datatype volume = Volume (vdevice: string) (vsize: i64)

text \<open>\<open>compareVolume\<close>: by size, then by device.\<close>

instantiation volume :: linorder
begin

definition less_eq_volume :: "volume \<Rightarrow> volume \<Rightarrow> bool" where
  "v \<le> v1 \<longleftrightarrow> vsize v < vsize v1 \<or> (vsize v = vsize v1 \<and> vdevice v \<le> vdevice v1)"

definition less_volume :: "volume \<Rightarrow> volume \<Rightarrow> bool" where
  "v < v1 \<longleftrightarrow> vsize v < vsize v1 \<or> (vsize v = vsize v1 \<and> vdevice v < vdevice v1)"

instance
  by intro_classes (auto simp: less_eq_volume_def less_volume_def volume.expand)

end

record requestClasses =
  normal_class :: VolumeBindings
  mono_class :: VolumeBindings
  unlimited_class :: VolumeBindings
  mount_class :: VolumeBindings

record host =
  maxDeployCount :: int
  usedVolumes :: "volume list"
  unusedVolumes :: "volume list"
  hdisks :: Disks
  diskByPath :: "(string, nat option) gomap"

definition MaxInt :: int where
  "MaxInt = 2 ^ 63 - 1"

text \<open>The loop of \<open>newHost\<close> over the capacity volumes, then the two stable sorts.\<close>

definition split_volumes :: "Volumes \<Rightarrow> Volumes \<Rightarrow> volume list \<times> volume list" where
  "split_volumes capacity usage =
     fold (\<lambda>(device, size) (usedVols, unusedVols).
         let used = mget usage device in
         if used = 0 then (usedVols, unusedVols @ [Volume device size])
         else (usedVols @ [Volume device (size - used)], unusedVols)) capacity ([], [])"

definition newHost :: "NodeResourceInfo \<Rightarrow> int \<Rightarrow> host" where
  "newHost resourceInfo maxCount =
     (let (usedVols, unusedVols) =
            split_volumes (Volumes (Capacity resourceInfo)) (Volumes (Usage resourceInfo))
      in \<lparr>maxDeployCount = maxCount, usedVolumes = sort usedVols, unusedVolumes = sort unusedVols,
          hdisks = disks_Sub (disks_DeepCopy (Disks (Capacity resourceInfo))) (Disks (Usage resourceInfo)),
          diskByPath = []\<rparr>)"

definition clone :: "host \<Rightarrow> host" where
  "clone h = h\<lparr>hdisks := disks_DeepCopy (hdisks h), diskByPath := []\<rparr>"

text \<open>\<open>utils.go\<close>; a negative count panics.\<close>

definition repeatWith :: "int \<Rightarrow> 'a \<Rightarrow> 'a list res" where
  "repeatWith n x = (if n < 0 then Inl ErrPanic else Inr (replicate (nat n) x))"

definition emptyPlans :: "host \<Rightarrow> (VolumePlan list \<times> Disks list) res" where
  "emptyPlans h =
     bind_res (repeatWith (maxDeployCount h) []) (\<lambda>volumePlans.
       bind_res (repeatWith (maxDeployCount h) []) (\<lambda>diskPlans. Inr (volumePlans, diskPlans)))"

section \<open>Disks of a host\<close>

text \<open>\<open>getDiskByPath\<close> remembers what it resolved, a path without a disk included.\<close>

definition getDiskByPath :: "host \<Rightarrow> string \<Rightarrow> nat option \<times> host" where
  "getDiskByPath h path =
     (case map_of (diskByPath h) path of
        Some disk \<Rightarrow> (disk, h)
      | None \<Rightarrow> let disk = GetDiskByPath (hdisks h) path
               in (disk, h\<lparr>diskByPath := mput path disk (diskByPath h)\<rparr>))"

definition disk_at :: "host \<Rightarrow> nat option \<Rightarrow> Disk option" where
  "disk_at h disk = map_option ((!) (hdisks h)) disk"

definition update_disk :: "nat \<Rightarrow> (Disk \<Rightarrow> Disk) \<Rightarrow> host \<Rightarrow> host" where
  "update_disk i f h = h\<lparr>hdisks := (hdisks h)[i := f (hdisks h ! i)]\<rparr>"

definition isDiskIOPSQuotaQualified :: "Disk option \<Rightarrow> VolumeBinding \<Rightarrow> bool" where
  "isDiskIOPSQuotaQualified disk req =
     (case disk of
        None \<Rightarrow> \<not> RequireIOPS req
      | Some d \<Rightarrow> ReadBPS req \<le> dReadBPS d \<and> WriteBPS req \<le> dWriteBPS d \<and>
          ReadIOPS req \<le> dReadIOPS d \<and> WriteIOPS req \<le> dWriteIOPS d)"

definition decreaseIOPSQuota :: "VolumeBinding \<Rightarrow> Disk \<Rightarrow> Disk" where
  "decreaseIOPSQuota req disk =
     disk\<lparr>dReadIOPS := dReadIOPS disk - ReadIOPS req, dWriteIOPS := dWriteIOPS disk - WriteIOPS req,
          dReadBPS := dReadBPS disk - ReadBPS req, dWriteBPS := dWriteBPS disk - WriteBPS req\<rparr>"

definition increaseIOPSQuota :: "VolumeBinding \<Rightarrow> Disk \<Rightarrow> Disk" where
  "increaseIOPSQuota req disk =
     disk\<lparr>dReadIOPS := dReadIOPS disk + ReadIOPS req, dWriteIOPS := dWriteIOPS disk + WriteIOPS req,
          dReadBPS := dReadBPS disk + ReadBPS req, dWriteBPS := dWriteBPS disk + WriteBPS req\<rparr>"

text \<open>A request that needs quota qualifies on a disk that exists, so no nil disk is written to.\<close>

lemma qualified_nil [simp]: "isDiskIOPSQuotaQualified None req \<longleftrightarrow> \<not> RequireIOPS req"
  by (simp add: isDiskIOPSQuotaQualified_def)

section \<open>Classes of requests\<close>

definition anyRequireIOPS :: "VolumeBindings \<Rightarrow> bool" where
  "anyRequireIOPS vbs \<longleftrightarrow> list_ex RequireIOPS vbs"

fun classify_loop :: "VolumeBindings \<Rightarrow> requestClasses \<Rightarrow> requestClasses" where
  "classify_loop [] classes = classes"
| "classify_loop (binding # bs) classes =
     classify_loop bs
       (if RequireScheduleMonopoly binding then classes\<lparr>mono_class := mono_class classes @ [binding]\<rparr>
        else if RequireScheduleUnlimitedQuota binding
          then classes\<lparr>unlimited_class := unlimited_class classes @ [binding]\<rparr>
        else if RequireSchedule binding then classes\<lparr>normal_class := normal_class classes @ [binding]\<rparr>
        else classes\<lparr>mount_class := mount_class classes @ [binding]\<rparr>)"

definition classifyVolumeBindings :: "VolumeBindings \<Rightarrow> requestClasses" where
  "classifyVolumeBindings vbs =
     (let classes = classify_loop vbs
            \<lparr>normal_class = [], mono_class = [], unlimited_class = [], mount_class = []\<rparr>
      in classes\<lparr>mono_class := sort_key SizeInBytes (mono_class classes),
           normal_class := sort_key SizeInBytes (normal_class classes)\<rparr>)"

text \<open>
  \<open>classifyAffinityRequests\<close>: later entries of the existing plan win. The requests with a device
  are the keys of a map, which its users range over in any order \<open>k\<close>; the others keep their order.
\<close>

definition existing_volumes :: "VolumePlan \<Rightarrow> (string \<times> string \<times> string, Volumes) gomap" where
  "existing_volumes existing = fold (\<lambda>(binding, volumeMap). mput (GetMapKey binding) volumeMap) existing []"

fun affinity_split :: "VolumeBindings \<Rightarrow> VolumePlan \<Rightarrow> VolumePlan \<times> VolumeBindings" where
  "affinity_split [] existing = ([], [])"
| "affinity_split (req # reqs) existing =
     (let (affinity, nonAffinity) = affinity_split reqs existing in
      case map_of (existing_volumes existing) (GetMapKey req) of
        Some volumeMap \<Rightarrow> ((req, volumeMap) # affinity, nonAffinity)
      | None \<Rightarrow> (affinity, req # nonAffinity))"

definition classifyAffinityRequests :: "nat \<Rightarrow> VolumeBindings \<Rightarrow> VolumePlan \<Rightarrow> VolumePlan \<times> VolumeBindings" where
  "classifyAffinityRequests k reqs existing =
     (let (affinity, nonAffinity) = affinity_split reqs existing in (shuffle k affinity, nonAffinity))"

section \<open>Monopoly requests\<close>

definition total_quota :: "VolumeBindings \<Rightarrow> VolumeBinding" where
  "total_quota reqs = foldl AddQuota empty_binding reqs"

text \<open>
  \<open>int64(float64(size) / float64(total) * float64(volumeSize))\<close>. With a zero total the quotient
  is an infinity or NaN, and so is the product or NaN: the conversion gives the indefinite value.
\<close>

definition mono_share :: "i64 \<Rightarrow> i64 \<Rightarrow> i64 \<Rightarrow> i64" where
  "mono_share sz totalSize volumeSize =
     (if float64 totalSize = 0 then of_val (- (2 ^ 63))
      else int64_of (f64 (f64 (float64 sz / float64 totalSize) * float64 volumeSize)))"

fun mono_shares :: "i64 \<Rightarrow> i64 \<Rightarrow> string \<Rightarrow> VolumeBindings \<Rightarrow> i64 \<Rightarrow> VolumePlan \<times> i64" where
  "mono_shares totalSize volumeSize device [] rest = ([], rest)"
| "mono_shares totalSize volumeSize device (req # reqs) rest =
     (let size = mono_share (SizeInBytes req) totalSize volumeSize;
          (volumePlan, rest') = mono_shares totalSize volumeSize device reqs (rest - size)
      in ((req, [(device, size)]) # volumePlan, rest'))"

definition getMonoPlan :: "VolumeBindings \<Rightarrow> volume \<Rightarrow> host \<Rightarrow>
    host \<times> volume \<times> (VolumePlan \<times> Disk option) res" where
  "getMonoPlan monoRequests volume h =
     (let total = total_quota monoRequests in
      if vsize volume < SizeInBytes total then (h, volume, Inl ErrInsufficientResource)
      else let (disk, h1) = getDiskByPath h (vdevice volume) in
        if \<not> isDiskIOPSQuotaQualified (disk_at h1 disk) total
        then (h1, volume, Inl ErrInsufficientResource)
        else let (volumePlan, rest) =
                   mono_shares (SizeInBytes total) (vsize volume) (vdevice volume) monoRequests (vsize volume)
          in (case (rest = 0, volumePlan) of
                (False, []) \<Rightarrow> (h1, Volume (vdevice volume) rest, Inl ErrPanic)
              | _ \<Rightarrow>
                let volumePlan' = (case (rest = 0, volumePlan) of
                        (False, (req, vm) # p) \<Rightarrow>
                          (req, mput (vdevice volume) (mget vm (vdevice volume) + rest) vm) # p
                      | _ \<Rightarrow> volumePlan);
                    volume' = Volume (vdevice volume) 0
                in if RequireIOPS total
                   then (case disk_at h1 disk of
                       None \<Rightarrow> (h1, volume', Inl ErrPanic)
                     | Some d \<Rightarrow> let diskPlan = DiskQuota total d
                         in (h1\<lparr>hdisks := disks_Sub (hdisks h1) [diskPlan]\<rparr>, volume',
                             Inr (volumePlan', Some diskPlan)))
                   else (h1, volume', Inr (volumePlan', None))))"

text \<open>The loop over the unused volumes, smallest first, with its early exit.\<close>

fun mono_loop :: "VolumeBindings \<Rightarrow> int \<Rightarrow> volume list \<Rightarrow> host \<Rightarrow> VolumePlan list \<Rightarrow> Disks list \<Rightarrow>
    host \<times> volume list \<times> VolumePlan list \<times> Disks list" where
  "mono_loop monoRequests bound [] h volumePlans diskPlans = (h, [], volumePlans, diskPlans)"
| "mono_loop monoRequests bound (volume # vs) h volumePlans diskPlans =
     (if bound \<le> int (length volumePlans) then (h, volume # vs, volumePlans, diskPlans)
      else let (h1, volume', r) = getMonoPlan monoRequests volume h;
               (h2, vs', res) = (case r of
                   Inl e \<Rightarrow> mono_loop monoRequests bound vs h1 volumePlans diskPlans
                 | Inr (volumePlan, diskPlan) \<Rightarrow>
                     mono_loop monoRequests bound vs h1 (volumePlans @ [volumePlan])
                       (diskPlans @ [case diskPlan of None \<Rightarrow> [] | Some d \<Rightarrow> [d]]))
        in (h2, volume' # vs', res))"

definition getMonoPlans :: "VolumeBindings \<Rightarrow> int \<Rightarrow> host \<Rightarrow> host \<times> (VolumePlan list \<times> Disks list) res" where
  "getMonoPlans monoRequests bound h =
     (if monoRequests = [] then
        (h, bind_res (repeatWith (maxDeployCount h) []) (\<lambda>volumePlans.
              bind_res (repeatWith (maxDeployCount h) []) (\<lambda>diskPlans. Inr (volumePlans, diskPlans))))
      else if unusedVolumes h = [] then (h, Inr ([], []))
      else let (h1, vs, volumePlans, diskPlans) = mono_loop monoRequests bound (unusedVolumes h) h [] []
        in (h1\<lparr>unusedVolumes := vs\<rparr>, Inr (volumePlans, diskPlans)))"

fun mono_count :: "VolumeBindings \<Rightarrow> int \<Rightarrow> volume list \<Rightarrow> host \<Rightarrow> int \<Rightarrow> int" where
  "mono_count monoRequests bound [] h capacity = capacity"
| "mono_count monoRequests bound (volume # vs) h capacity =
     (if bound \<le> capacity then capacity
      else let (h1, _, r) = getMonoPlan monoRequests volume h
        in mono_count monoRequests bound vs h1 (case r of Inl _ \<Rightarrow> capacity | Inr _ \<Rightarrow> capacity + 1))"

definition countMonoPlans :: "VolumeBindings \<Rightarrow> int \<Rightarrow> host \<Rightarrow> int" where
  "countMonoPlans monoRequests bound h =
     (if monoRequests = [] then maxDeployCount h
      else mono_count monoRequests bound (unusedVolumes h) h 0)"

section \<open>Normal requests\<close>

text \<open>
  The inner loop of \<open>getNormalPlan\<close>: pop volumes until one fits; the ones that do not are set
  aside.
\<close>

function pop_fit :: "VolumeBinding \<Rightarrow> volume list \<Rightarrow> volume list \<Rightarrow> host \<Rightarrow>
    host \<times> volume list \<times> volume list \<times> (volume \<times> nat option) option" where
  "pop_fit req vh volumeToPush h =
     (if vh = [] then (h, [], volumeToPush, None)
      else let (volume, vh') = heap_Pop vh; (disk, h1) = getDiskByPath h (vdevice volume) in
        if vsize volume < SizeInBytes req \<or> \<not> isDiskIOPSQuotaQualified (disk_at h1 disk) req
        then pop_fit req vh' (volumeToPush @ [volume]) h1
        else (h1, vh', volumeToPush, Some (volume, disk)))"
  by pat_completeness auto
termination
  by (relation "measure (\<lambda>(req, vh, volumeToPush, h). length vh)") (auto dest: heap_Pop_less)

declare pop_fit.simps [simp del]

text \<open>One request: the volume that fits is charged, then everything popped goes back.\<close>

definition alloc_normal :: "VolumeBinding \<Rightarrow> volume list \<Rightarrow> Disks \<Rightarrow> host \<Rightarrow>
    host \<times> volume list \<times> (Volumes \<times> Disks) res" where
  "alloc_normal req vh diskPlan h =
     (let (h1, vh1, volumeToPush, found) = pop_fit req vh [] h in
      case found of
        None \<Rightarrow> (h1, fold heap_Push volumeToPush vh1, Inl ErrInsufficientResource)
      | Some (volume, disk) \<Rightarrow>
          let volume' = Volume (vdevice volume) (vsize volume - SizeInBytes req);
              vh2 = fold heap_Push (volumeToPush @ [volume']) vh1;
              vm = [(vdevice volume, SizeInBytes req)]
          in if RequireIOPS req
             then (case disk of
                 None \<Rightarrow> (h1, vh2, Inl ErrPanic)
               | Some i \<Rightarrow> let h2 = update_disk i (decreaseIOPSQuota req) h1
                   in (h2, vh2, Inr (vm, disks_Add diskPlan [DiskQuota req (hdisks h2 ! i)])))
             else (h1, vh2, Inr (vm, diskPlan)))"

fun normal_reqs :: "VolumeBindings \<Rightarrow> volume list \<Rightarrow> VolumePlan \<Rightarrow> Disks \<Rightarrow> host \<Rightarrow>
    host \<times> volume list \<times> (VolumePlan \<times> Disks) res" where
  "normal_reqs [] vh volumePlan diskPlan h = (h, vh, Inr (volumePlan, diskPlan))"
| "normal_reqs (req # reqs) vh volumePlan diskPlan h =
     (let (h1, vh1, r) = alloc_normal req vh diskPlan h in
      case r of
        Inl e \<Rightarrow> (h1, vh1, Inl e)
      | Inr (vm, diskPlan') \<Rightarrow> normal_reqs reqs vh1 (volumePlan @ [(req, vm)]) diskPlan' h1)"

text \<open>The heap shares its array with \<open>usedVolumes\<close>, so the order it leaves is the order kept.\<close>

definition getNormalPlan :: "VolumeBindings \<Rightarrow> host \<Rightarrow> host \<times> (VolumePlan \<times> Disks) res" where
  "getNormalPlan normalRequests h =
     (let (h1, vh, r) = normal_reqs normalRequests (heap_Init (usedVolumes h)) [] [] h
      in (h1\<lparr>usedVolumes := vh\<rparr>, r))"

section \<open>Mount requests\<close>

fun mount_disk_loop :: "VolumeBindings \<Rightarrow> Disks \<Rightarrow> host \<Rightarrow> host \<times> Disks res" where
  "mount_disk_loop [] diskPlan h = (h, Inr diskPlan)"
| "mount_disk_loop (req # reqs) diskPlan h =
     (if \<not> RequireIOPS req then mount_disk_loop reqs diskPlan h
      else let (disk, h1) = getDiskByPath h (Source req) in
        if \<not> isDiskIOPSQuotaQualified (disk_at h1 disk) req then (h1, Inl ErrInsufficientResource)
        else case disk of
          None \<Rightarrow> (h1, Inl ErrPanic)
        | Some i \<Rightarrow> let h2 = update_disk i (decreaseIOPSQuota req) h1
            in mount_disk_loop reqs (disks_Add diskPlan [DiskQuota req (hdisks h2 ! i)]) h2)"

definition getMountDiskPlan :: "VolumeBindings \<Rightarrow> host \<Rightarrow> host \<times> Disks res" where
  "getMountDiskPlan reqs h = mount_disk_loop reqs [] h"

definition headroom_step :: "i64 \<Rightarrow> i64 \<Rightarrow> i64 \<Rightarrow> i64" where
  "headroom_step quota_left sum_req head = (if 0 < sum_req then min head (quot quota_left sum_req) else head)"

definition quotaHeadroom :: "Disk \<Rightarrow> VolumeBinding \<Rightarrow> i64" where
  "quotaHeadroom disk s =
     headroom_step (dWriteBPS disk) (WriteBPS s)
      (headroom_step (dReadBPS disk) (ReadBPS s)
        (headroom_step (dWriteIOPS disk) (WriteIOPS s)
          (headroom_step (dReadIOPS disk) (ReadIOPS s) (of_val MaxInt))))"

text \<open>
  The sums per disk of \<open>applyMountPasses\<close>. A nil disk would be dereferenced when its headroom is
  asked for; the pass made before leaves no such request.
\<close>

fun mount_quotas :: "VolumeBindings \<Rightarrow> (nat option, VolumeBinding) gomap \<Rightarrow> host \<Rightarrow>
    host \<times> (nat option, VolumeBinding) gomap" where
  "mount_quotas [] quotas h = (h, quotas)"
| "mount_quotas (req # reqs) quotas h =
     (if \<not> RequireIOPS req then mount_quotas reqs quotas h
      else let (disk, h1) = getDiskByPath h (Source req);
               s = (case map_of quotas disk of Some s \<Rightarrow> s | None \<Rightarrow> empty_binding)
        in mount_quotas reqs (mput disk (AddQuota s req) quotas) h1)"

definition capacity_step :: "host \<Rightarrow> nat option \<times> VolumeBinding \<Rightarrow> int res \<Rightarrow> int res" where
  "capacity_step h q capacity =
     bind_res capacity (\<lambda>c. case disk_at h (fst q) of
         None \<Rightarrow> Inl ErrPanic
       | Some d \<Rightarrow> Inr (min c (val (1 + quotaHeadroom d (snd q)))))"

text \<open>\<open>disk.X -= int64(n) * sum.X\<close> for the four quotas.\<close>

definition decrease_times :: "int \<Rightarrow> VolumeBinding \<Rightarrow> Disk \<Rightarrow> Disk" where
  "decrease_times n s disk =
     disk\<lparr>dReadIOPS := dReadIOPS disk - of_val n * ReadIOPS s,
          dWriteIOPS := dWriteIOPS disk - of_val n * WriteIOPS s,
          dReadBPS := dReadBPS disk - of_val n * ReadBPS s,
          dWriteBPS := dWriteBPS disk - of_val n * WriteBPS s\<rparr>"

definition charge_step :: "int \<Rightarrow> nat option \<times> VolumeBinding \<Rightarrow> host \<Rightarrow> host" where
  "charge_step capacity q h =
     (case fst q of None \<Rightarrow> h | Some i \<Rightarrow> update_disk i (decrease_times (capacity - 1) (snd q)) h)"

definition applyMountPasses :: "VolumeBindings \<Rightarrow> int \<Rightarrow> host \<Rightarrow> host \<times> (int \<times> Disks) res" where
  "applyMountPasses mountRequests bound h =
     (let (h1, r) = getMountDiskPlan mountRequests h in
      case r of
        Inl _ \<Rightarrow> (h1, Inr (0, []))
      | Inr prototype \<Rightarrow>
          if bound < 1 then (h1, Inr (0, []))
          else let (h2, quotas) = mount_quotas mountRequests [] h1 in
            (case fold (capacity_step h2) quotas (Inr bound) of
              Inl e \<Rightarrow> (h2, Inl e)
            | Inr capacity \<Rightarrow>
                let h3 = fold (charge_step capacity) quotas h2;
                    h4 = (if capacity < bound then fst (getMountDiskPlan mountRequests h3) else h3)
                in (h4, Inr (capacity, prototype))))"

definition getMountOnlyPlans :: "VolumeBindings \<Rightarrow> int \<Rightarrow> host \<Rightarrow> host \<times> (VolumePlan list \<times> Disks list) res" where
  "getMountOnlyPlans mountRequests bound h =
     (let (h1, r) = applyMountPasses mountRequests bound h
      in (h1, bind_res r (\<lambda>(capacity, prototype).
            bind_res (repeatWith capacity []) (\<lambda>volumePlans.
              bind_res (repeatWith capacity (disks_DeepCopy prototype)) (\<lambda>diskPlans.
                Inr (volumePlans, diskPlans))))))"

section \<open>Normal plans\<close>

function normal_loop :: "VolumeBindings \<Rightarrow> VolumeBindings \<Rightarrow> int \<Rightarrow> VolumePlan list \<Rightarrow> Disks list \<Rightarrow> host \<Rightarrow>
    host \<times> VolumePlan list \<times> Disks list" where
  "normal_loop normalRequests mountRequests bound volumePlans diskPlans h =
     (if int (length volumePlans) < bound then
        (let (h1, r) = getNormalPlan normalRequests h in
         case r of
           Inl _ \<Rightarrow> (h1, volumePlans, diskPlans)
         | Inr (volumePlan, diskPlan) \<Rightarrow>
             (let (h2, r2) = getMountDiskPlan mountRequests h1 in
              case r2 of
                Inl _ \<Rightarrow> (h2, volumePlans, diskPlans)
              | Inr mountDiskPlan \<Rightarrow>
                  normal_loop normalRequests mountRequests bound (volumePlans @ [volumePlan])
                    (diskPlans @ [disks_Add diskPlan mountDiskPlan]) h2))
      else (h, volumePlans, diskPlans))"
  by pat_completeness auto
termination
  by (relation "measure (\<lambda>(_, _, bound, volumePlans, _). nat (bound - int (length volumePlans)))") auto

declare normal_loop.simps [simp del]

definition getNormalPlans :: "VolumeBindings \<Rightarrow> VolumeBindings \<Rightarrow> int \<Rightarrow> host \<Rightarrow>
    host \<times> (VolumePlan list \<times> Disks list) res" where
  "getNormalPlans normalRequests mountRequests bound h =
     (if normalRequests = [] \<and> \<not> anyRequireIOPS mountRequests then (h, emptyPlans h)
      else if normalRequests = [] then getMountOnlyPlans mountRequests bound h
      else let (h1, volumePlans, diskPlans) = normal_loop normalRequests mountRequests bound [] [] h
        in (h1, Inr (volumePlans, diskPlans)))"

function normal_count :: "VolumeBindings \<Rightarrow> VolumeBindings \<Rightarrow> int \<Rightarrow> int \<Rightarrow> host \<Rightarrow> host \<times> int" where
  "normal_count normalRequests mountRequests bound capacity h =
     (if capacity < bound then
        (let (h1, r) = getNormalPlan normalRequests h in
         case r of
           Inl _ \<Rightarrow> (h1, capacity)
         | Inr _ \<Rightarrow>
             (let (h2, r2) = getMountDiskPlan mountRequests h1 in
              case r2 of
                Inl _ \<Rightarrow> (h2, capacity)
              | Inr _ \<Rightarrow> normal_count normalRequests mountRequests bound (capacity + 1) h2))
      else (h, capacity))"
  by pat_completeness auto
termination
  by (relation "measure (\<lambda>(_, _, bound, capacity, _). nat (bound - capacity))") auto

declare normal_count.simps [simp del]

definition countNormalPlans :: "VolumeBindings \<Rightarrow> VolumeBindings \<Rightarrow> int \<Rightarrow> host \<Rightarrow> host \<times> int res" where
  "countNormalPlans normalRequests mountRequests bound h =
     (if normalRequests = [] \<and> \<not> anyRequireIOPS mountRequests then (h, Inr (maxDeployCount h))
      else if normalRequests = [] then
        (let (h1, r) = applyMountPasses mountRequests bound h
         in (h1, bind_res r (\<lambda>(capacity, _). Inr capacity)))
      else let (h1, capacity) = normal_count normalRequests mountRequests bound 0 h in (h1, Inr capacity))"

section \<open>Unlimited requests\<close>

text \<open>\<open>volumeMap[device].size -= n\<close>: the map holds the last volume of each device.\<close>

definition take_size :: "volume list \<Rightarrow> string \<times> i64 \<Rightarrow> volume list res" where
  "take_size vols dn =
     (case index_of (\<lambda>v. vdevice v = fst dn) (rev vols) of
        None \<Rightarrow> Inl ErrPanic
      | Some j \<Rightarrow> let i = length vols - Suc j; v = vols ! i
          in Inr (vols[i := Volume (vdevice v) (vsize v - snd dn)]))"

fun take_sizes :: "volume list \<Rightarrow> (string \<times> i64) list \<Rightarrow> volume list res" where
  "take_sizes vols [] = Inr vols"
| "take_sizes vols (dn # dns) = bind_res (take_size vols dn) (\<lambda>vols'. take_sizes vols' dns)"

definition plan_sizes :: "VolumePlan \<Rightarrow> (string \<times> i64) list" where
  "plan_sizes plan = map (\<lambda>(_, vm). (GetDevice vm, GetSize vm)) plan"

definition getUnlimitedPlans :: "VolumePlan list \<Rightarrow> VolumePlan list \<Rightarrow> VolumeBindings \<Rightarrow> int \<Rightarrow> host \<Rightarrow>
    VolumePlan list res" where
  "getUnlimitedPlans normalPlans monoPlans unlimitedRequests capacity h =
     (if unlimitedRequests = [] then repeatWith capacity []
      else case usedVolumes h @ unusedVolumes h of
        [] \<Rightarrow> Inl ErrInsufficientResource
      | allVolumes \<Rightarrow>
          bind_res (take_sizes allVolumes (concat (map plan_sizes (normalPlans @ monoPlans)))) (\<lambda>vols.
            let volumeWithLargestSize = max_by vsize (hd vols) (tl vols)
            in repeatWith capacity
                 (map (\<lambda>req. (req, [(vdevice volumeWithLargestSize, SizeInBytes req)])) unlimitedRequests)))"

section \<open>All classes\<close>

definition normalBound :: "requestClasses \<Rightarrow> host \<Rightarrow> int" where
  "normalBound classes h =
     (if mono_class classes = [] then maxDeployCount h
      else if \<not> anyRequireIOPS (mono_class classes) \<or>
          (\<not> anyRequireIOPS (normal_class classes) \<and> \<not> anyRequireIOPS (mount_class classes))
        then max (maxDeployCount h) (int (length (unusedVolumes h)) + 1)
      else MaxInt)"

text \<open>
  \<open>promote\<close>: while monopoly plans outnumber normal ones, the smallest unused volume a normal
  request fits on is opened for normal requests. \<open>evaluate\<close> gives the two capacities and what it
  computed on the way.
\<close>

function promote_loop :: "(host \<Rightarrow> (int \<times> int \<times> 'b) res) \<Rightarrow> i64 \<Rightarrow> host \<Rightarrow> int \<times> int \<times> 'b \<Rightarrow>
    (host \<times> int \<times> int \<times> 'b) res" where
  "promote_loop evaluate minSize h (normalCapacity, monoCapacity, b) =
     (if normalCapacity < monoCapacity \<and> normalCapacity < maxDeployCount h then
        (let p = BinarySearch (\<lambda>v. vsize v < minSize) (unusedVolumes h) in
         if length (unusedVolumes h) \<le> p then Inr (h, normalCapacity, monoCapacity, b)
         else let v = unusedVolumes h ! p;
                  h1 = h\<lparr>unusedVolumes := delete_at p (unusedVolumes h), usedVolumes := usedVolumes h @ [v]\<rparr>
           in case evaluate h1 of
                Inl e \<Rightarrow> Inl e
              | Inr r \<Rightarrow> promote_loop evaluate minSize h1 r)
      else Inr (h, normalCapacity, monoCapacity, b))"
  by pat_completeness auto
termination
  by (relation "measure (\<lambda>(_, _, h, _). length (unusedVolumes h))") (auto simp: delete_at_def Let_def)

declare promote_loop.simps [simp del]

definition promote :: "VolumeBindings \<Rightarrow> (host \<Rightarrow> (int \<times> int \<times> 'b) res) \<Rightarrow> host \<Rightarrow>
    (host \<times> int \<times> int \<times> 'b) res" where
  "promote normalRequests evaluate h =
     (let minNormalRequestSize = (case normalRequests of [] \<Rightarrow> of_val MaxInt | r # _ \<Rightarrow> SizeInBytes r)
      in bind_res (evaluate h) (\<lambda>r. promote_loop evaluate minNormalRequestSize h r))"

text \<open>The closures handed to \<open>promote\<close>: both work on a clone of the host.\<close>

definition evaluate_plans :: "requestClasses \<Rightarrow> int \<Rightarrow> host \<Rightarrow>
    (int \<times> int \<times> (VolumePlan list \<times> Disks list) \<times> (VolumePlan list \<times> Disks list)) res" where
  "evaluate_plans classes bound h =
     (let (scratch, nr) = getNormalPlans (normal_class classes) (mount_class classes) bound (clone h) in
      bind_res nr (\<lambda>(normalVolumePlans, normalDiskPlans).
        let monoBound = (if unlimited_class classes = []
              then max (maxDeployCount h) (int (length normalVolumePlans) + 1) else MaxInt)
        in bind_res (snd (getMonoPlans (mono_class classes) monoBound scratch))
             (\<lambda>(monoVolumePlans, monoDiskPlans).
               Inr (int (length normalVolumePlans), int (length monoVolumePlans),
                    (normalVolumePlans, normalDiskPlans), (monoVolumePlans, monoDiskPlans)))))"

definition evaluate_counts :: "requestClasses \<Rightarrow> int \<Rightarrow> host \<Rightarrow> (int \<times> int \<times> unit) res" where
  "evaluate_counts classes bound h =
     (let (scratch, nr) = countNormalPlans (normal_class classes) (mount_class classes) bound (clone h) in
      bind_res nr (\<lambda>normalCapacity.
        Inr (normalCapacity,
          countMonoPlans (mono_class classes) (max (maxDeployCount h) (normalCapacity + 1)) scratch, ())))"

definition getVolumePlans :: "VolumeBindings \<Rightarrow> host \<Rightarrow> (VolumePlan list \<times> Disks list) res" where
  "getVolumePlans requests h =
     (if \<not> NeedSchedule requests then emptyPlans h
      else let classes = classifyVolumeBindings requests in
        if 0 < length (normal_class classes) + length (mono_class classes) + length (unlimited_class classes) \<and>
           length (unusedVolumes h) + length (usedVolumes h) = 0
        then Inr ([], [])
        else bind_res (promote (normal_class classes) (evaluate_plans classes (normalBound classes h)) h)
          (\<lambda>(h1, normalCapacity, monoCapacity, (normalVolumePlans, normalDiskPlans),
              (monoVolumePlans, monoDiskPlans)).
            let bestCapacity = min (min normalCapacity monoCapacity) (maxDeployCount h1) in
            case getUnlimitedPlans normalVolumePlans monoVolumePlans (unlimited_class classes) bestCapacity h1 of
              Inl e \<Rightarrow> if e = ErrPanic then Inl e else Inr ([], [])
            | Inr unlimitedVolumePlans \<Rightarrow>
                if bestCapacity < 0 then Inl ErrPanic
                else Inr
                  (map (\<lambda>i. plan_Merge (plan_Merge (normalVolumePlans ! i) (monoVolumePlans ! i))
                       (unlimitedVolumePlans ! i)) [0..<nat bestCapacity],
                   map (\<lambda>i. disks_Add (normalDiskPlans ! i) (monoDiskPlans ! i)) [0..<nat bestCapacity])))"

definition getVolumeCapacity :: "VolumeBindings \<Rightarrow> host \<Rightarrow> int res" where
  "getVolumeCapacity requests h =
     (if \<not> NeedSchedule requests then Inr (maxDeployCount h)
      else let classes = classifyVolumeBindings requests in
        if 0 < length (normal_class classes) + length (mono_class classes) + length (unlimited_class classes) \<and>
           length (unusedVolumes h) + length (usedVolumes h) = 0
        then Inr 0
        else bind_res (promote (normal_class classes) (evaluate_counts classes (normalBound classes h)) h)
          (\<lambda>(h1, normalCapacity, monoCapacity, _).
            Inr (min (min normalCapacity monoCapacity) (maxDeployCount h1))))"

definition GetVolumePlans :: "NodeResourceInfo \<Rightarrow> VolumeBindings \<Rightarrow> int \<Rightarrow> (VolumePlan list \<times> Disks list) res" where
  "GetVolumePlans resourceInfo volumeRequest maxCount = getVolumePlans volumeRequest (newHost resourceInfo maxCount)"

definition GetVolumeCapacity :: "NodeResourceInfo \<Rightarrow> VolumeBindings \<Rightarrow> int \<Rightarrow> int res" where
  "GetVolumeCapacity resourceInfo volumeRequest maxCount =
     getVolumeCapacity volumeRequest (newHost resourceInfo maxCount)"

end
