(* ===== verification/Affinity.thy ===== *)
theory Affinity
  imports Schedule
begin

text \<open>
  \<open>storage/schedule\<close>: \<open>GetAffinityPlan\<close>, which reallocates a workload and keeps every binding on
  the device it is on. The map \<open>originVolumePlan\<close> is the list of its entries in the order the loops
  meet them; the affinity maps, which the function builds, are met in the orders \<open>ord\<close>: the normal
  requests in \<open>ord 2\<close>, the monopoly requests in \<open>ord 3\<close>, those of unlimited size in \<open>ord 4\<close>.
\<close>

definition getVolumeByDevice :: "string \<Rightarrow> host \<Rightarrow> volume option" where
  "getVolumeByDevice device h =
     (case index_of (\<lambda>v. vdevice v = device) (usedVolumes h) of
        Some i \<Rightarrow> Some (usedVolumes h ! i)
      | None \<Rightarrow>
          (case index_of (\<lambda>v. vdevice v = device) (unusedVolumes h) of
             Some i \<Rightarrow> Some (unusedVolumes h ! i)
           | None \<Rightarrow> None))"

text \<open>Writing through the pointer \<open>getVolumeByDevice\<close> returned.\<close>

definition set_volume :: "string \<Rightarrow> volume \<Rightarrow> host \<Rightarrow> host" where
  "set_volume device v h =
     (case index_of (\<lambda>v. vdevice v = device) (usedVolumes h) of
        Some i \<Rightarrow> h\<lparr>usedVolumes := (usedVolumes h)[i := v]\<rparr>
      | None \<Rightarrow>
          (case index_of (\<lambda>v. vdevice v = device) (unusedVolumes h) of
             Some i \<Rightarrow> h\<lparr>unusedVolumes := (unusedVolumes h)[i := v]\<rparr>
           | None \<Rightarrow> h))"

definition change_size :: "volume \<Rightarrow> i64 \<Rightarrow> volume" where
  "change_size v d = Volume (vdevice v) (vsize v + d)"

text \<open>The first loop: the quota of the mounts the workload had goes back to their disks.\<close>

fun release_mounts :: "VolumeBindings \<Rightarrow> host \<Rightarrow> host \<times> goerr option" where
  "release_mounts [] h = (h, None)"
| "release_mounts (req # reqs) h =
     (if \<not> RequireIOPS req then release_mounts reqs h
      else let (disk, h1) = getDiskByPath h (Source req) in
        case disk of
          None \<Rightarrow> (h1, Some ErrInvalidVolume)
        | Some i \<Rightarrow> release_mounts reqs (update_disk i (increaseIOPSQuota req) h1))"

text \<open>The second loop: so does what its plan held of volumes and disks.\<close>

fun release_plan :: "VolumePlan \<Rightarrow> host \<Rightarrow> host \<times> goerr option" where
  "release_plan [] h = (h, None)"
| "release_plan ((req, volumeMap) # plan) h =
     (case getVolumeByDevice (GetDevice volumeMap) h of
        None \<Rightarrow> (h, Some ErrInvalidVolume)
      | Some volume \<Rightarrow>
          (let h1 = set_volume (GetDevice volumeMap) (change_size volume (GetSize volumeMap)) h in
           if \<not> RequireIOPS req then release_plan plan h1
           else let (disk, h2) = getDiskByPath h1 (vdevice volume) in
             case disk of
               None \<Rightarrow> (h2, Some ErrInvalidVolume)
             | Some i \<Rightarrow> release_plan plan (update_disk i (increaseIOPSQuota req) h2)))"

text \<open>\<open>commonProcess\<close>: the requests that have a device already stay on it.\<close>

fun affinity_loop :: "VolumePlan \<Rightarrow> VolumePlan \<Rightarrow> Disks \<Rightarrow> host \<Rightarrow> host \<times> (VolumePlan \<times> Disks) res" where
  "affinity_loop [] volumePlan diskPlan h = (h, Inr (volumePlan, diskPlan))"
| "affinity_loop ((req, volumeMap) # affinity) volumePlan diskPlan h =
     (let device = GetDevice volumeMap in
      case getVolumeByDevice device h of
        None \<Rightarrow> (h, Inl ErrPanic)
      | Some volume \<Rightarrow>
          if vsize volume < SizeInBytes req then (h, Inl ErrInsufficientResource)
          else let h1 = set_volume device (change_size volume (- SizeInBytes req)) h;
                   volumePlan' = plan_Merge volumePlan [(req, [(vdevice volume, SizeInBytes req)])]
            in if \<not> RequireIOPS req then affinity_loop affinity volumePlan' diskPlan h1
               else let (disk, h2) = getDiskByPath h1 device in
                 if \<not> isDiskIOPSQuotaQualified (disk_at h2 disk) req then (h2, Inl ErrInsufficientResource)
                 else (case disk of
                     None \<Rightarrow> (h2, Inl ErrPanic)
                   | Some i \<Rightarrow>
                       let h3 = update_disk i (decreaseIOPSQuota req) h2
                       in affinity_loop affinity volumePlan'
                            (disks_Add diskPlan [DiskQuota req (hdisks h3 ! i)]) h3))"

definition commonProcess :: "nat \<Rightarrow> VolumeBindings \<Rightarrow> VolumePlan \<Rightarrow> VolumePlan \<Rightarrow> Disks \<Rightarrow> VolumeBindings \<Rightarrow> host \<Rightarrow>
    host \<times> (VolumePlan \<times> Disks \<times> VolumeBindings) res" where
  "commonProcess k requests originVolumePlan volumePlan diskPlan needReschedule h =
     (let (affinity, nonAffinity) = classifyAffinityRequests k requests originVolumePlan;
          (h1, r) = affinity_loop affinity volumePlan diskPlan h
      in (h1, bind_res r (\<lambda>(volumePlan', diskPlan').
            Inr (volumePlan', diskPlan', needReschedule @ nonAffinity))))"

definition mono_origin_size :: "VolumePlan \<Rightarrow> i64" where
  "mono_origin_size originVolumePlan =
     foldl (\<lambda>s (req, volumeMap). if RequireScheduleMonopoly req then s + GetSize volumeMap else s)
       0 originVolumePlan"

text \<open>The loop over \<open>affinity\<close> leaves at its first round: the volume of the entry met first is taken.\<close>

definition getMonoAffinityPlan :: "VolumeBindings \<Rightarrow> VolumePlan \<Rightarrow> VolumePlan \<Rightarrow> host \<Rightarrow>
    host \<times> (VolumePlan \<times> Disk option) res" where
  "getMonoAffinityPlan monoRequests affinity originVolumePlan h =
     (if mono_origin_size originVolumePlan < TotalSize monoRequests then (h, Inl ErrInsufficientResource)
      else case affinity of
        [] \<Rightarrow> (h, Inl ErrPanic)
      | (_, volumeMap) # _ \<Rightarrow>
          (case getVolumeByDevice (GetDevice volumeMap) h of
             None \<Rightarrow> (h, Inl ErrInvalidVolume)
           | Some volume \<Rightarrow>
               let (h1, volume', r) = getMonoPlan monoRequests volume h
               in (set_volume (GetDevice volumeMap) volume' h1, r)))"

text \<open>The monopoly requests: all of them stay on the volume, or all are scheduled anew.\<close>

definition process_mono :: "nat \<Rightarrow> VolumeBindings \<Rightarrow> VolumePlan \<Rightarrow> VolumePlan \<Rightarrow> Disks \<Rightarrow> VolumeBindings \<Rightarrow> host \<Rightarrow>
    host \<times> (VolumePlan \<times> Disks \<times> VolumeBindings) res" where
  "process_mono k monoRequests originVolumePlan volumePlan diskPlan needReschedule h =
     (let (affinity, nonAffinity) = classifyAffinityRequests k monoRequests originVolumePlan in
      if affinity = [] then (h, Inr (volumePlan, diskPlan, needReschedule @ nonAffinity))
      else let (h1, r) = getMonoAffinityPlan monoRequests affinity originVolumePlan h
        in (h1, bind_res r (\<lambda>(monoVolumePlan, monoDiskPlan).
              Inr (plan_Merge volumePlan monoVolumePlan,
                   (case monoDiskPlan of None \<Rightarrow> diskPlan | Some d \<Rightarrow> disks_Add diskPlan [d]),
                   needReschedule))))"

text \<open>Running the rest of a function on the host an operation left.\<close>

definition bind_host :: "host \<times> 'a res \<Rightarrow> ('a \<Rightarrow> host \<Rightarrow> 'b res) \<Rightarrow> 'b res" where
  "bind_host hr f = bind_res (snd hr) (\<lambda>x. f x (fst hr))"

definition err_res :: "host \<times> goerr option \<Rightarrow> host \<times> unit res" where
  "err_res he = (fst he, case snd he of None \<Rightarrow> Inr () | Some e \<Rightarrow> Inl e)"

definition getAffinityPlan :: "order \<Rightarrow> VolumeBindings \<Rightarrow> VolumePlan \<Rightarrow> VolumeBindings \<Rightarrow> host \<Rightarrow>
    (VolumePlan \<times> Disks) res" where
  "getAffinityPlan ord requests originVolumePlan originRequests h =
     (if \<not> NeedSchedule requests then Inr ([], [])
      else
        bind_host (err_res (release_mounts (mount_class (classifyVolumeBindings originRequests)) h)) (\<lambda>_ h1.
        let classes = classifyVolumeBindings requests in
        bind_host (err_res (release_plan originVolumePlan h1)) (\<lambda>_ h2.
        bind_host (getMountDiskPlan (mount_class classes) h2) (\<lambda>mountDiskPlan h3.
        bind_host (commonProcess (ord 2) (normal_class classes) originVolumePlan [] (disks_Add [] mountDiskPlan) [] h3)
          (\<lambda>(volumePlan, diskPlan, needReschedule) h4.
        bind_host (process_mono (ord 3) (mono_class classes) originVolumePlan volumePlan diskPlan needReschedule h4)
          (\<lambda>(volumePlan, diskPlan, needReschedule) h5.
        bind_host (commonProcess (ord 4) (unlimited_class classes) originVolumePlan volumePlan diskPlan needReschedule h5)
          (\<lambda>(volumePlan, diskPlan, needReschedule) h6.
        if needReschedule = [] then Inr (volumePlan, diskPlan)
        else bind_res (getVolumePlans needReschedule h6) (\<lambda>(volumePlans, diskPlans).
          case (volumePlans, diskPlans) of
            (vp # _, dp # _) \<Rightarrow> Inr (plan_Merge volumePlan vp, disks_Add diskPlan dp)
          | (_ # _, []) \<Rightarrow> Inl ErrPanic
          | ([], _) \<Rightarrow> Inl ErrInsufficientResource))))))))"

definition GetAffinityPlan :: "order \<Rightarrow> NodeResourceInfo \<Rightarrow> VolumeBindings \<Rightarrow> VolumePlan \<Rightarrow> VolumeBindings \<Rightarrow>
    (VolumePlan \<times> Disks) res" where
  "GetAffinityPlan ord resourceInfo volumeRequest originVolumePlan originVolumeRequest =
     getAffinityPlan ord volumeRequest originVolumePlan originVolumeRequest (newHost resourceInfo 1)"

end
