(* ===== verification/Host.thy ===== *)
theory Host
  imports Schedule Disk_Props
begin

text \<open>
  What no scheduling step changes of a host: the deploy count, the devices it has, which disks
  there are and where they are mounted. Hence a disk once resolved for a path stays the right one.
\<close>

section \<open>Layout and cache\<close>

definition layout :: "host \<Rightarrow> (string \<times> string list) list" where
  "layout h = map (\<lambda>d. (Device d, Mounts d)) (hdisks h)"

definition cache_ok :: "host \<Rightarrow> bool" where
  "cache_ok h \<longleftrightarrow> (\<forall>path disk. map_of (diskByPath h) path = Some disk \<longrightarrow> disk = GetDiskByPath (hdisks h) path)"

lemma best_of_disks_mounts:
  "map Mounts d = map Mounts d' \<Longrightarrow> best_of_disks path i d acc = best_of_disks path i d' acc"
proof (induction d arbitrary: d' i acc)
  case (Cons x d)
  then obtain y e where "d' = y # e" "Mounts x = Mounts y" "map Mounts d = map Mounts e"
    by (cases d') simp_all
  with Cons.IH [of e] show ?case by simp
qed simp

lemma GetDiskByPath_mounts: "map Mounts d = map Mounts d' \<Longrightarrow> GetDiskByPath d path = GetDiskByPath d' path"
  unfolding GetDiskByPath_def by (metis best_of_disks_mounts)

lemma layout_eqD:
  assumes "layout h' = layout h"
  shows "map Mounts (hdisks h') = map Mounts (hdisks h)" "map Device (hdisks h') = map Device (hdisks h)"
    "length (hdisks h') = length (hdisks h)"
proof -
  have "map snd (layout h') = map snd (layout h)" "map fst (layout h') = map fst (layout h)"
    "length (layout h') = length (layout h)"
    using assms by simp_all
  then show "map Mounts (hdisks h') = map Mounts (hdisks h)" "map Device (hdisks h') = map Device (hdisks h)"
    "length (hdisks h') = length (hdisks h)"
    by (simp_all add: layout_def comp_def)
qed

lemma layout_path: "layout h' = layout h \<Longrightarrow> GetDiskByPath (hdisks h') path = GetDiskByPath (hdisks h) path"
  by (rule GetDiskByPath_mounts) (rule layout_eqD)

lemma layout_update_disk:
  assumes "\<And>d. Device (f d) = Device d" "\<And>d. Mounts (f d) = Mounts d"
  shows "layout (update_disk i f h) = layout h"
  by (cases "i < length (hdisks h)")
    (auto simp: layout_def update_disk_def map_update assms intro!: nth_equalityI simp: nth_list_update)

lemma decrease_layout [simp]:
  "Device (decreaseIOPSQuota req d) = Device d" "Mounts (decreaseIOPSQuota req d) = Mounts d"
  "Device (increaseIOPSQuota req d) = Device d" "Mounts (increaseIOPSQuota req d) = Mounts d"
  "Device (decrease_times n req d) = Device d" "Mounts (decrease_times n req d) = Mounts d"
  by (simp_all add: decreaseIOPSQuota_def increaseIOPSQuota_def decrease_times_def)

section \<open>The four quotas of a request\<close>

fun bquota :: "VolumeBinding \<Rightarrow> quota_kind \<Rightarrow> i64" where
  "bquota r RIOPS = ReadIOPS r"
| "bquota r WIOPS = WriteIOPS r"
| "bquota r RBPS = ReadBPS r"
| "bquota r WBPS = WriteBPS r"

lemma quota_decrease [simp]: "quota (decreaseIOPSQuota req d) k = quota d k - bquota req k"
  by (cases k) (simp_all add: decreaseIOPSQuota_def)

lemma quota_decrease_times [simp]: "quota (decrease_times n s d) k = quota d k - of_int n * bquota s k"
  by (cases k) (simp_all add: decrease_times_def of_val_eq_of_int)

lemma bquota_AddQuota [simp]: "bquota (AddQuota s r) k = bquota s k + bquota r k"
  by (cases k) (simp_all add: AddQuota_def)

lemma bquota_empty [simp]: "bquota empty_binding k = 0"
  by (cases k) (simp_all add: empty_binding_def)

lemma qualified_iff: "isDiskIOPSQuotaQualified (Some d) req \<longleftrightarrow> (\<forall>k. bquota req k \<le> quota d k)"
  by (auto simp: isDiskIOPSQuotaQualified_def all_quota_kind)

lemma ValidIO_iff: "ValidIOParameters r \<longleftrightarrow> (\<forall>k. 0 \<le> bquota r k)"
  by (auto simp: ValidIOParameters_def all_quota_kind)

lemma RequireIOPS_iff: "RequireIOPS r \<longleftrightarrow> (\<exists>k. 0 < bquota r k)"
  using all_quota_kind [of "\<lambda>k. \<not> 0 < bquota r k"] by (auto simp: RequireIOPS_def)

lemma DiskQuota_cong: "Device d = Device d' \<Longrightarrow> Mounts d = Mounts d' \<Longrightarrow> DiskQuota r d = DiskQuota r d'"
  by (simp add: DiskQuota_def)

lemma DiskQuota_decrease [simp]: "DiskQuota r (decreaseIOPSQuota r' d) = DiskQuota r d"
  by (simp add: DiskQuota_def)

section \<open>The frame of a step\<close>

text \<open>
  \<open>frame h h'\<close>: everything but the amounts, the cache and the order of the used volumes is as
  it was, and what the cache holds is as right as it was.
\<close>

definition frame :: "host \<Rightarrow> host \<Rightarrow> bool" where
  "frame h h' \<longleftrightarrow> maxDeployCount h' = maxDeployCount h \<and> unusedVolumes h' = unusedVolumes h \<and>
     mset (map vdevice (usedVolumes h')) = mset (map vdevice (usedVolumes h)) \<and>
     layout h' = layout h \<and> (cache_ok h \<longrightarrow> cache_ok h')"

lemma frame_refl [simp, intro]: "frame h h"
  by (simp add: frame_def)

lemma frame_trans [trans]: "frame h h1 \<Longrightarrow> frame h1 h2 \<Longrightarrow> frame h h2"
  by (simp add: frame_def)

lemma frame_update_disk:
  assumes "\<And>d. Device (f d) = Device d" "\<And>d. Mounts (f d) = Mounts d"
  shows "frame h (update_disk i f h)"
proof -
  note lay = layout_update_disk [OF assms, of i h]
  have "cache_ok (update_disk i f h)" if "cache_ok h"
    using that layout_path [OF lay] by (simp add: cache_ok_def update_disk_def)
  with lay show ?thesis by (simp add: frame_def) (simp add: update_disk_def)
qed

lemma getDiskByPath_fields:
  assumes "getDiskByPath h path = (disk, h')"
  shows "maxDeployCount h' = maxDeployCount h" "usedVolumes h' = usedVolumes h"
    "unusedVolumes h' = unusedVolumes h" "hdisks h' = hdisks h"
    "cache_ok h \<Longrightarrow> cache_ok h'" "cache_ok h \<Longrightarrow> disk = GetDiskByPath (hdisks h) path"
  using assms by (auto simp: getDiskByPath_def cache_ok_def Let_def split: option.splits if_splits)

lemma frame_getDiskByPath: "getDiskByPath h path = (disk, h') \<Longrightarrow> frame h h'"
  using getDiskByPath_fields [of h path disk h'] by (simp add: frame_def layout_def)

lemma frame_used: "mset (map vdevice vs) = mset (map vdevice (usedVolumes h)) \<Longrightarrow> frame h (h\<lparr>usedVolumes := vs\<rparr>)"
  by (simp add: frame_def layout_def cache_ok_def)

section \<open>Scanning the heap\<close>

text \<open>The state of the scan: nothing but the cache of the host changes, and no volume is lost.\<close>

lemma pop_fit_frame:
  assumes "pop_fit req vh toPush h = (h', vh', toPush', found)" "is_heap vh"
  shows "frame h h'" "hdisks h' = hdisks h" "usedVolumes h' = usedVolumes h" "is_heap vh'"
    "mset vh + mset toPush = mset vh' + mset toPush' +
       (case found of None \<Rightarrow> {#} | Some (v, disk) \<Rightarrow> {#v#})"
proof -
  have "frame h h' \<and> hdisks h' = hdisks h \<and> usedVolumes h' = usedVolumes h \<and> is_heap vh' \<and>
    mset vh + mset toPush = mset vh' + mset toPush' +
       (case found of None \<Rightarrow> {#} | Some (v, disk) \<Rightarrow> {#v#})"
    using assms
  proof (induction req vh toPush h rule: pop_fit.induct)
    case (1 req vh toPush h)
    show ?case
    proof (cases "vh = []")
      case True
      with "1.prems" show ?thesis by (simp add: pop_fit.simps)
    next
      case False
      obtain v vh1 where v: "heap_Pop vh = (v, vh1)" by fastforce
      obtain disk h1 where d: "getDiskByPath h (vdevice v) = (disk, h1)" by fastforce
      have heap: "is_heap vh1" "add_mset v (mset vh1) = mset vh"
        using heap_queue.pop_ok [OF "1.prems"(2) False] heap_queue.pop_mset [OF "1.prems"(2) False]
        by (simp_all add: v)
      show ?thesis
      proof (cases "vsize v < SizeInBytes req \<or> \<not> isDiskIOPSQuotaQualified (disk_at h1 disk) req")
        case True
        from "1.IH" [OF False v [symmetric] refl d [symmetric] refl True _ heap(1)]
        show ?thesis
          using "1.prems"(1) False v d True heap(2) frame_getDiskByPath [OF d] getDiskByPath_fields [OF d]
          by (auto simp: pop_fit.simps [of req vh] elim: frame_trans simp flip: heap(2))
      next
        case False
        then show ?thesis
          using "1.prems"(1) \<open>vh \<noteq> []\<close> v d heap frame_getDiskByPath [OF d] getDiskByPath_fields [OF d]
          by (auto simp: pop_fit.simps [of req vh] simp flip: heap(2))
      qed
    qed
  qed
  then show "frame h h'" "hdisks h' = hdisks h" "usedVolumes h' = usedVolumes h" "is_heap vh'"
    "mset vh + mset toPush = mset vh' + mset toPush' +
       (case found of None \<Rightarrow> {#} | Some (v, disk) \<Rightarrow> {#v#})"
    by simp_all
qed

section \<open>Every operation of a scratch host keeps the frame\<close>

lemma mset_devices: "mset xs = mset ys \<Longrightarrow> mset (map vdevice xs) = mset (map vdevice ys)"
  by simp

lemma alloc_normal_frame:
  assumes "alloc_normal req vh diskPlan h = (h', vh', r)" "is_heap vh"
  shows "frame h h' \<and> usedVolumes h' = usedVolumes h \<and> is_heap vh' \<and>
    mset (map vdevice vh') = mset (map vdevice vh)"
proof -
  obtain h1 vh1 toPush found where fit: "pop_fit req vh [] h = (h1, vh1, toPush, found)"
    by (metis prod_cases4)
  note pf = pop_fit_frame [OF fit assms(2)]
  let ?push = "\<lambda>vs. fold heap_Push vs vh1"
  have push: "is_heap (?push vs)" "mset (?push vs) = mset vh1 + mset vs" for vs
    using pf(4) by (simp_all add: heap_queue.fold_push_ok heap_queue.fold_push_mset)
  show ?thesis
  proof (cases found)
    case None
    with assms(1) fit pf push [of toPush] show ?thesis by (auto simp: alloc_normal_def)
  next
    case (Some vd)
    obtain v disk where vd: "vd = (v, disk)" by fastforce
    let ?v = "Volume (vdevice v) (vsize v - SizeInBytes req)"
    have "image_mset vdevice (mset vh) = image_mset vdevice (mset vh1 + mset toPush + {#v#})"
      using pf(5) Some vd by simp
    then have "mset (map vdevice (?push (toPush @ [?v]))) = mset (map vdevice vh)"
      using push(2) [of "toPush @ [?v]"] by simp
    moreover have "h' = h1 \<or> (\<exists>i. h' = update_disk i (decreaseIOPSQuota req) h1)"
      "vh' = ?push (toPush @ [?v])"
      using assms(1) by (auto simp: alloc_normal_def fit Some vd Let_def split: if_splits option.splits)
    moreover have "usedVolumes (update_disk i f h1) = usedVolumes h1" for i f
      by (simp add: update_disk_def)
    ultimately show ?thesis
      using pf push(1) frame_update_disk [of "decreaseIOPSQuota req" h1]
      by (metis decrease_layout(1,2) frame_trans)
  qed
qed

lemma normal_reqs_frame:
  assumes "normal_reqs reqs vh volumePlan diskPlan h = (h', vh', r)" "is_heap vh"
  shows "frame h h' \<and> usedVolumes h' = usedVolumes h \<and> is_heap vh' \<and>
    mset (map vdevice vh') = mset (map vdevice vh)"
  using assms
proof (induction reqs arbitrary: vh volumePlan diskPlan h)
  case (Cons req reqs)
  obtain h1 vh1 r1 where a: "alloc_normal req vh diskPlan h = (h1, vh1, r1)" by (metis prod_cases3)
  note fr = alloc_normal_frame [OF a Cons.prems(2)]
  show ?case
  proof (cases r1)
    case (Inr x)
    obtain vm dp where x: "x = (vm, dp)" by fastforce
    have "normal_reqs reqs vh1 (volumePlan @ [(req, vm)]) dp h1 = (h', vh', r)"
      using Cons.prems(1) a Inr x by simp
    from Cons.IH [OF this] fr show ?thesis by (auto elim: frame_trans)
  qed (use Cons.prems a fr in auto)
qed auto

lemma getNormalPlan_frame:
  assumes "getNormalPlan reqs h = (h', r)"
  shows "frame h h'"
proof -
  obtain h1 vh r1 where n: "normal_reqs reqs (heap_Init (usedVolumes h)) [] [] h = (h1, vh, r1)"
    by (metis prod_cases3)
  have fr: "frame h h1" "usedVolumes h1 = usedVolumes h"
    "mset (map vdevice vh) = mset (map vdevice (heap_Init (usedVolumes h)))"
    using normal_reqs_frame [OF n heap_Init_spec(1)] by simp_all
  have "mset (map vdevice vh) = mset (map vdevice (usedVolumes h1))"
    using fr mset_devices [OF heap_Init_spec(2), of "usedVolumes h"] by simp
  from frame_used [OF this] fr(1) show ?thesis
    using assms n by (auto simp: getNormalPlan_def elim: frame_trans)
qed

lemma mount_disk_loop_frame:
  "mount_disk_loop reqs diskPlan h = (h', r) \<Longrightarrow> frame h h' \<and> usedVolumes h' = usedVolumes h"
proof (induction reqs diskPlan h rule: mount_disk_loop.induct)
  case (2 req reqs diskPlan h)
  show ?case
  proof (cases "RequireIOPS req")
    case True
    obtain disk h1 where d: "getDiskByPath h (Source req) = (disk, h1)" by fastforce
    have fr: "frame h h1" "usedVolumes h1 = usedVolumes h"
      using frame_getDiskByPath [OF d] getDiskByPath_fields [OF d] by simp_all
    show ?thesis
    proof (cases "isDiskIOPSQuotaQualified (disk_at h1 disk) req")
      case q: True
      with True obtain i where i: "disk = Some i" by (cases disk) (auto simp: disk_at_def)
      let ?h2 = "update_disk i (decreaseIOPSQuota req) h1"
      have "frame h1 ?h2" "usedVolumes ?h2 = usedVolumes h1"
        by (rule frame_update_disk) (simp_all add: update_disk_def)
      moreover have "frame ?h2 h' \<and> usedVolumes h' = usedVolumes ?h2"
        by (rule "2.IH"(2) [OF _ d [symmetric] refl _ i refl]) (use True q 2(3) d i in \<open>auto simp: Let_def\<close>)
      ultimately show ?thesis using fr by (metis frame_trans)
    qed (use 2(3) d True fr in auto)
  qed (use 2 in auto)
qed auto

lemma getMountDiskPlan_frame: "getMountDiskPlan reqs h = (h', r) \<Longrightarrow> frame h h' \<and> usedVolumes h' = usedVolumes h"
  unfolding getMountDiskPlan_def by (rule mount_disk_loop_frame)

lemma mount_quotas_frame:
  "mount_quotas reqs quotas h = (h', q) \<Longrightarrow> frame h h' \<and> usedVolumes h' = usedVolumes h \<and> hdisks h' = hdisks h"
proof (induction reqs quotas h rule: mount_quotas.induct)
  case (2 req reqs quotas h)
  show ?case
  proof (cases "RequireIOPS req")
    case True
    obtain disk h1 where d: "getDiskByPath h (Source req) = (disk, h1)" by fastforce
    from "2.IH"(2) [OF _ d [symmetric] refl] 2(3) True d
    show ?thesis using frame_getDiskByPath [OF d] getDiskByPath_fields [OF d] by (auto elim: frame_trans)
  qed (use 2 in auto)
qed auto

lemma charge_step_frame: "frame h (charge_step c q h) \<and> usedVolumes (charge_step c q h) = usedVolumes h"
  by (auto simp: charge_step_def update_disk_def split: option.splits
      intro!: frame_update_disk [unfolded update_disk_def])

lemma charge_steps_frame:
  "frame h (fold (charge_step c) quotas h) \<and> usedVolumes (fold (charge_step c) quotas h) = usedVolumes h"
proof (induction quotas arbitrary: h)
  case (Cons q quotas)
  then show ?case using charge_step_frame [of h c q] by (auto elim: frame_trans)
qed simp

lemma applyMountPasses_frame:
  assumes "applyMountPasses reqs bound h = (h', r)"
  shows "frame h h' \<and> usedVolumes h' = usedVolumes h"
proof -
  obtain h1 r1 where m: "getMountDiskPlan reqs h = (h1, r1)" by fastforce
  obtain h2 quotas where q: "mount_quotas reqs [] h1 = (h2, quotas)" by fastforce
  note fr = getMountDiskPlan_frame [OF m] mount_quotas_frame [OF q]
  show ?thesis
  proof (cases "isl r1 \<or> bound < 1 \<or> isl (fold (capacity_step h2) quotas (Inr bound))")
    case True
    then show ?thesis
      using assms m q fr by (auto simp: applyMountPasses_def split: if_splits sum.splits elim: frame_trans)
  next
    case False
    then obtain p c where pc: "r1 = Inr p" "\<not> bound < 1" "fold (capacity_step h2) quotas (Inr bound) = Inr c"
      by (auto simp: isl_def) (metis obj_sumE)
    let ?h3 = "fold (charge_step c) quotas h2"
    obtain h4 r4 where m4: "getMountDiskPlan reqs ?h3 = (h4, r4)" by fastforce
    have "h' = ?h3 \<or> h' = h4"
      using assms by (auto simp: applyMountPasses_def m q pc m4 Let_def)
    then show ?thesis
      using fr charge_steps_frame [of h2 c quotas] getMountDiskPlan_frame [OF m4]
      by (metis frame_trans)
  qed
qed

lemma normal_loop_frame: "normal_loop n m bound vps dps h = (h', vps', dps') \<Longrightarrow> frame h h'"
proof (induction n m bound vps dps h rule: normal_loop.induct)
  case (1 n m bound vps dps h)
  show ?case
  proof (cases "int (length vps) < bound")
    case True
    obtain h1 r where r: "getNormalPlan n h = (h1, r)" by fastforce
    obtain h2 r2 where r2: "getMountDiskPlan m h1 = (h2, r2)" by fastforce
    have fr: "frame h h1" "frame h1 h2"
      using getNormalPlan_frame [OF r] getMountDiskPlan_frame [OF r2] by simp_all
    show ?thesis
    proof (cases "isl r \<or> isl r2")
      case stop: True
      then have "h' = h1 \<or> h' = h2"
        using "1.prems" True r r2 by (subst (asm) normal_loop.simps) (auto split: sum.splits)
      with fr show ?thesis by (metis frame_trans)
    next
      case False
      then obtain vp dp md where p: "r = Inr (vp, dp)" "r2 = Inr md" by (auto simp: isl_def) (metis obj_sumE surj_pair)
      have "frame h2 h'"
        by (rule "1.IH" [OF True refl r [symmetric] p(1) refl refl r2 [symmetric] p(2)])
          (use "1.prems" True r r2 p in \<open>simp add: normal_loop.simps [of n m bound vps]\<close>)
      with fr show ?thesis by (metis frame_trans)
    qed
  qed (use "1.prems" in \<open>simp add: normal_loop.simps\<close>)
qed

lemma getNormalPlans_frame:
  assumes "getNormalPlans n m bound h = (h', r)"
  shows "frame h h'"
proof -
  obtain h1 r1 where a: "applyMountPasses m bound h = (h1, r1)" by fastforce
  obtain h2 vps dps where l: "normal_loop n m bound [] [] h = (h2, vps, dps)" by (metis prod_cases3)
  show ?thesis
    using assms applyMountPasses_frame [OF a] normal_loop_frame [OF l]
    by (auto simp: getNormalPlans_def getMountOnlyPlans_def a l split: if_splits)
qed

end
