(* ===== verification/Samples.thy ===== *)
theory Samples
  imports Schedule
begin

text \<open>A small storage node and requests, on which the theorems of the scheduler are evaluated.\<close>

definition sample_disk :: Disk where
  "sample_disk = \<lparr>Device = ''sda'', Mounts = [''/data''], dReadIOPS = 100, dWriteIOPS = 100,
     dReadBPS = 1000, dWriteBPS = 1000\<rparr>"

text \<open>Three data volumes, one of them in use, on one disk.\<close>

definition sample_info :: NodeResourceInfo where
  "sample_info = \<lparr>
     Capacity = \<lparr>Volumes = [(''/data/0'', 100), (''/data/1'', 60), (''/data/2'', 80)],
       Disks = [sample_disk], Storage = 240\<rparr>,
     Usage = \<lparr>Volumes = [(''/data/0'', 20)], Disks = [], Storage = 20\<rparr>\<rparr>"

definition request :: "string \<Rightarrow> string \<Rightarrow> string \<Rightarrow> i64 \<Rightarrow> i64 \<Rightarrow> VolumeBinding" where
  "request source destination flags sz iops = \<lparr>Source = source, Destination = destination, Flags = flags,
     SizeInBytes = sz, ReadIOPS = iops, WriteIOPS = 0, ReadBPS = 0, WriteBPS = 0\<rparr>"

definition sample_normal :: VolumeBinding where
  "sample_normal = request ''AUTO'' ''/n'' ''rw'' 30 10"

definition sample_mono :: VolumeBinding where
  "sample_mono = request ''AUTO'' ''/m'' ''mrw'' 10 0"

definition sample_unlimited :: VolumeBinding where
  "sample_unlimited = request ''AUTO'' ''/u'' ''rw'' 0 0"

definition sample_mount :: VolumeBinding where
  "sample_mount = request ''/data/x'' ''/x'' ''rw'' 0 30"

lemmas sample_defs = sample_disk_def sample_info_def request_def sample_normal_def sample_mono_def
  sample_unlimited_def sample_mount_def

end
