(* ===== verification/Placement.thy ===== *)
theory Placement
  imports Host Samples
begin

text \<open>
  Where normal requests go: on the smallest volume that fits. The specification keeps the volumes
  in a sorted list and takes the first that fits; the heap of the code refines it.
\<close>

section \<open>Best fit\<close>

definition fits :: "VolumeBinding \<Rightarrow> Disks \<Rightarrow> volume \<Rightarrow> bool" where
  "fits req ds v \<longleftrightarrow> SizeInBytes req \<le> vsize v \<and>
     isDiskIOPSQuotaQualified (map_option ((!) ds) (GetDiskByPath ds (vdevice v))) req"

lemma pop_fit_spec:
  assumes "pop_fit req vh toPush h = (h', vh', toPush', found)" "is_heap vh" "cache_ok h"
  shows "case found of
      None \<Rightarrow> \<forall>u \<in> set vh. \<not> fits req (hdisks h) u
    | Some (v, disk) \<Rightarrow> v \<in> set vh \<and> fits req (hdisks h) v \<and> disk = GetDiskByPath (hdisks h) (vdevice v) \<and>
        (\<forall>u \<in> set vh. fits req (hdisks h) u \<longrightarrow> v \<le> u)"
  using assms
proof (induction req vh toPush h rule: pop_fit.induct)
  case (1 req vh toPush h)
  show ?case
  proof (cases "vh = []")
    case True
    with "1.prems" show ?thesis by (simp add: pop_fit.simps)
  next
    case False
    obtain v vh1 where v: "heap_Pop vh = (v, vh1)" by fastforce
    obtain disk h1 where d: "getDiskByPath h (vdevice v) = (disk, h1)" by fastforce
    note dd = getDiskByPath_fields [OF d]
    have heap: "is_heap vh1" "\<forall>u \<in> set vh. v \<le> u" "v \<in> set vh"
      using heap_queue.pop_ok [OF "1.prems"(2) False] heap_queue.pop_least [OF "1.prems"(2) False]
        heap_queue.pop_fst_in [OF "1.prems"(2) False] by (simp_all add: v)
    have "set vh = insert v (set vh1)"
      using heap_queue.pop_mset [OF "1.prems"(2) False] by (metis v fst_conv snd_conv set_mset_add_mset_insert set_mset_mset)
    moreover have fit: "fits req (hdisks h) v \<longleftrightarrow>
        \<not> (vsize v < SizeInBytes req \<or> \<not> isDiskIOPSQuotaQualified (disk_at h1 disk) req)"
      using dd(4,6) "1.prems"(3) by (auto simp: fits_def disk_at_def)
    ultimately show ?thesis
    proof (cases "fits req (hdisks h) v")
      case True
      with fit "1.prems"(1) False v d have "found = Some (v, disk)"
        by (simp add: pop_fit.simps [of req vh])
      with True heap dd(6) "1.prems"(3) show ?thesis by simp
    next
      case no: False
      then have run: "pop_fit req vh1 (toPush @ [v]) h1 = (h', vh', toPush', found)"
        using fit "1.prems"(1) False v d by (simp add: pop_fit.simps [of req vh])
      have "cache_ok h1" using dd(5) "1.prems"(3) .
      from "1.IH" [OF False v [symmetric] refl d [symmetric] refl _ run heap(1) this] fit no dd(4)
        \<open>set vh = insert v (set vh1)\<close>
      show ?thesis by (auto split: option.splits)
    qed
  qed
qed

text \<open>One request of the specification: the first fitting volume of a sorted list.\<close>

definition charge_volume :: "VolumeBinding \<Rightarrow> volume \<Rightarrow> volume" where
  "charge_volume req v = Volume (vdevice v) (vsize v - SizeInBytes req)"

fun greedy :: "VolumeBindings \<Rightarrow> volume list \<Rightarrow> Disks \<Rightarrow> VolumePlan \<Rightarrow> Disks \<Rightarrow>
    volume list \<times> Disks \<times> (VolumePlan \<times> Disks) res" where
  "greedy [] vs ds volumePlan diskPlan = (vs, ds, Inr (volumePlan, diskPlan))"
| "greedy (req # reqs) vs ds volumePlan diskPlan =
     (case find (fits req ds) vs of
        None \<Rightarrow> (vs, ds, Inl ErrInsufficientResource)
      | Some v \<Rightarrow>
          let vs' = insort (charge_volume req v) (remove1 v vs);
              volumePlan' = volumePlan @ [(req, [(vdevice v, SizeInBytes req)])]
          in (case (RequireIOPS req, GetDiskByPath ds (vdevice v)) of
               (True, Some i) \<Rightarrow> greedy reqs vs' (ds[i := decreaseIOPSQuota req (ds ! i)]) volumePlan'
                   (disks_Add diskPlan [DiskQuota req (ds ! i)])
             | _ \<Rightarrow> greedy reqs vs' ds volumePlan' diskPlan))"

lemma find_least:
  "sorted vs \<Longrightarrow> v \<in> set vs \<Longrightarrow> P v \<Longrightarrow> \<forall>u \<in> set vs. P u \<longrightarrow> v \<le> u \<Longrightarrow> find P vs = Some v"
proof (induction vs)
  case (Cons u vs)
  then show ?case by (auto intro: order_antisym)
qed simp

lemma sort_mset_eq: "mset xs = mset ys \<Longrightarrow> sort xs = sort ys"
  by (rule properties_for_sort) simp_all

lemma sort_charge:
  assumes "mset vh' = mset vh - {#v#} + {#v'#}" "v \<in> set vh"
  shows "sort vh' = insort v' (remove1 v (sort vh))"
proof -
  have "sorted (insort v' (remove1 v (sort vh)))" by (simp add: sorted_insort sorted_remove1)
  moreover have "mset (insort v' (remove1 v (sort vh))) = mset vh'"
    using assms by simp
  ultimately show ?thesis by (metis properties_for_sort)
qed

text \<open>The effect of a request on heap and host, in both outcomes.\<close>

lemma alloc_normal_spec:
  assumes "alloc_normal req vh diskPlan h = (h', vh', r)" "is_heap vh" "cache_ok h"
  shows "case find (fits req (hdisks h)) (sort vh) of
      None \<Rightarrow> r = Inl ErrInsufficientResource \<and> hdisks h' = hdisks h \<and> sort vh' = sort vh
    | Some v \<Rightarrow> sort vh' = insort (charge_volume req v) (remove1 v (sort vh)) \<and>
        (case (RequireIOPS req, GetDiskByPath (hdisks h) (vdevice v)) of
           (True, Some i) \<Rightarrow> hdisks h' = (hdisks h)[i := decreaseIOPSQuota req (hdisks h ! i)] \<and>
             r = Inr ([(vdevice v, SizeInBytes req)], disks_Add diskPlan [DiskQuota req (hdisks h ! i)])
         | _ \<Rightarrow> hdisks h' = hdisks h \<and> r = Inr ([(vdevice v, SizeInBytes req)], diskPlan))"
proof -
  obtain h1 vh1 toPush found where fit: "pop_fit req vh [] h = (h1, vh1, toPush, found)"
    by (metis prod_cases4)
  note pf = pop_fit_frame [OF fit assms(2)] and spec = pop_fit_spec [OF fit assms(2,3)]
  have push: "mset (fold heap_Push vs vh1) = mset vh1 + mset vs" for vs
    using pf(4) by (simp add: heap_queue.fold_push_mset)
  show ?thesis
  proof (cases found)
    case None
    then have "mset (fold heap_Push toPush vh1) = mset vh" using push [of toPush] pf(5) by simp
    then have "sort (fold heap_Push toPush vh1) = sort vh" by (rule sort_mset_eq)
    moreover have "find (fits req (hdisks h)) (sort vh) = None"
      using spec None by (simp add: find_None_iff)
    ultimately show ?thesis using assms(1) fit None pf(2) by (simp add: alloc_normal_def)
  next
    case (Some vd)
    obtain v disk where vd: "vd = (v, disk)" by fastforce
    have v: "v \<in> set vh" "fits req (hdisks h) v" "disk = GetDiskByPath (hdisks h) (vdevice v)"
      "\<forall>u \<in> set vh. fits req (hdisks h) u \<longrightarrow> v \<le> u"
      using spec Some vd by simp_all
    have find: "find (fits req (hdisks h)) (sort vh) = Some v"
      by (rule find_least) (use v in simp_all)
    let ?vh2 = "fold heap_Push (toPush @ [charge_volume req v]) vh1"
    have "mset ?vh2 = mset vh - {#v#} + {#charge_volume req v#}"
      using push [of "toPush @ [charge_volume req v]"] pf(5) Some vd by simp
    then have sorted: "sort ?vh2 = insort (charge_volume req v) (remove1 v (sort vh))"
      by (rule sort_charge [OF _ v(1)])
    have len: "i < length (hdisks h)" if "disk = Some i" for i
      using that v(3) GetDiskByPath_bound by metis
    have "RequireIOPS req \<Longrightarrow> disk \<noteq> None"
      using v(2) by (cases disk) (simp_all add: fits_def v(3) [symmetric])
    then show ?thesis
      using assms(1) fit Some vd find sorted pf(2) v(3) len
      by (auto simp: alloc_normal_def Let_def charge_volume_def update_disk_def
          split: if_splits option.splits bool.splits)
  qed
qed

section \<open>The heap refines the sorted list\<close>

lemma normal_reqs_greedy:
  assumes "normal_reqs reqs vh volumePlan diskPlan h = (h', vh', r)" "is_heap vh" "cache_ok h"
  shows "greedy reqs (sort vh) (hdisks h) volumePlan diskPlan = (sort vh', hdisks h', r)"
  using assms
proof (induction reqs arbitrary: vh volumePlan diskPlan h)
  case (Cons req reqs)
  obtain h1 vh1 r1 where a: "alloc_normal req vh diskPlan h = (h1, vh1, r1)" by (metis prod_cases3)
  note fr = alloc_normal_frame [OF a Cons.prems(2)] and spec = alloc_normal_spec [OF a Cons.prems(2,3)]
  show ?case
  proof (cases "find (fits req (hdisks h)) (sort vh)")
    case None
    then show ?thesis using Cons.prems(1) a spec by simp
  next
    case (Some v)
    then obtain dp where dp: "r1 = Inr ([(vdevice v, SizeInBytes req)], dp)"
      using spec by (auto split: bool.splits option.splits)
    then have rest: "normal_reqs reqs vh1 (volumePlan @ [(req, [(vdevice v, SizeInBytes req)])]) dp h1 = (h', vh', r)"
      using Cons.prems(1) a by simp
    have "cache_ok h1" using fr Cons.prems(3) by (simp add: frame_def)
    from Cons.IH [OF rest _ this] fr
    have "greedy reqs (sort vh1) (hdisks h1) (volumePlan @ [(req, [(vdevice v, SizeInBytes req)])]) dp
        = (sort vh', hdisks h', r)" by blast
    then show ?thesis
      using Some spec dp by (auto simp: Let_def split: bool.splits option.splits)
  qed
qed auto

lemma getNormalPlan_greedy:
  assumes "getNormalPlan reqs h = (h', r)" "cache_ok h"
  shows "greedy reqs (sort (usedVolumes h)) (hdisks h) [] [] = (sort (usedVolumes h'), hdisks h', r)"
proof -
  obtain h1 vh where n: "normal_reqs reqs (heap_Init (usedVolumes h)) [] [] h = (h1, vh, r)"
    and h': "h' = h1\<lparr>usedVolumes := vh\<rparr>"
    using assms(1) by (auto simp: getNormalPlan_def split: prod.splits)
  have "sort (heap_Init (usedVolumes h)) = sort (usedVolumes h)"
    by (rule sort_mset_eq) (rule heap_Init_spec)
  then show ?thesis
    using normal_reqs_greedy [OF n heap_Init_spec(1) assms(2)] h' by simp
qed

text \<open>
  C9: \<open>getNormalPlan\<close> refines the best-fit specification: request by request, in the order given,
  the smallest volume (by size, then device) that has the space and whose disk has the quota is
  charged, and the first request that fits nowhere fails the plan. The plan, the quotas of the
  disks and the volumes left are those of the specification, however the heap is laid out.
\<close>

theorem getNormalPlan_best_fit:
  assumes "getNormalPlan reqs h = (h', r)" "cache_ok h"
  shows "greedy reqs (sort (usedVolumes h)) (hdisks h) [] [] = (sort (usedVolumes h'), hdisks h', r)"
  by (rule getNormalPlan_greedy [OF assms])

theorem getNormalPlan_best_fit_witness:
  "snd (getNormalPlan [sample_normal, sample_normal] ((newHost sample_info 1)
      \<lparr>usedVolumes := [Volume ''/data/a'' 90, Volume ''/data/b'' 65, Volume ''/data/c'' 20]\<rparr>))
   = Inr ([(sample_normal, [(''/data/b'', 30)]), (sample_normal, [(''/data/b'', 30)])],
          [\<lparr>Device = ''sda'', Mounts = [''/data''], dReadIOPS = 20, dWriteIOPS = 0, dReadBPS = 0, dWriteBPS = 0\<rparr>])"
proof -
  let ?h = "(newHost sample_info 1)
      \<lparr>usedVolumes := [Volume ''/data/a'' 90, Volume ''/data/b'' 65, Volume ''/data/c'' 20]\<rparr>"
  obtain h' r where run: "getNormalPlan [sample_normal, sample_normal] ?h = (h', r)" by fastforce
  have "cache_ok ?h" by (simp add: cache_ok_def newHost_def split: prod.splits)
  from getNormalPlan_best_fit [OF run this]
  have "r = snd (snd (greedy [sample_normal, sample_normal] (sort (usedVolumes ?h)) (hdisks ?h) [] []))" by simp
  also have "\<dots> = Inr ([(sample_normal, [(''/data/b'', 30)]), (sample_normal, [(''/data/b'', 30)])],
          [\<lparr>Device = ''sda'', Mounts = [''/data''], dReadIOPS = 20, dWriteIOPS = 0, dReadBPS = 0, dWriteBPS = 0\<rparr>])"
    by code_simp
  finally show ?thesis using run by simp
qed

end
