(* ===== verification/Mount_Passes.thy ===== *)
theory Mount_Passes
  imports Host Samples
begin

text \<open>
  \<open>applyMountPasses\<close> charges the disks for as many passes over the mount requests as fit, without
  running them. The reference is the loop it replaces: pass after pass until one fails or the
  bound is reached.
\<close>

fun mount_passes :: "VolumeBindings \<Rightarrow> nat \<Rightarrow> host \<Rightarrow> host \<times> Disks list" where
  "mount_passes reqs 0 h = (h, [])"
| "mount_passes reqs (Suc k) h =
     (let (h1, r) = getMountDiskPlan reqs h in
      case r of
        Inl _ \<Rightarrow> (h1, [])
      | Inr diskPlan \<Rightarrow> let (h2, diskPlans) = mount_passes reqs k h1 in (h2, diskPlan # diskPlans))"

section \<open>A pass on disks alone\<close>

text \<open>Requests with the positions of their disks.\<close>

fun pass :: "(nat \<times> VolumeBinding) list \<Rightarrow> Disks \<Rightarrow> Disks \<times> bool" where
  "pass [] ds = (ds, True)"
| "pass ((i, req) # rs) ds =
     (if isDiskIOPSQuotaQualified (Some (ds ! i)) req
      then pass rs (ds[i := decreaseIOPSQuota req (ds ! i)]) else (ds, False))"

text \<open>What a list of placed requests asks of a disk: as machine integers, and exactly.\<close>

definition sumq :: "(nat \<times> VolumeBinding) list \<Rightarrow> nat \<Rightarrow> quota_kind \<Rightarrow> i64" where
  "sumq rs i k = sum_list (map (\<lambda>(j, r). if j = i then bquota r k else 0) rs)"

definition sumv :: "(nat \<times> VolumeBinding) list \<Rightarrow> nat \<Rightarrow> quota_kind \<Rightarrow> int" where
  "sumv rs i k = sum_list (map (\<lambda>(j, r). if j = i then val (bquota r k) else 0) rs)"

lemma sum_Cons [simp]:
  "sumq ((j, r) # rs) i k = (if j = i then bquota r k else 0) + sumq rs i k"
  "sumv ((j, r) # rs) i k = (if j = i then val (bquota r k) else 0) + sumv rs i k"
  "sumq [] i k = 0" "sumv [] i k = 0"
  by (simp_all add: sumq_def sumv_def)

definition nonneg :: "(nat \<times> VolumeBinding) list \<Rightarrow> bool" where
  "nonneg rs \<longleftrightarrow> (\<forall>(i, r) \<in> set rs. ValidIOParameters r)"

lemma nonneg_Cons [simp]: "nonneg ((i, r) # rs) \<longleftrightarrow> ValidIOParameters r \<and> nonneg rs" "nonneg []"
  by (auto simp: nonneg_def)

lemma sumv_nonneg: "nonneg rs \<Longrightarrow> 0 \<le> sumv rs i k"
  by (induction rs) (auto simp: ValidIO_iff i64_le_iff)

lemma sumv_absent: "i \<notin> fst ` set rs \<Longrightarrow> sumv rs i k = 0" "i \<notin> fst ` set rs \<Longrightarrow> sumq rs i k = 0"
  by (induction rs) auto

lemma sumq_of_int: "sumq rs i k = of_int (sumv rs i k)"
  by (induction rs) auto

lemma val_sumq: "nonneg rs \<Longrightarrow> sumv rs i k < 2 ^ 63 \<Longrightarrow> val (sumq rs i k) = sumv rs i k"
  using sumv_nonneg [of rs i k] by (simp add: sumq_of_int val_of_int in_range_def)

text \<open>A pass succeeds exactly when every disk covers the sum, whatever the order.\<close>

definition covered :: "(nat \<times> VolumeBinding) list \<Rightarrow> Disks \<Rightarrow> bool" where
  "covered rs ds \<longleftrightarrow> (\<forall>i \<in> fst ` set rs. \<forall>k. sumv rs i k \<le> val (quota (ds ! i) k))"

lemma pass_length [simp]: "length (fst (pass rs ds)) = length ds"
  by (induction rs ds rule: pass.induct) auto

lemma pass_layout:
  "map (\<lambda>d. (Device d, Mounts d)) (fst (pass rs ds)) = map (\<lambda>d. (Device d, Mounts d)) ds"
proof (induction rs ds rule: pass.induct)
  case (2 i req rs ds)
  have "map (\<lambda>d. (Device d, Mounts d)) (ds[i := decreaseIOPSQuota req (ds ! i)]) = map (\<lambda>d. (Device d, Mounts d)) ds"
    by (cases "i < length ds") (auto simp: map_update intro!: nth_equalityI simp: nth_list_update)
  with 2 show ?case by auto
qed simp

lemma pass_quota:
  assumes "pass rs ds = (ds', True)" "\<forall>i \<in> fst ` set rs. i < length ds"
  shows "quota (ds' ! i) k = quota (ds ! i) k - sumq rs i k"
  using assms
proof (induction rs ds rule: pass.induct)
  case (2 j req rs ds)
  then have "isDiskIOPSQuotaQualified (Some (ds ! j)) req"
    "pass rs (ds[j := decreaseIOPSQuota req (ds ! j)]) = (ds', True)" "j < length ds"
    by (auto split: if_splits)
  with 2 show ?case by (auto simp: nth_list_update)
qed simp

lemma pass_ok_iff:
  assumes "nonneg rs" "\<forall>i \<in> fst ` set rs. i < length ds"
  shows "snd (pass rs ds) \<longleftrightarrow> covered rs ds"
  using assms
proof (induction rs ds rule: pass.induct)
  case (2 j req rs ds)
  let ?ds = "ds[j := decreaseIOPSQuota req (ds ! j)]"
  have j: "j < length ds" and nn: "nonneg rs" "\<forall>k. 0 \<le> bquota req k"
    using "2.prems" by (auto simp: ValidIO_iff)
  show ?case
  proof (cases "\<forall>k. bquota req k \<le> quota (ds ! j) k")
    case True
    have val: "val (quota (?ds ! i) k) = val (quota (ds ! i) k) - (if i = j then val (bquota req k) else 0)" for i k
      using True j nn by (simp add: nth_list_update val_diff_le)
    have "covered ((j, req) # rs) ds \<longleftrightarrow> covered rs ?ds"
    proof
      assume cov: "covered rs ?ds"
      have "sumv ((j, req) # rs) i k \<le> val (quota (ds ! i) k)" if "i \<in> fst ` set ((j, req) # rs)" for i k
      proof (cases "i \<in> fst ` set rs")
        case True
        then have "sumv rs i k \<le> val (quota (?ds ! i) k)" using cov unfolding covered_def by blast
        then show ?thesis by (auto simp: val)
      next
        case False
        then show ?thesis using that True by (auto simp: sumv_absent i64_le_iff)
      qed
      then show "covered ((j, req) # rs) ds" by (simp add: covered_def del: sum_Cons)
    next
      assume cov: "covered ((j, req) # rs) ds"
      have "sumv rs i k \<le> val (quota (?ds ! i) k)" if "i \<in> fst ` set rs" for i k
      proof -
        have "sumv ((j, req) # rs) i k \<le> val (quota (ds ! i) k)" using cov that by (auto simp: covered_def)
        then show ?thesis by (auto simp: val split: if_splits)
      qed
      then show "covered rs ?ds" by (simp add: covered_def)
    qed
    with True "2.IH" nn "2.prems" show ?thesis by (simp add: qualified_iff)
  next
    case False
    then obtain k where k: "\<not> bquota req k \<le> quota (ds ! j) k" by blast
    have "0 \<le> sumv rs j k" by (rule sumv_nonneg [OF nn(1)])
    then have "\<not> covered ((j, req) # rs) ds" using k by (auto simp: covered_def i64_le_iff intro!: exI [of _ k])
    with k show ?thesis by (auto simp: qualified_iff)
  qed
qed (simp add: covered_def)

section \<open>Passes of a host\<close>

definition placed :: "Disks \<Rightarrow> VolumeBindings \<Rightarrow> (nat \<times> VolumeBinding) list" where
  "placed ds reqs = map (\<lambda>r. (the (GetDiskByPath ds (Source r)), r)) (filter RequireIOPS reqs)"

definition plan_of :: "Disks \<Rightarrow> (nat \<times> VolumeBinding) list \<Rightarrow> Disks \<Rightarrow> Disks" where
  "plan_of ds rs diskPlan = fold (\<lambda>(i, r) dp. disks_Add dp [DiskQuota r (ds ! i)]) rs diskPlan"

text \<open>Every path that matters is in the cache, with its disk.\<close>

definition resolved :: "host \<Rightarrow> VolumeBindings \<Rightarrow> bool" where
  "resolved h reqs \<longleftrightarrow> (\<forall>r \<in> set reqs. RequireIOPS r \<longrightarrow>
     (\<exists>i. map_of (diskByPath h) (Source r) = Some (Some i) \<and> GetDiskByPath (hdisks h) (Source r) = Some i))"

lemma placed_Cons:
  "RequireIOPS r \<Longrightarrow> placed ds (r # reqs) = (the (GetDiskByPath ds (Source r)), r) # placed ds reqs"
  "\<not> RequireIOPS r \<Longrightarrow> placed ds (r # reqs) = placed ds reqs"
  "placed ds [] = []"
  by (simp_all add: placed_def)

lemma placed_layout:
  assumes "layout h' = layout h"
  shows "placed (hdisks h') reqs = placed (hdisks h) reqs"
  by (simp add: placed_def layout_path [OF assms])

lemma resolved_Cons:
  "resolved h (r # reqs) \<longleftrightarrow> (RequireIOPS r \<longrightarrow> (\<exists>i. map_of (diskByPath h) (Source r) = Some (Some i) \<and>
     GetDiskByPath (hdisks h) (Source r) = Some i)) \<and> resolved h reqs"
  "resolved h []"
  by (auto simp: resolved_def)

lemma resolved_bound: "resolved h reqs \<Longrightarrow> i \<in> fst ` set (placed (hdisks h) reqs) \<Longrightarrow> i < length (hdisks h)"
  by (fastforce simp: placed_def resolved_def dest: GetDiskByPath_bound)

lemma plan_of_layout:
  assumes "map (\<lambda>d. (Device d, Mounts d)) ds' = map (\<lambda>d. (Device d, Mounts d)) ds" "\<forall>i \<in> fst ` set rs. i < length ds"
  shows "plan_of ds' rs dp = plan_of ds rs dp"
proof -
  have "DiskQuota r (ds' ! i) = DiskQuota r (ds ! i)" if "i < length ds" for i r
  proof -
    have "length ds' = length ds" by (rule map_eq_imp_length_eq [OF assms(1)])
    then have "(Device (ds' ! i), Mounts (ds' ! i)) = (Device (ds ! i), Mounts (ds ! i))"
      using arg_cong [OF assms(1), of "\<lambda>xs. xs ! i"] that by simp
    then show ?thesis by (intro DiskQuota_cong) auto
  qed
  then show ?thesis
    using assms(2) unfolding plan_of_def by (intro fold_cong) auto
qed

lemma resolved_lookup:
  assumes "resolved h (req # reqs)" "RequireIOPS req"
  obtains i where "getDiskByPath h (Source req) = (Some i, h)" "GetDiskByPath (hdisks h) (Source req) = Some i"
    "i < length (hdisks h)"
proof -
  from assms obtain i where "map_of (diskByPath h) (Source req) = Some (Some i)"
    "GetDiskByPath (hdisks h) (Source req) = Some i"
    by (auto simp: resolved_Cons)
  then show thesis using that [of i] GetDiskByPath_bound by (simp add: getDiskByPath_def)
qed

lemma resolved_layout:
  assumes "layout h' = layout h" "diskByPath h' = diskByPath h" "resolved h reqs"
  shows "resolved h' reqs"
  using assms(3) by (simp add: resolved_def layout_path [OF assms(1)] assms(2))

lemma resolved_pass:
  assumes "resolved h reqs"
  shows "mount_disk_loop reqs dp h = (h\<lparr>hdisks := fst (pass (placed (hdisks h) reqs) (hdisks h))\<rparr>,
     if snd (pass (placed (hdisks h) reqs) (hdisks h)) then Inr (plan_of (hdisks h) (placed (hdisks h) reqs) dp)
     else Inl ErrInsufficientResource)"
  using assms
proof (induction reqs arbitrary: dp h)
  case Nil
  then show ?case by (simp add: placed_Cons plan_of_def)
next
  case (Cons req reqs)
  show ?case
  proof (cases "RequireIOPS req")
    case False
    have "resolved h reqs" using Cons.prems by (simp add: resolved_Cons)
    with Cons.IH [of h] False show ?thesis by (simp add: placed_Cons)
  next
    case True
    obtain i where i: "getDiskByPath h (Source req) = (Some i, h)" "GetDiskByPath (hdisks h) (Source req) = Some i"
      "i < length (hdisks h)"
      using resolved_lookup [OF Cons.prems True] .
    let ?h2 = "update_disk i (decreaseIOPSQuota req) h"
    let ?rs = "placed (hdisks h) reqs"
    have lay: "layout ?h2 = layout h" by (rule layout_update_disk) simp_all
    have res: "resolved ?h2 reqs"
      by (rule resolved_layout [OF lay]) (use Cons.prems in \<open>simp_all add: update_disk_def resolved_Cons\<close>)
    have bound: "\<forall>j \<in> fst ` set ?rs. j < length (hdisks h)"
      using Cons.prems resolved_bound unfolding resolved_Cons by blast
    have plan: "plan_of (hdisks ?h2) ?rs dp' = plan_of (hdisks h) ?rs dp'" for dp'
      by (rule plan_of_layout [OF lay [unfolded layout_def] bound])
    have "mount_disk_loop reqs (disks_Add dp [DiskQuota req (hdisks h ! i)]) ?h2 =
      (?h2\<lparr>hdisks := fst (pass ?rs (hdisks ?h2))\<rparr>,
       if snd (pass ?rs (hdisks ?h2)) then Inr (plan_of (hdisks h) ?rs (disks_Add dp [DiskQuota req (hdisks h ! i)]))
       else Inl ErrInsufficientResource)"
      unfolding Cons.IH [OF res] placed_layout [OF lay] plan ..
    then show ?thesis
      using True i by (simp add: placed_Cons disk_at_def update_disk_def plan_of_def)
  qed
qed

lemma mount_disk_loop_keeps_cache:
  "mount_disk_loop reqs dp h = (h', r) \<Longrightarrow> map_of (diskByPath h) p = Some x \<Longrightarrow> map_of (diskByPath h') p = Some x"
proof (induction reqs dp h rule: mount_disk_loop.induct)
  case (2 req reqs dp h)
  show ?case
  proof (cases "RequireIOPS req")
    case True
    obtain disk h1 where d: "getDiskByPath h (Source req) = (disk, h1)" by fastforce
    have keep: "map_of (diskByPath h1) p = Some x"
      using d "2.prems"(2) by (auto simp: getDiskByPath_def Let_def split: option.splits)
    show ?thesis
    proof (cases "isDiskIOPSQuotaQualified (disk_at h1 disk) req")
      case q: True
      with True obtain i where i: "disk = Some i" by (cases disk) (auto simp: disk_at_def)
      show ?thesis
        by (rule "2.IH"(2) [OF _ d [symmetric] refl _ i refl])
          (use True q "2.prems"(1) d i keep in \<open>auto simp: Let_def update_disk_def\<close>)
    qed (use "2.prems" d True keep in auto)
  qed (use 2 in auto)
qed auto

text \<open>A first pass that succeeds leaves every path resolved.\<close>

lemma first_pass:
  assumes "mount_disk_loop reqs dp h = (h', Inr p)" "cache_ok h"
  shows "resolved h' reqs \<and> hdisks h' = fst (pass (placed (hdisks h) reqs) (hdisks h)) \<and>
     snd (pass (placed (hdisks h) reqs) (hdisks h)) \<and> p = plan_of (hdisks h) (placed (hdisks h) reqs) dp \<and>
     (\<forall>i \<in> fst ` set (placed (hdisks h) reqs). i < length (hdisks h))"
  using assms
proof (induction reqs arbitrary: dp h)
  case Nil
  then show ?case by (simp add: placed_Cons plan_of_def resolved_Cons)
next
  case (Cons req reqs)
  show ?case
  proof (cases "RequireIOPS req")
    case False
    with Cons.IH [of dp h] Cons.prems show ?thesis by (simp add: placed_Cons resolved_Cons)
  next
    case True
    obtain disk h1 where d: "getDiskByPath h (Source req) = (disk, h1)" by fastforce
    note dd = getDiskByPath_fields [OF d]
    have q: "isDiskIOPSQuotaQualified (disk_at h1 disk) req"
      using Cons.prems(1) True d by (auto split: if_splits)
    with True obtain i where i: "disk = Some i" by (cases disk) (auto simp: disk_at_def)
    have path: "GetDiskByPath (hdisks h) (Source req) = Some i" using dd(6) Cons.prems(2) i by simp
    have len: "i < length (hdisks h)" by (rule GetDiskByPath_bound [OF path])
    have cached: "map_of (diskByPath h1) (Source req) = Some (Some i)"
      using d i by (auto simp: getDiskByPath_def Let_def split: option.splits)
    let ?h2 = "update_disk i (decreaseIOPSQuota req) h1"
    let ?dp = "disks_Add dp [DiskQuota req (hdisks h ! i)]"
    have lay: "layout ?h2 = layout h" using layout_update_disk [of "decreaseIOPSQuota req" i h1] dd(4)
      by (simp add: layout_def)
    have run: "mount_disk_loop reqs ?dp ?h2 = (h', Inr p)"
      using Cons.prems(1) True d q i dd(4) len by (simp add: update_disk_def)
    have "cache_ok ?h2"
      using frame_update_disk [of "decreaseIOPSQuota req" h1 i] dd(5) Cons.prems(2) by (simp add: frame_def)
    note IH = Cons.IH [OF run this]
    let ?rs = "placed (hdisks h) reqs"
    have pl: "placed (hdisks ?h2) reqs = ?rs" by (rule placed_layout [OF lay])
    have bound: "\<forall>j \<in> fst ` set ?rs. j < length (hdisks h)"
      using IH pl layout_eqD(3) [OF lay] by simp
    have plan: "plan_of (hdisks ?h2) ?rs ?dp = plan_of (hdisks h) ?rs ?dp"
      by (rule plan_of_layout [OF lay [unfolded layout_def] bound])
    have "map_of (diskByPath h') (Source req) = Some (Some i)"
      by (rule mount_disk_loop_keeps_cache [OF run]) (use cached in \<open>simp add: update_disk_def\<close>)
    moreover have "layout h' = layout h"
      using mount_disk_loop_frame [OF run] lay by (simp add: frame_def)
    ultimately have "resolved h' (req # reqs)"
      using IH path layout_path [of h' h "Source req"] by (simp add: resolved_Cons)
    then show ?thesis
      using IH pl plan bound len True path q i dd(4)
      by (simp add: placed_Cons disk_at_def update_disk_def plan_of_def)
  qed
qed

section \<open>How many passes fit\<close>

definition after :: "(nat \<times> VolumeBinding) list \<Rightarrow> nat \<Rightarrow> Disks \<Rightarrow> Disks" where
  "after rs n ds = ((\<lambda>ds. fst (pass rs ds)) ^^ n) ds"

lemma after_simps: "after rs 0 ds = ds" "after rs (Suc n) ds = after rs n (fst (pass rs ds))"
  by (simp_all add: after_def funpow_Suc_right del: funpow.simps(2))

text \<open>\<open>n\<close> passes fit on the disks.\<close>

definition room :: "(nat \<times> VolumeBinding) list \<Rightarrow> Disks \<Rightarrow> int \<Rightarrow> bool" where
  "room rs ds n \<longleftrightarrow> (\<forall>i \<in> fst ` set rs. \<forall>k. n * sumv rs i k \<le> val (quota (ds ! i) k))"

lemma pass_val:
  assumes "snd (pass rs ds)" "nonneg rs" "\<forall>i \<in> fst ` set rs. i < length ds" "i \<in> fst ` set rs"
  shows "val (quota (fst (pass rs ds) ! i) k) = val (quota (ds ! i) k) - sumv rs i k"
proof -
  have cov: "sumv rs i k \<le> val (quota (ds ! i) k)"
    using assms pass_ok_iff [OF assms(2,3)] unfolding covered_def by blast
  then have v: "val (sumq rs i k) = sumv rs i k"
    using val_less [of "quota (ds ! i) k"] by (intro val_sumq [OF assms(2)]) simp
  have "quota (fst (pass rs ds) ! i) k = quota (ds ! i) k - sumq rs i k"
    by (rule pass_quota [OF _ assms(3)]) (use assms(1) in \<open>simp add: prod_eq_iff\<close>)
  then show ?thesis
    using cov v sumv_nonneg [OF assms(2), of i k] by (simp add: val_diff_le i64_le_iff)
qed

lemma room_Suc:
  assumes "snd (pass rs ds)" "nonneg rs" "\<forall>i \<in> fst ` set rs. i < length ds"
  shows "room rs (fst (pass rs ds)) n \<longleftrightarrow> room rs ds (n + 1)"
proof -
  have "n * sumv rs i k \<le> val (quota (fst (pass rs ds) ! i) k) \<longleftrightarrow>
      (n + 1) * sumv rs i k \<le> val (quota (ds ! i) k)" if "i \<in> fst ` set rs" for i k
    unfolding pass_val [OF assms that] by (simp add: algebra_simps)
  then show ?thesis unfolding room_def by blast
qed

lemma room_1: "nonneg rs \<Longrightarrow> \<forall>i \<in> fst ` set rs. i < length ds \<Longrightarrow> room rs ds 1 \<longleftrightarrow> snd (pass rs ds)"
  by (simp add: room_def pass_ok_iff covered_def)

lemma room_mono:
  assumes "room rs ds n" "nonneg rs" "m \<le> n"
  shows "room rs ds m"
  unfolding room_def
proof (intro ballI allI)
  fix i k assume "i \<in> fst ` set rs"
  then have "n * sumv rs i k \<le> val (quota (ds ! i) k)" using assms(1) unfolding room_def by blast
  moreover have "m * sumv rs i k \<le> n * sumv rs i k"
    by (rule mult_right_mono [OF assms(3) sumv_nonneg [OF assms(2)]])
  ultimately show "m * sumv rs i k \<le> val (quota (ds ! i) k)" by linarith
qed

text \<open>The loop on a host whose paths are resolved.\<close>

lemma mount_passes_spec:
  assumes "resolved h reqs" "rs = placed (hdisks h) reqs" "nonneg rs" "room rs (hdisks h) 0"
    and "mount_passes reqs b h = (h', ps)"
  shows "length ps \<le> b \<and> (\<forall>m \<le> b. m \<le> length ps \<longleftrightarrow> room rs (hdisks h) (int m)) \<and>
     ps = replicate (length ps) (plan_of (hdisks h) rs []) \<and>
     h' = (let h1 = h\<lparr>hdisks := after rs (length ps) (hdisks h)\<rparr>
           in if length ps < b then fst (getMountDiskPlan reqs h1) else h1)"
  using assms
proof (induction b arbitrary: h h' ps)
  case 0
  then show ?case by (simp add: after_def)
next
  case (Suc b)
  have bound: "\<forall>i \<in> fst ` set rs. i < length (hdisks h)"
    using resolved_bound [OF Suc.prems(1)] Suc.prems(2) by blast
  let ?h1 = "h\<lparr>hdisks := fst (pass rs (hdisks h))\<rparr>"
  have run: "getMountDiskPlan reqs h = (?h1, if snd (pass rs (hdisks h)) then Inr (plan_of (hdisks h) rs [])
     else Inl ErrInsufficientResource)"
    unfolding getMountDiskPlan_def resolved_pass [OF Suc.prems(1)] Suc.prems(2) ..
  show ?case
  proof (cases "snd (pass rs (hdisks h))")
    case False
    with Suc.prems(5) run have eq: "h' = ?h1" "ps = []" by simp_all
    have "\<not> room rs (hdisks h) (int m)" if "m \<noteq> 0" for m
      using that room_mono [of rs "hdisks h" "int m" 1] room_1 [OF Suc.prems(3) bound] False Suc.prems(3) by auto
    then show ?thesis
      using eq Suc.prems(4) run by (auto simp: after_def)
  next
    case True
    obtain h2 ps2 where rest: "mount_passes reqs b ?h1 = (h2, ps2)" by fastforce
    with Suc.prems(5) run True have eq: "h' = h2" "ps = plan_of (hdisks h) rs [] # ps2" by simp_all
    have lay: "layout ?h1 = layout h" using pass_layout by (simp add: layout_def)
    have res: "resolved ?h1 reqs" by (rule resolved_layout [OF lay _ Suc.prems(1)]) simp
    have pl: "rs = placed (hdisks ?h1) reqs" using placed_layout [OF lay] Suc.prems(2) by simp
    have r0: "room rs (hdisks ?h1) 0"
      using room_Suc [OF True Suc.prems(3) bound, of 0] room_1 [OF Suc.prems(3) bound] True by simp
    have plan: "plan_of (hdisks ?h1) rs [] = plan_of (hdisks h) rs []"
      by (rule plan_of_layout [OF lay [unfolded layout_def] bound])
    note IH = Suc.IH [OF res pl Suc.prems(3) r0 rest]
    have "m \<le> length ps \<longleftrightarrow> room rs (hdisks h) (int m)" if "m \<le> Suc b" for m
    proof (cases m)
      case 0
      then show ?thesis using Suc.prems(4) by simp
    next
      case (Suc m')
      then show ?thesis
        using IH that eq(2) room_Suc [OF True Suc.prems(3) bound, of "int m'"] by (simp add: add.commute)
    qed
    moreover have "after rs (length ps) (hdisks h) = after rs (length ps2) (hdisks ?h1)"
      by (simp add: after_simps eq(2))
    ultimately show ?thesis
      using IH eq plan by simp
  qed
qed

section \<open>The closed form\<close>

definition entry_of :: "(nat option, VolumeBinding) gomap \<Rightarrow> nat \<Rightarrow> VolumeBinding" where
  "entry_of qs i = (case map_of qs (Some i) of Some s \<Rightarrow> s | None \<Rightarrow> empty_binding)"

lemma mount_quotas_spec:
  assumes "resolved h reqs" "rs = placed (hdisks h) reqs" "wf_map qs"
  shows "\<exists>qs'. mount_quotas reqs qs h = (h, qs') \<and> wf_map qs' \<and>
     (\<forall>i k. bquota (entry_of qs' i) k = bquota (entry_of qs i) k + sumq rs i k) \<and>
     dom (map_of qs') = dom (map_of qs) \<union> Some ` fst ` set rs"
  using assms
proof (induction reqs arbitrary: qs rs)
  case Nil
  then show ?case by (simp add: placed_Cons)
next
  case (Cons req reqs)
  show ?case
  proof (cases "RequireIOPS req")
    case False
    have "resolved h reqs" "rs = placed (hdisks h) reqs"
      using Cons.prems False by (simp_all add: resolved_Cons placed_Cons)
    with Cons.IH [OF _ _ Cons.prems(3)] False show ?thesis by simp
  next
    case True
    obtain i where i: "getDiskByPath h (Source req) = (Some i, h)" "GetDiskByPath (hdisks h) (Source req) = Some i"
      using resolved_lookup [OF Cons.prems(1) True] .
    let ?rs = "placed (hdisks h) reqs"
    let ?qs = "mput (Some i) (AddQuota (entry_of qs i) req) qs"
    have rs: "rs = (i, req) # ?rs" using True i(2) Cons.prems(2) by (simp add: placed_Cons)
    have "resolved h reqs" "wf_map ?qs" using Cons.prems by (simp_all add: resolved_Cons)
    from Cons.IH [OF this(1) refl this(2)] obtain qs' where
      qs': "mount_quotas reqs ?qs h = (h, qs')" "wf_map qs'"
      "\<forall>j k. bquota (entry_of qs' j) k = bquota (entry_of ?qs j) k + sumq ?rs j k"
      "dom (map_of qs') = dom (map_of ?qs) \<union> Some ` fst ` set ?rs"
      by blast
    have "mount_quotas (req # reqs) qs h = (h, qs')"
      using True i(1) qs'(1) by (simp add: entry_of_def)
    moreover have "bquota (entry_of ?qs j) k = bquota (entry_of qs j) k + (if i = j then bquota req k else 0)" for j k
      by (simp add: entry_of_def)
    ultimately show ?thesis
      using qs' by (auto simp: rs)
  qed
qed

lemma quot_nonneg_iff: "0 \<le> a \<Longrightarrow> 0 < n \<Longrightarrow> x \<le> val (quot a n) \<longleftrightarrow> x * val n \<le> val a"
  by (simp add: val_quot_pos tdiv_pos le_div_iff_mult_le i64_le_iff i64_less_iff)

lemma headroom_step_iff:
  "0 \<le> q \<Longrightarrow> x \<le> val (headroom_step q s head) \<longleftrightarrow> x \<le> val head \<and> (0 < s \<longrightarrow> x * val s \<le> val q)"
proof (cases "0 < s")
  assume q: "0 \<le> q"
  case True
  have "x \<le> val (min head (quot q s)) \<longleftrightarrow> x \<le> val head \<and> x \<le> val (quot q s)"
    by (auto simp: min_def i64_le_iff)
  then show ?thesis using True by (simp add: headroom_step_def quot_nonneg_iff [OF q True])
qed (simp add: headroom_step_def)

lemma quotaHeadroom_iff:
  assumes "\<forall>k. 0 \<le> quota d k" "x \<le> MaxInt"
  shows "x \<le> val (quotaHeadroom d s) \<longleftrightarrow> (\<forall>k. 0 < bquota s k \<longrightarrow> x * val (bquota s k) \<le> val (quota d k))"
proof -
  have "val (of_val MaxInt) = MaxInt" by (simp add: val_of_val in_range_def MaxInt_def)
  moreover have "0 \<le> dReadIOPS d" "0 \<le> dWriteIOPS d" "0 \<le> dReadBPS d" "0 \<le> dWriteBPS d"
    using assms(1) by (simp_all add: all_quota_kind)
  ultimately show ?thesis
    using assms(2) by (auto simp add: quotaHeadroom_def headroom_step_iff all_quota_kind)
qed

lemma passes_headroom:
  assumes "\<forall>k. 0 \<le> quota d k \<and> 0 \<le> bquota s k" "\<exists>k. 0 < bquota s k"
    and "\<forall>k. val (quota d k) + val (bquota s k) < 2 ^ 63" "m \<le> MaxInt"
  shows "m \<le> val (1 + quotaHeadroom d s) \<longleftrightarrow> (\<forall>k. (m - 1) * val (bquota s k) \<le> val (quota d k))"
proof -
  have nn: "\<forall>k. 0 \<le> quota d k" using assms(1) by blast
  obtain k where k: "0 < bquota s k" using assms(2) by blast
  then have k1: "1 \<le> val (bquota s k)" by (simp add: i64_less_iff)
  have "\<not> MaxInt \<le> val (quotaHeadroom d s)"
  proof
    assume "MaxInt \<le> val (quotaHeadroom d s)"
    then have "MaxInt * val (bquota s k) \<le> val (quota d k)"
      using quotaHeadroom_iff [OF nn order_refl, of s] k by blast
    moreover have "MaxInt * 1 \<le> MaxInt * val (bquota s k)"
      using k1 by (intro mult_left_mono) (simp_all add: MaxInt_def)
    ultimately show False using assms(3) [rule_format, of k] k1 by (simp add: MaxInt_def)
  qed
  moreover have "0 \<le> val (quotaHeadroom d s)"
    using quotaHeadroom_iff [OF nn, of 0 s] nn by (simp add: MaxInt_def i64_le_iff)
  ultimately have "val (1 + quotaHeadroom d s) = 1 + val (quotaHeadroom d s)"
    by (simp add: val_add in_range_def MaxInt_def)
  then have "m \<le> val (1 + quotaHeadroom d s) \<longleftrightarrow> m - 1 \<le> val (quotaHeadroom d s)" by linarith
  also have "\<dots> \<longleftrightarrow> (\<forall>k. 0 < bquota s k \<longrightarrow> (m - 1) * val (bquota s k) \<le> val (quota d k))"
    by (rule quotaHeadroom_iff [OF nn]) (use assms(4) in simp)
  also have "\<dots> \<longleftrightarrow> (\<forall>k. (m - 1) * val (bquota s k) \<le> val (quota d k))"
    using assms(1) by (metis i64_le_iff less_le mult_zero_right val_0)
  finally show ?thesis .
qed

lemma capacity_fold:
  assumes "\<forall>q \<in> set qs. \<exists>i. fst q = Some i"
  shows "\<exists>c. fold (capacity_step h) qs (Inr b) = Inr c \<and>
    (\<forall>m. m \<le> c \<longleftrightarrow> m \<le> b \<and> (\<forall>(q, s) \<in> set qs. m \<le> val (1 + quotaHeadroom (hdisks h ! the q) s)))"
  using assms
proof (induction qs arbitrary: b)
  case (Cons q qs)
  obtain i s where q: "q = (Some i, s)" using Cons.prems by (cases q) auto
  let ?b = "min b (val (1 + quotaHeadroom (hdisks h ! i) s))"
  from Cons.IH [of ?b] Cons.prems obtain c where
    "fold (capacity_step h) qs (Inr ?b) = Inr c"
    "\<forall>m. m \<le> c \<longleftrightarrow> m \<le> ?b \<and> (\<forall>(q, s) \<in> set qs. m \<le> val (1 + quotaHeadroom (hdisks h ! the q) s))"
    by auto
  moreover have "capacity_step h q (Inr b) = Inr ?b" by (simp add: q capacity_step_def disk_at_def)
  ultimately show ?case by (intro exI [of _ c]) (auto simp: q)
qed auto

lemma charge_fold:
  assumes "wf_map qs" "\<forall>q \<in> set qs. \<exists>i. fst q = Some i"
  shows "fold (charge_step c) qs h = h\<lparr>hdisks := hdisks (fold (charge_step c) qs h)\<rparr> \<and>
    layout (fold (charge_step c) qs h) = layout h \<and>
    (\<forall>i < length (hdisks h). \<forall>k. quota (hdisks (fold (charge_step c) qs h) ! i) k =
       quota (hdisks h ! i) k - of_int (c - 1) * bquota (entry_of qs i) k)"
  using assms
proof (induction qs arbitrary: h)
  case (Cons q qs)
  obtain j s where q: "q = (Some j, s)" using Cons.prems by (cases q) auto
  let ?h1 = "update_disk j (decrease_times (c - 1) s) h"
  have lay: "layout ?h1 = layout h" by (rule layout_update_disk) simp_all
  have wf: "wf_map qs" and j: "map_of qs (Some j) = None"
    using Cons.prems(1) by (auto simp: q map_of_eq_None_iff)
  have IH: "fold (charge_step c) qs ?h1 = ?h1\<lparr>hdisks := hdisks (fold (charge_step c) qs ?h1)\<rparr> \<and>
    layout (fold (charge_step c) qs ?h1) = layout ?h1 \<and>
    (\<forall>i < length (hdisks ?h1). \<forall>k. quota (hdisks (fold (charge_step c) qs ?h1) ! i) k =
       quota (hdisks ?h1 ! i) k - of_int (c - 1) * bquota (entry_of qs i) k)"
    by (rule Cons.IH [OF wf]) (use Cons.prems in simp)
  have len: "length (hdisks ?h1) = length (hdisks h)" by (simp add: update_disk_def)
  have ent: "bquota (entry_of (q # qs) i) k = (if i = j then bquota s k else bquota (entry_of qs i) k)" for i k
    by (simp add: entry_of_def q)
  have ent_j: "bquota (entry_of qs j) k = 0" for k using j by (simp add: entry_of_def)
  have quot: "quota (hdisks (fold (charge_step c) qs ?h1) ! i) k =
       quota (hdisks h ! i) k - of_int (c - 1) * bquota (entry_of (q # qs) i) k" if "i < length (hdisks h)" for i k
    using IH that len by (simp add: ent ent_j) (simp add: update_disk_def nth_list_update)
  have "fold (charge_step c) (q # qs) h = fold (charge_step c) qs ?h1"
    by (simp add: q charge_step_def)
  moreover have "fold (charge_step c) qs ?h1 = h\<lparr>hdisks := hdisks (fold (charge_step c) qs ?h1)\<rparr>"
  proof -
    have "?h1\<lparr>hdisks := ds\<rparr> = h\<lparr>hdisks := ds\<rparr>" for ds by (simp add: update_disk_def)
    then show ?thesis using IH by metis
  qed
  ultimately show ?case
    using IH lay quot by (simp only: simp_thms) blast
qed (simp add: entry_of_def)

lemma after_facts:
  assumes "nonneg rs" "\<forall>i \<in> fst ` set rs. i < length ds" "room rs ds (int n)" "room rs ds 0"
  shows "length (after rs n ds) = length ds \<and>
    map (\<lambda>d. (Device d, Mounts d)) (after rs n ds) = map (\<lambda>d. (Device d, Mounts d)) ds \<and>
    (\<forall>i < length ds. \<forall>k. quota (after rs n ds ! i) k = quota (ds ! i) k - of_int (int n) * sumq rs i k)"
  using assms(2-4)
proof (induction n arbitrary: ds)
  case 0
  then show ?case by (simp add: after_def)
next
  case (Suc n)
  have ok: "snd (pass rs ds)"
    using room_mono [OF Suc.prems(2) assms(1), of 1] room_1 [OF assms(1) Suc.prems(1)] by simp
  let ?ds = "fst (pass rs ds)"
  have "room rs ?ds (int n)" "room rs ?ds 0"
    using room_Suc [OF ok assms(1) Suc.prems(1)] Suc.prems(2) room_mono [OF Suc.prems(2) assms(1), of 1]
    by (simp_all add: add.commute)
  moreover have "\<forall>i \<in> fst ` set rs. i < length ?ds" using Suc.prems(1) by simp
  ultimately have IH: "length (after rs n ?ds) = length ?ds \<and>
    map (\<lambda>d. (Device d, Mounts d)) (after rs n ?ds) = map (\<lambda>d. (Device d, Mounts d)) ?ds \<and>
    (\<forall>i < length ?ds. \<forall>k. quota (after rs n ?ds ! i) k = quota (?ds ! i) k - of_int (int n) * sumq rs i k)"
    by (intro Suc.IH)
  have step: "after rs (Suc n) ds = after rs n ?ds" by (simp add: after_simps)
  have "quota (?ds ! i) k = quota (ds ! i) k - sumq rs i k" for i k
    by (rule pass_quota [OF _ Suc.prems(1)]) (use ok in \<open>simp add: prod_eq_iff\<close>)
  then show ?case
    using IH pass_layout [of rs ds] by (simp add: step algebra_simps)
qed

text \<open>What a pass left on the disks it charged: no quota below zero, and no sum out of range.\<close>

definition leftover :: "(nat \<times> VolumeBinding) list \<Rightarrow> Disks \<Rightarrow> bool" where
  "leftover rs ds \<longleftrightarrow> (\<forall>i \<in> fst ` set rs. \<forall>k. 0 \<le> quota (ds ! i) k \<and>
     val (quota (ds ! i) k) + sumv rs i k < 2 ^ 63)"

lemma leftover_room: "leftover rs ds \<Longrightarrow> room rs ds 0"
  by (auto simp: leftover_def room_def i64_le_iff)

lemma leftover_val:
  assumes "leftover rs ds" "nonneg rs" "i \<in> fst ` set rs"
  shows "val (sumq rs i k) = sumv rs i k"
proof -
  have "val (quota (ds ! i) k) + sumv rs i k < 2 ^ 63 \<and> 0 \<le> val (quota (ds ! i) k)"
    using assms unfolding leftover_def i64_le_iff val_0 by blast
  then show ?thesis by (intro val_sumq [OF assms(2)]) linarith
qed

lemma member_le_sumv: "(i, r) \<in> set rs \<Longrightarrow> nonneg rs \<Longrightarrow> val (bquota r k) \<le> sumv rs i k"
proof (induction rs)
  case (Cons x xs)
  obtain j r' where x: "x = (j, r')" by fastforce
  have "0 \<le> val (bquota r' k)" "0 \<le> sumv xs i k"
    using Cons.prems(2) sumv_nonneg by (auto simp: x ValidIO_iff i64_le_iff)
  then show ?case using Cons by (auto simp: x)
qed simp

lemma disks_eqI:
  assumes "map (\<lambda>d. (Device d, Mounts d)) ds = map (\<lambda>d. (Device d, Mounts d)) ds'"
    and "\<And>i k. i < length ds \<Longrightarrow> quota (ds ! i) k = quota (ds' ! i) k"
  shows "ds = ds'"
proof (rule nth_equalityI)
  show len: "length ds = length ds'" by (rule map_eq_imp_length_eq [OF assms(1)])
  fix i assume i: "i < length ds"
  from arg_cong [OF assms(1), of "\<lambda>xs. xs ! i"] i len
  have "Device (ds ! i) = Device (ds' ! i)" "Mounts (ds ! i) = Mounts (ds' ! i)" by simp_all
  then show "ds ! i = ds' ! i" by (rule disk_eqI) (rule assms(2) [OF i])
qed

text \<open>The headroom of an entry of the quotas counts the passes its disk has room for.\<close>

lemma entry_headroom:
  assumes "leftover rs ds" "nonneg rs" "\<forall>(i, r) \<in> set rs. RequireIOPS r" "i \<in> fst ` set rs" "m \<le> MaxInt"
    and "\<And>k. bquota s k = sumq rs i k"
  shows "m \<le> val (1 + quotaHeadroom (ds ! i) s) \<longleftrightarrow> (\<forall>k. (m - 1) * sumv rs i k \<le> val (quota (ds ! i) k))"
proof -
  have v: "val (bquota s k) = sumv rs i k" for k
    using leftover_val [OF assms(1,2,4)] assms(6) by simp
  have l: "\<forall>k. 0 \<le> quota (ds ! i) k \<and> val (quota (ds ! i) k) + sumv rs i k < 2 ^ 63"
    using assms(1,4) unfolding leftover_def by blast
  obtain r where r: "(i, r) \<in> set rs" using assms(4) by auto
  then obtain k where "0 < bquota r k" using assms(3) by (auto simp: RequireIOPS_iff)
  then have "0 < bquota s k"
    using member_le_sumv [OF r assms(2), of k] v by (simp add: i64_less_iff)
  with l have "m \<le> val (1 + quotaHeadroom (ds ! i) s) \<longleftrightarrow>
      (\<forall>k. (m - 1) * val (bquota s k) \<le> val (quota (ds ! i) k))"
    using sumv_nonneg [OF assms(2)] assms(5) by (intro passes_headroom) (auto simp: v i64_le_iff)
  then show ?thesis by (simp add: v)
qed

lemma quotas_of:
  assumes "resolved h reqs" "rs = placed (hdisks h) reqs"
  obtains qs where "mount_quotas reqs [] h = (h, qs)" "wf_map qs"
    "\<And>i k. bquota (entry_of qs i) k = sumq rs i k"
    "set qs = (\<lambda>i. (Some i, entry_of qs i)) ` fst ` set rs"
proof -
  obtain qs where qs: "mount_quotas reqs [] h = (h, qs)" "wf_map qs"
    "\<And>i k. bquota (entry_of qs i) k = sumq rs i k" "dom (map_of qs) = Some ` fst ` set rs"
    using mount_quotas_spec [OF assms, of "[]"] by (auto simp: entry_of_def)
  have "(a, s) \<in> set qs \<longleftrightarrow> (\<exists>i \<in> fst ` set rs. a = Some i \<and> s = entry_of qs i)" for a s
  proof -
    have mem: "(a, s) \<in> set qs \<longleftrightarrow> map_of qs a = Some s" using qs(2) by (simp add: wf_map_of_iff)
    have "map_of qs (Some i) = Some (entry_of qs i)" if "i \<in> fst ` set rs" for i
    proof -
      have "Some i \<in> dom (map_of qs)" unfolding qs(4) using that by (rule imageI)
      then show ?thesis by (auto simp: entry_of_def)
    qed
    moreover have "a \<in> Some ` fst ` set rs" if "map_of qs a = Some s"
      using that unfolding qs(4) [symmetric] by (rule domI)
    ultimately show ?thesis unfolding mem by (metis imageE option.inject)
  qed
  then have "set qs = (\<lambda>i. (Some i, entry_of qs i)) ` fst ` set rs" by (auto simp: image_iff)
  with qs that show thesis by blast
qed

lemma capacity_room:
  assumes "leftover rs (hdisks h)" "nonneg rs" "\<forall>(i, r) \<in> set rs. RequireIOPS r" "bound \<le> MaxInt"
    and "\<And>i k. bquota (entry_of qs i) k = sumq rs i k"
    and "set qs = (\<lambda>i. (Some i, entry_of qs i)) ` fst ` set rs"
  shows "\<exists>c. fold (capacity_step h) qs (Inr bound) = Inr c \<and>
    (\<forall>m. m \<le> c \<longleftrightarrow> m \<le> bound \<and> room rs (hdisks h) (m - 1))"
proof -
  have some: "\<forall>q \<in> set qs. \<exists>i. fst q = Some i" using assms(6) by auto
  obtain c where c: "fold (capacity_step h) qs (Inr bound) = Inr c"
    "\<And>m. m \<le> c \<longleftrightarrow> m \<le> bound \<and> (\<forall>(q, s) \<in> set qs. m \<le> val (1 + quotaHeadroom (hdisks h ! the q) s))"
    using capacity_fold [OF some, of h bound] by blast
  have "m \<le> c \<longleftrightarrow> m \<le> bound \<and> room rs (hdisks h) (m - 1)" for m
  proof (cases "m \<le> bound")
    case True
    have "(\<forall>(q, s) \<in> set qs. m \<le> val (1 + quotaHeadroom (hdisks h ! the q) s)) \<longleftrightarrow>
        (\<forall>i \<in> fst ` set rs. m \<le> val (1 + quotaHeadroom (hdisks h ! i) (entry_of qs i)))"
      unfolding assms(6) by simp
    also have "\<dots> \<longleftrightarrow> room rs (hdisks h) (m - 1)"
      unfolding room_def
      by (rule ball_cong [OF refl]) (use entry_headroom [OF assms(1-3) _ _ assms(5)] True assms(4) in auto)
    finally show ?thesis using c(2) [of m] by blast
  qed (use c(2) in blast)
  with c(1) show ?thesis by blast
qed

text \<open>Charging the disks \<open>n\<close> times is running \<open>n\<close> passes that succeed.\<close>

lemma charge_is_after:
  assumes "leftover rs (hdisks h)" "nonneg rs" "\<forall>i \<in> fst ` set rs. i < length (hdisks h)"
    and "room rs (hdisks h) (int n)" "wf_map qs"
    and "\<And>i k. bquota (entry_of qs i) k = sumq rs i k"
    and "set qs = (\<lambda>i. (Some i, entry_of qs i)) ` fst ` set rs"
  shows "fold (charge_step (int n + 1)) qs h = h\<lparr>hdisks := after rs n (hdisks h)\<rparr>"
proof -
  have some: "\<forall>q \<in> set qs. \<exists>i. fst q = Some i" using assms(7) by auto
  let ?h3 = "fold (charge_step (int n + 1)) qs h"
  have charge: "?h3 = h\<lparr>hdisks := hdisks ?h3\<rparr>" "layout ?h3 = layout h"
    "\<And>i k. i < length (hdisks h) \<Longrightarrow> quota (hdisks ?h3 ! i) k = quota (hdisks h ! i) k - of_int (int n) * sumq rs i k"
    using charge_fold [OF assms(5) some, of "int n + 1" h] by (simp_all add: assms(6))
  note aft = after_facts [OF assms(2-4) leftover_room [OF assms(1)]]
  have "hdisks ?h3 = after rs n (hdisks h)"
    by (rule disks_eqI) (use charge(2,3) aft layout_eqD(3) [OF charge(2)] in \<open>simp_all add: layout_def\<close>)
  with charge(1) show ?thesis by simp
qed

lemma applyMountPasses_resolved:
  assumes run: "getMountDiskPlan reqs h = (h1, Inr proto)" and res: "resolved h1 reqs"
    and rs: "rs = placed (hdisks h1) reqs" and nn: "nonneg rs" and iops: "\<forall>(i, r) \<in> set rs. RequireIOPS r"
    and left: "leftover rs (hdisks h1)" and b: "1 \<le> bound" "bound \<le> MaxInt"
    and loop: "mount_passes reqs (nat (bound - 1)) h1 = (h', ps)"
  shows "applyMountPasses reqs bound h = (h', Inr (int (length ps) + 1, proto))"
proof -
  let ?n = "length ps"
  have bnd: "\<forall>i \<in> fst ` set rs. i < length (hdisks h1)" using resolved_bound [OF res] rs by blast
  note spec = mount_passes_spec [OF res rs nn leftover_room [OF left] loop]
  obtain qs where qs: "mount_quotas reqs [] h1 = (h1, qs)" "wf_map qs"
    "\<And>i k. bquota (entry_of qs i) k = sumq rs i k" "set qs = (\<lambda>i. (Some i, entry_of qs i)) ` fst ` set rs"
    using quotas_of [OF res rs] by blast
  obtain c where c: "fold (capacity_step h1) qs (Inr bound) = Inr c"
    "\<And>m. m \<le> c \<longleftrightarrow> m \<le> bound \<and> room rs (hdisks h1) (m - 1)"
    using capacity_room [OF left nn iops b(2) qs(3,4)] by blast
  have n: "int ?n \<le> bound - 1" "room rs (hdisks h1) (int ?n)"
    using spec b(1) by auto
  have "\<not> room rs (hdisks h1) (int ?n + 1)" if "int ?n + 1 < bound"
    using spec [THEN conjunct2, THEN conjunct1, rule_format, of "Suc ?n"] that by (simp add: add.commute)
  then have cn: "c = int ?n + 1"
    using c(2) [of "int ?n + 1"] c(2) [of "int ?n + 2"] n by (cases "int ?n + 1 < bound") (auto simp: add.commute)
  have h3: "fold (charge_step (int ?n + 1)) qs h1 = h1\<lparr>hdisks := after rs ?n (hdisks h1)\<rparr>"
    by (rule charge_is_after [OF left nn bnd n(2) qs(2-4)])
  have "?n < nat (bound - 1) \<longleftrightarrow> c < bound" using cn n(1) b(1) by auto
  then show ?thesis
    using run qs(1) c(1) b(1) cn spec h3 by (simp add: applyMountPasses_def Let_def)
qed

lemma applyMountPasses_loop:
  assumes "\<forall>r \<in> set mountRequests. ValidIOParameters r" "cache_ok h" "1 \<le> bound" "bound \<le> MaxInt"
    and "mount_passes mountRequests (nat bound) h = (h', diskPlans)"
  shows "\<exists>prototype. applyMountPasses mountRequests bound h = (h', Inr (int (length diskPlans), prototype)) \<and>
    (\<forall>diskPlan \<in> set diskPlans. diskPlan = prototype)"
proof -
  obtain k where k: "nat bound = Suc k" using assms(3) by (cases "nat bound") auto
  obtain h1 r where run: "getMountDiskPlan mountRequests h = (h1, r)" by fastforce
  show ?thesis
  proof (cases r)
    case (Inl e)
    then show ?thesis using assms(5) run k by (auto simp: applyMountPasses_def)
  next
    case (Inr proto)
    let ?rs = "placed (hdisks h) mountRequests"
    have first: "resolved h1 mountRequests" "hdisks h1 = fst (pass ?rs (hdisks h))" "snd (pass ?rs (hdisks h))"
      "proto = plan_of (hdisks h) ?rs []" "\<forall>i \<in> fst ` set ?rs. i < length (hdisks h)"
      using first_pass [of mountRequests "[]" h h1 proto] run Inr assms(2) unfolding getMountDiskPlan_def by blast+
    have lay: "layout h1 = layout h" using first(2) pass_layout by (simp add: layout_def)
    have rs: "?rs = placed (hdisks h1) mountRequests" by (rule placed_layout [OF lay, symmetric])
    have nn: "nonneg ?rs" and iops: "\<forall>(i, r) \<in> set ?rs. RequireIOPS r"
      using assms(1) by (auto simp: nonneg_def placed_def)
    have v: "val (quota (hdisks h1 ! i) k) = val (quota (hdisks h ! i) k) - sumv ?rs i k" "sumv ?rs i k \<le> val (quota (hdisks h ! i) k)"
      if "i \<in> fst ` set ?rs" for i k
      using pass_val [OF first(3) nn first(5) that, of k] pass_ok_iff [OF nn first(5)] first(2,3) that
      unfolding covered_def by auto
    have left: "leftover ?rs (hdisks h1)"
      using v val_less by (auto simp: leftover_def i64_le_iff)
    obtain h2 ps where rest: "mount_passes mountRequests k h1 = (h2, ps)" by fastforce
    have eq: "h' = h2" "diskPlans = proto # ps" using assms(5) run Inr k rest by simp_all
    have "nat (bound - 1) = k" using k assms(3) by simp
    with rest have "mount_passes mountRequests (nat (bound - 1)) h1 = (h2, ps)" by simp
    from applyMountPasses_resolved [OF run [unfolded Inr] first(1) rs nn iops left assms(3,4) this]
    have "applyMountPasses mountRequests bound h = (h', Inr (int (length diskPlans), proto))"
      using eq by simp
    moreover have "\<forall>p \<in> set ps. p = proto"
    proof -
      from mount_passes_spec [OF first(1) rs nn leftover_room [OF left] rest]
      have "ps = replicate (length ps) (plan_of (hdisks h1) ?rs [])" by blast
      moreover have "plan_of (hdisks h1) ?rs [] = proto"
        using plan_of_layout [OF lay [unfolded layout_def] first(5)] first(4) by simp
      ultimately show ?thesis by (metis in_set_replicate)
    qed
    ultimately show ?thesis using eq by auto
  qed
qed

text \<open>
  C5: \<open>applyMountPasses\<close> is the enumeration loop in closed form: for valid requests, a bound of at
  least one and a coherent cache it returns the number of passes the loop makes, every disk plan of
  the loop is the prototype, and the host it leaves (quotas of all disks, the trailing failed pass
  included) is the loop's.
\<close>

theorem applyMountPasses_is_loop:
  assumes "\<forall>r \<in> set mountRequests. ValidIOParameters r" "cache_ok h" "1 \<le> bound" "bound \<le> MaxInt"
    and "mount_passes mountRequests (nat bound) h = (h', diskPlans)"
  shows "\<exists>prototype. applyMountPasses mountRequests bound h = (h', Inr (int (length diskPlans), prototype)) \<and>
    (\<forall>diskPlan \<in> set diskPlans. diskPlan = prototype)"
  by (rule applyMountPasses_loop [OF assms])

theorem applyMountPasses_is_loop_witness:
  "\<exists>h' prototype. applyMountPasses [sample_mount] 5 (newHost sample_info 5) = (h', Inr (3, prototype))"
proof -
  let ?h = "newHost sample_info 5"
  obtain h' ps where loop: "mount_passes [sample_mount] (nat 5) ?h = (h', ps)" by fastforce
  have "length (snd (mount_passes [sample_mount] (nat 5) ?h)) = 3" by code_simp
  then have len: "length ps = 3" using loop by simp
  have "\<forall>r \<in> set [sample_mount]. ValidIOParameters r" "cache_ok ?h"
    by code_simp (simp add: cache_ok_def newHost_def split: prod.splits)
  from applyMountPasses_is_loop [OF this _ _ loop] len show ?thesis by (auto simp: MaxInt_def)
qed

end
