(* ===== verification/Account.thy ===== *)
theory Account
  imports Placement Mount_Passes
begin

text \<open>
  Conservation: what the scheduler takes from volumes and disks is what it writes into the plans,
  so no set of plans it returns hands out more than the node has. Amounts are compared as
  integers: the checks of the code rule out that anything wraps around.
\<close>

section \<open>Spending\<close>

text \<open>From amounts \<open>a\<close> to amounts \<open>a'\<close>, \<open>V\<close> was spent, and never below zero.\<close>

definition spend :: "('k \<Rightarrow> i64) \<Rightarrow> ('k \<Rightarrow> int) \<Rightarrow> ('k \<Rightarrow> i64) \<Rightarrow> bool" where
  "spend a V a' \<longleftrightarrow> (\<forall>k. 0 \<le> V k \<and> val (a k) = val (a' k) + V k \<and> (0 < V k \<longrightarrow> 0 \<le> val (a' k)))"

lemma spend_refl [simp]: "spend a (\<lambda>_. 0) a"
  by (simp add: spend_def)

lemma spend_trans: "spend a V b \<Longrightarrow> spend b W c \<Longrightarrow> spend a (\<lambda>k. V k + W k) c"
  unfolding spend_def by (smt (verit))

lemma spend_le: "spend a V a' \<Longrightarrow> 0 < V k \<Longrightarrow> V k \<le> val (a k)"
  unfolding spend_def by (smt (verit))

lemma spend_cong: "spend a V b \<Longrightarrow> (\<And>k. V k = W k) \<Longrightarrow> spend a W b"
  by (simp add: spend_def)

text \<open>What two plans hold together does not wrap around when both were paid for.\<close>

lemma spend_plans:
  assumes "spend a (\<lambda>k. val (p k)) b" "spend b (\<lambda>k. val (q k)) c"
  shows "spend a (\<lambda>k. val (p k + q k)) c"
proof (rule spend_cong [OF spend_trans [OF assms]])
  fix k
  have "0 \<le> val (p k)" "0 \<le> val (q k)" using assms by (auto simp: spend_def)
  moreover have "val (p k) + val (q k) < 2 ^ 63"
  proof (cases "0 < val (p k) + val (q k)")
    case True
    with spend_le [OF spend_trans [OF assms], of k] val_less [of "a k"] show ?thesis by simp
  qed simp
  ultimately show "val (p k) + val (q k) = val (p k + q k)"
    by (simp add: val_add in_range_def)
qed

section \<open>Volumes\<close>

definition vol_of :: "volume list \<Rightarrow> string \<Rightarrow> i64" where
  "vol_of vs d = sum_list (map (\<lambda>v. if vdevice v = d then vsize v else 0) vs)"

definition plan_use :: "VolumePlan \<Rightarrow> string \<Rightarrow> i64" where
  "plan_use plan d = sum_list (map (\<lambda>(_, vm). if GetDevice vm = d then GetSize vm else 0) plan)"

text \<open>Every binding of the plan is on one device.\<close>

definition single :: "VolumePlan \<Rightarrow> bool" where
  "single plan \<longleftrightarrow> (\<forall>e \<in> set plan. \<exists>d s. snd e = [(d, s)])"

lemma single_simps [simp]: "single []" "single (e # p) \<longleftrightarrow> (\<exists>d s. snd e = [(d, s)]) \<and> single p"
  "single (p @ q) \<longleftrightarrow> single p \<and> single q"
  by (auto simp: single_def)

lemma vol_of_simps [simp]: "vol_of [] d = 0"
  "vol_of (v # vs) d = (if vdevice v = d then vsize v else 0) + vol_of vs d"
  "vol_of (vs @ ws) d = vol_of vs d + vol_of ws d"
  by (simp_all add: vol_of_def)

lemma plan_use_simps [simp]: "plan_use [] d = 0"
  "plan_use ((r, vm) # p) d = (if GetDevice vm = d then GetSize vm else 0) + plan_use p d"
  "plan_use (p @ q) d = plan_use p d + plan_use q d"
  by (simp_all add: plan_use_def)

lemma vol_of_mset: "mset vs = mset ws \<Longrightarrow> vol_of vs = vol_of ws"
  unfolding vol_of_def by (intro ext sum_list_mset_eq)

lemma vol_of_absent: "d \<notin> vdevice ` set vs \<Longrightarrow> vol_of vs d = 0"
  by (induction vs) auto

lemma vol_of_unique: "distinct (map vdevice vs) \<Longrightarrow> v \<in> set vs \<Longrightarrow> vol_of vs (vdevice v) = vsize v"
  by (induction vs) (auto simp: vol_of_absent)

lemma distinct_mset_map: "mset (map f xs) = mset (map f ys) \<Longrightarrow> distinct (map f xs) = distinct (map f ys)"
  using mset_eq_imp_distinct_iff by blast

lemma charge_volume_spend:
  assumes "v \<in> set vs" "distinct (map vdevice vs)" "0 \<le> SizeInBytes req" "SizeInBytes req \<le> vsize v"
    and "vs' = insort (charge_volume req v) (remove1 v vs)"
  shows "spend (vol_of vs) (\<lambda>d. val (plan_use [(req, [(vdevice v, SizeInBytes req)])] d)) (vol_of vs') \<and>
    mset (map vdevice vs') = mset (map vdevice vs)"
proof -
  have rest: "mset vs = mset (v # remove1 v vs)" using assms(1) by simp
  have "mset vs' = mset (charge_volume req v # remove1 v vs)" by (simp add: assms(5))
  then have vs': "vol_of vs' = vol_of (charge_volume req v # remove1 v vs)"
    "mset (map vdevice vs') = mset (map vdevice (charge_volume req v # remove1 v vs))"
    using vol_of_mset by (blast, simp)
  have zero: "vol_of (remove1 v vs) (vdevice v) = 0"
  proof -
    have "vol_of vs (vdevice v) = vsize v" using assms(1,2) by (simp add: vol_of_unique)
    then show ?thesis using vol_of_mset [OF rest] by simp
  qed
  have "mset (map vdevice vs') = mset (map vdevice (v # remove1 v vs))"
    using vs'(2) by (simp add: charge_volume_def)
  also have "\<dots> = mset (map vdevice vs)"
    unfolding mset_map by (rule arg_cong [OF rest [symmetric]])
  finally have "mset (map vdevice vs') = mset (map vdevice vs)" .
  moreover have "spend (vol_of vs) (\<lambda>d. val (plan_use [(req, [(vdevice v, SizeInBytes req)])] d)) (vol_of vs')"
    using vol_of_mset [OF rest] vs'(1) zero assms(3,4)
    by (auto simp: spend_def charge_volume_def GetDevice_def GetSize_def val_diff_le i64_le_iff)
  ultimately show ?thesis by blast
qed

section \<open>Disks\<close>

definition layout_of :: "Disks \<Rightarrow> (string \<times> string list) list" where
  "layout_of ds = map (\<lambda>d. (Device d, Mounts d)) ds"

lemma layout_of_wf: "layout_of ds' = layout_of ds \<Longrightarrow> wf_disks ds' = wf_disks ds"
proof -
  have dev: "map fst (layout_of ds) = map Device ds" for ds by (simp add: layout_of_def)
  assume "layout_of ds' = layout_of ds"
  from arg_cong [OF this, of "map fst"] have "map Device ds' = map Device ds" unfolding dev .
  then show ?thesis unfolding wf_disks_def by metis
qed

lemma wf_disks_nth:
  assumes "wf_disks ds" "i < length ds"
  shows "GetDiskByDevice ds (Device (ds ! i)) = Some i"
  unfolding GetDiskByDevice_def
proof (rule index_of_SomeI)
  show "\<not> Device (ds ! j) = Device (ds ! i)" if "j < i" for j
    using that assms nth_eq_iff_index_eq [of "map Device ds" j i] by (simp add: wf_disks_def)
qed (use assms in auto)

lemma amount_charge:
  assumes "wf_disks ds" "i < length ds"
  shows "disks_amount (ds[i := decreaseIOPSQuota req (ds ! i)]) (dev, k) =
     disks_amount ds (dev, k) - disks_amount [DiskQuota req (ds ! i)] (dev, k)"
proof -
  have "quota (DiskQuota req d) k = bquota req k" for d by (cases k) (simp_all add: DiskQuota_def)
  moreover have "disks_amount ds (Device (ds ! i), k) = quota (ds ! i) k"
    by (simp add: disks_amount_def wf_disks_nth [OF assms])
  ultimately show ?thesis
    by (simp add: disks_amount_update [OF wf_disks_nth [OF assms]]) (simp add: DiskQuota_def)
qed

lemma charge_disk_spend:
  assumes "wf_disks ds" "i < length ds" "isDiskIOPSQuotaQualified (Some (ds ! i)) req" "ValidIOParameters req"
    and "ds' = ds[i := decreaseIOPSQuota req (ds ! i)]"
  shows "spend (disks_amount ds) (\<lambda>dk. val (disks_amount [DiskQuota req (ds ! i)] dk)) (disks_amount ds') \<and>
    layout_of ds' = layout_of ds"
proof -
  have q: "quota (DiskQuota req d) k = bquota req k" "Device (DiskQuota req d) = Device d" for d k
    by (cases k) (simp_all add: DiskQuota_def)
  have old: "disks_amount ds (Device (ds ! i), k) = quota (ds ! i) k" for k
    by (simp add: disks_amount_def wf_disks_nth [OF assms(1,2)])
  have "0 \<le> bquota req k \<and> bquota req k \<le> quota (ds ! i) k" for k
    using assms(3,4) by (simp add: qualified_iff ValidIO_iff)
  then have "spend (disks_amount ds) (\<lambda>dk. val (disks_amount [DiskQuota req (ds ! i)] dk)) (disks_amount ds')"
    by (auto simp: spend_def assms(5) amount_charge [OF assms(1,2)] q old val_diff_le i64_le_iff)
  moreover have "layout_of ds' = layout_of ds"
    using layout_update_disk [of "decreaseIOPSQuota req" i "\<lparr>maxDeployCount = 0, usedVolumes = [],
        unusedVolumes = [], hdisks = ds, diskByPath = []\<rparr>"]
    by (simp add: layout_def layout_of_def update_disk_def assms(5))
  ultimately show ?thesis by blast
qed

text \<open>A disk plan that grows with what is paid for.\<close>

definition paid :: "Disks \<Rightarrow> Disks \<Rightarrow> Disks \<Rightarrow> bool" where
  "paid ds dp ds' \<longleftrightarrow> spend (disks_amount ds) (\<lambda>dk. val (disks_amount dp dk)) (disks_amount ds') \<and>
     wf_disks dp \<and> layout_of ds' = layout_of ds"

lemma wf_disks_single [simp]: "wf_disks [d]" "wf_disks []"
  by (simp_all add: wf_disks_def)

lemma paid_refl [simp]: "paid ds [] ds"
  by (simp add: paid_def)

lemma paid_trans:
  assumes "paid ds p ds1" "paid ds1 q ds2"
  shows "paid ds (disks_Add p q) ds2"
proof -
  have "disks_amount (disks_Add p q) dk = disks_amount p dk + disks_amount q dk" for dk
    using assms by (intro disk_ledger.amount_add) (simp_all add: paid_def)
  then show ?thesis
    using assms spend_plans [of "disks_amount ds" "disks_amount p" "disks_amount ds1" "disks_amount q"]
    by (auto simp: paid_def intro: disk_ledger.wf_add)
qed

lemma paid_charge:
  assumes "wf_disks ds" "i < length ds" "isDiskIOPSQuotaQualified (Some (ds ! i)) req" "ValidIOParameters req"
  shows "paid ds [DiskQuota req (ds ! i)] (ds[i := decreaseIOPSQuota req (ds ! i)])"
  using charge_disk_spend [OF assms refl] by (simp add: paid_def)

lemma paid_wf: "paid ds p ds' \<Longrightarrow> wf_disks ds' = wf_disks ds"
  unfolding paid_def using layout_of_wf by blast

section \<open>Normal plans\<close>

definition valid_reqs :: "VolumeBindings \<Rightarrow> bool" where
  "valid_reqs reqs \<longleftrightarrow> (\<forall>r \<in> set reqs. 0 \<le> SizeInBytes r \<and> ValidIOParameters r)"

text \<open>Both kinds of amount at once, with the plans that account for them.\<close>

definition used_up :: "volume list \<Rightarrow> Disks \<Rightarrow> VolumePlan \<Rightarrow> Disks \<Rightarrow> volume list \<Rightarrow> Disks \<Rightarrow> bool" where
  "used_up vs ds vp dp vs' ds' \<longleftrightarrow> spend (vol_of vs) (\<lambda>d. val (plan_use vp d)) (vol_of vs') \<and>
     mset (map vdevice vs') = mset (map vdevice vs) \<and> paid ds dp ds'"

lemma used_up_refl: "used_up vs ds [] [] vs ds"
  by (simp add: used_up_def)

lemma used_up_trans:
  "used_up vs ds vp dp vs1 ds1 \<Longrightarrow> used_up vs1 ds1 vp' dp' vs2 ds2 \<Longrightarrow>
   used_up vs ds (vp @ vp') (disks_Add dp dp') vs2 ds2"
  unfolding used_up_def by (auto intro: spend_plans paid_trans)

lemma greedy_step:
  assumes "find (fits req ds) vs = Some v" "distinct (map vdevice vs)" "wf_disks ds"
    and "0 \<le> SizeInBytes req" "ValidIOParameters req"
    and "vs' = insort (charge_volume req v) (remove1 v vs)"
  shows "case (RequireIOPS req, GetDiskByPath ds (vdevice v)) of
      (True, Some i) \<Rightarrow> used_up vs ds [(req, [(vdevice v, SizeInBytes req)])] [DiskQuota req (ds ! i)]
         vs' (ds[i := decreaseIOPSQuota req (ds ! i)])
    | _ \<Rightarrow> used_up vs ds [(req, [(vdevice v, SizeInBytes req)])] [] vs' ds"
proof -
  have v: "v \<in> set vs" "fits req ds v" using assms(1) by (auto simp: find_Some_iff)
  then have sz: "SizeInBytes req \<le> vsize v" by (simp add: fits_def)
  note vol = charge_volume_spend [OF v(1) assms(2,4) sz assms(6)]
  have "paid ds [DiskQuota req (ds ! i)] (ds[i := decreaseIOPSQuota req (ds ! i)])"
    if "GetDiskByPath ds (vdevice v) = Some i" for i
    using that v(2) assms(3,5) by (intro paid_charge) (simp_all add: fits_def GetDiskByPath_bound)
  with vol show ?thesis by (auto simp: used_up_def split: bool.splits option.splits)
qed


lemma used_up_wf: "used_up vs ds vp dp vs' ds' \<Longrightarrow> distinct (map vdevice vs) \<Longrightarrow> wf_disks ds \<Longrightarrow>
   distinct (map vdevice vs') \<and> wf_disks ds'"
  unfolding used_up_def using distinct_mset_map [of vdevice vs' vs] paid_wf [of ds dp ds'] by blast

lemma used_up_mset:
  assumes "mset vs = mset ws" "mset vs' = mset ws'"
  shows "used_up vs ds vp dp vs' ds' \<longleftrightarrow> used_up ws ds vp dp ws' ds'"
  unfolding used_up_def vol_of_mset [OF assms(1)] vol_of_mset [OF assms(2)]
    mset_devices [OF assms(1)] mset_devices [OF assms(2)] by (rule refl)

lemma greedy_used:
  assumes "greedy reqs vs ds vp0 dp0 = (vs', ds', r)" "used_up vs0 ds0 vp0 dp0 vs ds"
    and "distinct (map vdevice vs)" "wf_disks ds" "valid_reqs reqs"
  shows "\<exists>vp dp. used_up vs0 ds0 vp dp vs' ds' \<and> (\<forall>p. r = Inr p \<longrightarrow> p = (vp, dp))"
  using assms
proof (induction reqs arbitrary: vs ds vp0 dp0)
  case Nil
  then show ?case by auto
next
  case (Cons req reqs)
  show ?case
  proof (cases "find (fits req ds) vs")
    case None
    then show ?thesis using Cons.prems by auto
  next
    case (Some v)
    let ?vs = "insort (charge_volume req v) (remove1 v vs)"
    let ?vp = "vp0 @ [(req, [(vdevice v, SizeInBytes req)])]"
    have req: "0 \<le> SizeInBytes req" "ValidIOParameters req" "valid_reqs reqs"
      using Cons.prems(5) by (simp_all add: valid_reqs_def)
    note step = greedy_step [OF Some Cons.prems(3,4) req(1,2) refl]
    show ?thesis
    proof (cases "RequireIOPS req \<and> GetDiskByPath ds (vdevice v) \<noteq> None")
      case True
      then obtain i where i: "RequireIOPS req" "GetDiskByPath ds (vdevice v) = Some i" by blast
      let ?ds = "ds[i := decreaseIOPSQuota req (ds ! i)]" and ?dp = "disks_Add dp0 [DiskQuota req (ds ! i)]"
      have one: "used_up vs ds [(req, [(vdevice v, SizeInBytes req)])] [DiskQuota req (ds ! i)] ?vs ?ds"
        using step i by simp
      have "greedy reqs ?vs ?ds ?vp ?dp = (vs', ds', r)"
        using Cons.prems(1) Some i by (simp add: Let_def)
      moreover have "used_up vs0 ds0 ?vp ?dp ?vs ?ds"
        by (rule used_up_trans [OF Cons.prems(2) one])
      ultimately show ?thesis
        using Cons.IH used_up_wf [OF one Cons.prems(3,4)] req(3) by blast
    next
      case False
      have one: "used_up vs ds [(req, [(vdevice v, SizeInBytes req)])] [] ?vs ds"
        using step False by (auto split: bool.splits option.splits)
      have "greedy reqs ?vs ds ?vp dp0 = (vs', ds', r)"
        using Cons.prems(1) Some False by (auto simp: Let_def split: bool.splits option.splits)
      moreover have "used_up vs0 ds0 ?vp (disks_Add dp0 []) ?vs ds"
        by (rule used_up_trans [OF Cons.prems(2) one])
      then have "used_up vs0 ds0 ?vp dp0 ?vs ds" by (simp add: disks_Add_def)
      ultimately show ?thesis
        using Cons.IH used_up_wf [OF one Cons.prems(3,4)] req(3) by blast
    qed
  qed
qed

section \<open>Hosts\<close>

text \<open>A host on which the accounts can be kept: each device once, among volumes and among disks.\<close>

definition host_ok :: "host \<Rightarrow> bool" where
  "host_ok h \<longleftrightarrow> cache_ok h \<and> distinct (map vdevice (usedVolumes h)) \<and> wf_disks (hdisks h)"

definition host_used :: "host \<Rightarrow> VolumePlan \<Rightarrow> Disks \<Rightarrow> host \<Rightarrow> bool" where
  "host_used h vp dp h' \<longleftrightarrow> used_up (usedVolumes h) (hdisks h) vp dp (usedVolumes h') (hdisks h')"

lemma getNormalPlan_used:
  assumes "getNormalPlan reqs h = (h', r)" "host_ok h" "valid_reqs reqs"
  shows "\<exists>vp dp. host_used h vp dp h' \<and> (\<forall>p. r = Inr p \<longrightarrow> p = (vp, dp))"
proof -
  have g: "greedy reqs (sort (usedVolumes h)) (hdisks h) [] [] = (sort (usedVolumes h'), hdisks h', r)"
    using getNormalPlan_greedy [OF assms(1)] assms(2) by (simp add: host_ok_def)
  have "distinct (map vdevice (sort (usedVolumes h)))"
    using assms(2) distinct_mset_map [of vdevice "sort (usedVolumes h)" "usedVolumes h"]
    by (simp add: host_ok_def)
  from greedy_used [OF g used_up_refl this _ assms(3)] assms(2)
  show ?thesis
    unfolding host_used_def host_ok_def by (metis mset_sort used_up_mset)
qed

lemma mount_disk_loop_paid:
  assumes "mount_disk_loop reqs dp0 h = (h', r)" "paid ds0 dp0 (hdisks h)" "cache_ok h" "wf_disks (hdisks h)"
    and "valid_reqs reqs"
  shows "\<exists>dp. paid ds0 dp (hdisks h') \<and> (\<forall>p. r = Inr p \<longrightarrow> p = dp)"
  using assms
proof (induction reqs dp0 h rule: mount_disk_loop.induct)
  case (2 req reqs dp0 h)
  have req: "ValidIOParameters req" "valid_reqs reqs" using "2.prems"(5) by (simp_all add: valid_reqs_def)
  show ?case
  proof (cases "RequireIOPS req")
    case True
    obtain disk h1 where d: "getDiskByPath h (Source req) = (disk, h1)" by fastforce
    note dd = getDiskByPath_fields [OF d]
    show ?thesis
    proof (cases "isDiskIOPSQuotaQualified (disk_at h1 disk) req")
      case q: True
      with True obtain i where i: "disk = Some i" by (cases disk) (auto simp: disk_at_def)
      let ?h2 = "update_disk i (decreaseIOPSQuota req) h1"
      have len: "i < length (hdisks h)" using dd(6) "2.prems"(3) i GetDiskByPath_bound by metis
      have one: "paid (hdisks h) [DiskQuota req (hdisks h ! i)] (hdisks ?h2)"
        using paid_charge [OF "2.prems"(4) len _ req(1)] q i dd(4) by (simp add: disk_at_def update_disk_def)
      have quota: "DiskQuota req (hdisks ?h2 ! i) = DiskQuota req (hdisks h ! i)"
        using len dd(4) by (simp add: update_disk_def)
      have run: "mount_disk_loop reqs (disks_Add dp0 [DiskQuota req (hdisks ?h2 ! i)]) ?h2 = (h', r)"
        using "2.prems"(1) True d q i by (simp add: Let_def)
      have "frame h1 ?h2" by (rule frame_update_disk) simp_all
      then have ok: "cache_ok ?h2" "wf_disks (hdisks ?h2)"
        using dd(5) "2.prems"(3,4) paid_wf [OF one] by (auto simp: frame_def)
      have pd: "paid ds0 (disks_Add dp0 [DiskQuota req (hdisks ?h2 ! i)]) (hdisks ?h2)"
        unfolding quota by (rule paid_trans [OF "2.prems"(2) one])
      show ?thesis
        by (rule "2.IH"(2) [OF _ d [symmetric] refl _ i refl run pd ok req(2)]) (use True q in simp_all)
    qed (use "2.prems" d True dd in auto)
  qed (use 2 req in auto)
qed auto

text \<open>Amounts given out so far, as exact integers, by however many plans.\<close>

definition given :: "VolumePlan list \<Rightarrow> string \<Rightarrow> int" where
  "given vps d = sum_list (map (\<lambda>p. val (plan_use p d)) vps)"

definition quota_given :: "Disks list \<Rightarrow> string \<times> quota_kind \<Rightarrow> int" where
  "quota_given dps dk = sum_list (map (\<lambda>p. val (disks_amount p dk)) dps)"

lemma given_simps [simp]: "given [] d = 0" "given (p # vps) d = val (plan_use p d) + given vps d"
  "given (vps @ ws) d = given vps d + given ws d"
  "quota_given [] dk = 0" "quota_given (q # dps) dk = val (disks_amount q dk) + quota_given dps dk"
  "quota_given (dps @ es) dk = quota_given dps dk + quota_given es dk"
  by (simp_all add: given_def quota_given_def)

end
