(* ===== verification/Schedule_Capacity.thy ===== *)
theory Schedule_Capacity
  imports Host Samples
begin

text \<open>
  \<open>GetVolumeCapacity\<close> counts the plans \<open>GetVolumePlans\<close> builds: the counting loops follow the
  building loops, and the two bounds on monopoly plans differ only where neither the promotion nor
  the answer can tell.
\<close>

section \<open>Normal plans\<close>

lemma normal_count_eq:
  "normal_count normalRequests mountRequests bound (int (length vps)) h =
     (let (h', vps', dps') = normal_loop normalRequests mountRequests bound vps dps h
      in (h', int (length vps')))"
proof (induction normalRequests mountRequests bound vps dps h rule: normal_loop.induct)
  case (1 n m bound vps dps h)
  show ?case
  proof (cases "int (length vps) < bound")
    case True
    obtain h1 r where r: "getNormalPlan n h = (h1, r)" by fastforce
    show ?thesis
    proof (cases r)
      case (Inr p)
      obtain vp dp where p: "p = (vp, dp)" by fastforce
      obtain h2 r2 where r2: "getMountDiskPlan m h1 = (h2, r2)" by fastforce
      show ?thesis
      proof (cases r2)
        case md: (Inr md)
        from "1.IH" [OF True refl r [symmetric] Inr p [symmetric] refl r2 [symmetric] md] True r r2 Inr p md
        show ?thesis
          by (subst normal_loop.simps, subst normal_count.simps) (simp add: algebra_simps)
      qed (subst normal_loop.simps, subst normal_count.simps, simp add: True r r2 Inr p)
    qed (subst normal_loop.simps, subst normal_count.simps, simp add: True r)
  qed (subst normal_loop.simps, subst normal_count.simps, simp)
qed

text \<open>One round of the loop, and the rounds where it stops.\<close>

lemma normal_loop_step:
  assumes "int (length vps) < bound" "getNormalPlan n h = (h1, Inr (vp, dp))"
    and "getMountDiskPlan m h1 = (h2, Inr md)"
  shows "normal_loop n m bound vps dps h = normal_loop n m bound (vps @ [vp]) (dps @ [disks_Add dp md]) h2"
  by (subst normal_loop.simps) (simp add: assms)

lemma normal_loop_stop:
  assumes "bound \<le> int (length vps) \<or> (\<exists>e. snd (getNormalPlan n h) = Inl e) \<or>
     (\<exists>h1 p e. getNormalPlan n h = (h1, Inr p) \<and> snd (getMountDiskPlan m h1) = Inl e)"
  shows "\<exists>h'. normal_loop n m bound vps dps h = (h', vps, dps)"
  using assms by (subst normal_loop.simps) (auto split: prod.splits sum.splits)

lemma normal_loop_cases:
  obtains (stop) h' where "normal_loop n m bound vps dps h = (h', vps, dps)"
  | (step) h1 vp dp h2 md where "int (length vps) < bound" "getNormalPlan n h = (h1, Inr (vp, dp))"
      "getMountDiskPlan m h1 = (h2, Inr md)"
      "normal_loop n m bound vps dps h = normal_loop n m bound (vps @ [vp]) (dps @ [disks_Add dp md]) h2"
proof (cases "\<exists>h1 vp dp h2 md. int (length vps) < bound \<and> getNormalPlan n h = (h1, Inr (vp, dp)) \<and>
    getMountDiskPlan m h1 = (h2, Inr md)")
  case True
  then show ?thesis using step normal_loop_step by blast
next
  case False
  have "bound \<le> int (length vps) \<or> (\<exists>e. snd (getNormalPlan n h) = Inl e) \<or>
     (\<exists>h1 p e. getNormalPlan n h = (h1, Inr p) \<and> snd (getMountDiskPlan m h1) = Inl e)"
    using False by (metis not_le prod.exhaust_sel sum.exhaust_sel)
  then show ?thesis using stop normal_loop_stop by blast
qed

text \<open>What each round keeps holds of the plans built.\<close>

lemma normal_loop_induct [consumes 2, case_names step]:
  assumes "normal_loop n m bound vps dps h = (h', vps', dps')" "P vps dps h"
    and "\<And>vps dps h h1 vp dp h2 md. P vps dps h \<Longrightarrow> getNormalPlan n h = (h1, Inr (vp, dp)) \<Longrightarrow>
      getMountDiskPlan m h1 = (h2, Inr md) \<Longrightarrow> P (vps @ [vp]) (dps @ [disks_Add dp md]) h2"
  shows "\<exists>h2. P vps' dps' h2"
  using assms(1,2)
proof (induction "nat (bound - int (length vps))" arbitrary: vps dps h rule: less_induct)
  case less
  show ?case
  proof (cases rule: normal_loop_cases [of n m bound vps dps h])
    case stop
    then show ?thesis using less.prems by auto
  next
    case (step h1 vp dp h2 md)
    show ?thesis
      by (rule less.hyps [of "vps @ [vp]" "dps @ [disks_Add dp md]" h2])
        (use step less.prems assms(3) in auto)
  qed
qed

lemma normal_loop_lengths:
  assumes "normal_loop n m bound vps dps h = (h', vps', dps')" "length vps = length dps"
  shows "length vps' = length dps'"
proof -
  have "\<exists>h2. (\<lambda>vps dps h. length vps = length dps) vps' dps' (h2 :: host)"
    by (rule normal_loop_induct [OF assms(1)]) (simp_all add: assms(2))
  then show ?thesis by simp
qed

lemma repeatWith_Inr_iff: "repeatWith n x = Inr xs \<longleftrightarrow> 0 \<le> n \<and> xs = replicate (nat n) x"
  by (auto simp: repeatWith_def)

lemma emptyPlans_Inr_iff:
  "emptyPlans h = Inr p \<longleftrightarrow> 0 \<le> maxDeployCount h \<and>
     p = (replicate (nat (maxDeployCount h)) [], replicate (nat (maxDeployCount h)) [])"
  by (cases p) (auto simp: emptyPlans_def repeatWith_def)

lemma getNormalPlans_count:
  assumes "getNormalPlans n m bound h = (h', Inr (vps, dps))"
  shows "countNormalPlans n m bound h = (h', Inr (int (length vps)))" "length vps = length dps"
proof -
  have "countNormalPlans n m bound h = (h', Inr (int (length vps))) \<and> length vps = length dps"
  proof (cases "n = []")
    case True
    with assms show ?thesis
      by (auto simp: getNormalPlans_def countNormalPlans_def emptyPlans_Inr_iff getMountOnlyPlans_def
          repeatWith_Inr_iff bind_res_Inr_iff split: if_splits prod.splits)
  next
    case False
    then show ?thesis
      using assms normal_count_eq [of n m bound "[]" h "[]"] normal_loop_lengths [of n m bound "[]" "[]" h]
      by (auto simp: getNormalPlans_def countNormalPlans_def split: prod.splits)
  qed
  then show "countNormalPlans n m bound h = (h', Inr (int (length vps)))" "length vps = length dps"
    by simp_all
qed

section \<open>Monopoly plans\<close>

text \<open>How many of the volumes a monopoly plan succeeds on.\<close>

fun mono_success :: "VolumeBindings \<Rightarrow> volume list \<Rightarrow> host \<Rightarrow> nat" where
  "mono_success reqs [] h = 0"
| "mono_success reqs (v # vs) h =
     (let (h1, _, r) = getMonoPlan reqs v h
      in (case r of Inl _ \<Rightarrow> 0 | Inr _ \<Rightarrow> 1) + mono_success reqs vs h1)"

lemma mono_success_le: "mono_success reqs vs h \<le> length vs"
  by (induction reqs vs h rule: mono_success.induct)
    (auto simp: Let_def le_SucI split: prod.splits sum.splits)

lemma mono_loop_length:
  assumes "mono_loop reqs bound vs h vps dps = (h', vs', vps', dps')"
    and "int (length vps) \<le> bound" "length vps = length dps"
  shows "int (length vps') = min bound (int (length vps) + int (mono_success reqs vs h)) \<and>
    length vps' = length dps' \<and> map vdevice vs' = map vdevice vs"
  using assms
proof (induction reqs bound vs h vps dps arbitrary: h' vs' vps' dps' rule: mono_loop.induct)
  case (2 reqs bound v vs h vps dps)
  show ?case
  proof (cases "bound \<le> int (length vps)")
    case False
    obtain h1 v1 r where r: "getMonoPlan reqs v h = (h1, v1, r)" by (metis prod_cases3)
    have v1: "vdevice v1 = vdevice v"
      using r by (auto simp: getMonoPlan_def Let_def split: if_splits prod.splits bool.splits list.splits option.splits)
    show ?thesis
    proof (cases r)
      case (Inl e)
      with "2.prems"(1) False r obtain vs2 where
        *: "mono_loop reqs bound vs h1 vps dps = (h', vs2, vps', dps')" "vs' = v1 # vs2"
        by (auto split: prod.splits)
      from "2.IH"(1) [OF False refl r [symmetric] refl Inl *(1) "2.prems"(2,3)]
      show ?thesis using * r Inl v1 by simp
    next
      case (Inr p)
      obtain vp dp where p: "p = (vp, dp)" by fastforce
      let ?dp = "case dp of None \<Rightarrow> [] | Some d \<Rightarrow> [d]"
      from "2.prems"(1) False r Inr p obtain vs2 where
        *: "mono_loop reqs bound vs h1 (vps @ [vp]) (dps @ [?dp]) = (h', vs2, vps', dps')" "vs' = v1 # vs2"
        by (auto split: prod.splits)
      from "2.IH"(2) [OF False refl r [symmetric] refl Inr p [symmetric] *(1)] "2.prems"(2,3) False
      show ?thesis using * r Inr v1 by (simp add: algebra_simps)
    qed
  qed (use 2 in auto)
qed auto

lemma mono_count_eq:
  "c \<le> bound \<Longrightarrow> mono_count reqs bound vs h c = min bound (c + int (mono_success reqs vs h))"
proof (induction reqs bound vs h c rule: mono_count.induct)
  case (2 reqs bound v vs h c)
  show ?case
  proof (cases "bound \<le> c")
    case False
    obtain h1 v1 r where r: "getMonoPlan reqs v h = (h1, v1, r)" by (metis prod_cases3)
    from "2.IH" [OF False refl r [symmetric] refl] False r show ?thesis
      by (cases r) auto
  qed (use 2 in simp)
qed simp

lemma getMonoPlans_count:
  assumes "getMonoPlans reqs b1 h = (h', Inr (vps, dps))" "0 \<le> b1" "0 \<le> b2"
  shows "length vps = length dps"
    and "reqs = [] \<Longrightarrow> int (length vps) = maxDeployCount h \<and> countMonoPlans reqs b2 h = maxDeployCount h"
    and "reqs \<noteq> [] \<Longrightarrow> \<exists>k. k \<le> length (unusedVolumes h) \<and>
      int (length vps) = min b1 (int k) \<and> countMonoPlans reqs b2 h = min b2 (int k)"
proof -
  have 1: "reqs \<noteq> [] \<Longrightarrow> length vps = length dps \<and>
      int (length vps) = min b1 (int (mono_success reqs (unusedVolumes h) h))"
  proof (cases "unusedVolumes h = []")
    case False
    assume "reqs \<noteq> []"
    with False assms(1) obtain h1 vs where
      "mono_loop reqs b1 (unusedVolumes h) h [] [] = (h1, vs, vps, dps)"
      by (auto simp: getMonoPlans_def split: prod.splits)
    from mono_loop_length [OF this] assms(2) show ?thesis by simp
  qed (use assms in \<open>simp add: getMonoPlans_def\<close>)
  have 2: "reqs = [] \<Longrightarrow> int (length vps) = maxDeployCount h \<and> length vps = length dps"
    using assms(1) by (auto simp: getMonoPlans_def repeatWith_Inr_iff bind_res_Inr_iff)
  from 1 2 show "length vps = length dps" by auto
  from 2 show "reqs = [] \<Longrightarrow> int (length vps) = maxDeployCount h \<and> countMonoPlans reqs b2 h = maxDeployCount h"
    by (simp add: countMonoPlans_def)
  show "\<exists>k. k \<le> length (unusedVolumes h) \<and>
      int (length vps) = min b1 (int k) \<and> countMonoPlans reqs b2 h = min b2 (int k)" if "reqs \<noteq> []"
    using 1 [OF that] that mono_success_le [of reqs "unusedVolumes h" h] mono_count_eq [OF assms(3)]
    by (auto simp: countMonoPlans_def)
qed

section \<open>Promotion\<close>

text \<open>
  Two evaluations that agree on the normal capacity, and on the monopoly capacity as far as it is
  compared with it and with \<open>maxDeployCount\<close>, promote the same volumes.
\<close>

definition agrees :: "int \<Rightarrow> int \<times> int \<times> 'b \<Rightarrow> int \<times> int \<times> 'c \<Rightarrow> bool" where
  "agrees d r s \<longleftrightarrow> fst s = fst r \<and> (fst r < fst (snd s) \<longleftrightarrow> fst r < fst (snd r)) \<and>
     min (min (fst s) (fst (snd s))) d = min (min (fst r) (fst (snd r))) d"

lemma promote_loop_step:
  assumes "normalCapacity < monoCapacity" "normalCapacity < maxDeployCount h"
    and "BinarySearch (\<lambda>v. vsize v < minSize) (unusedVolumes h) = p" "p < length (unusedVolumes h)"
  shows "promote_loop evaluate minSize h (normalCapacity, monoCapacity, b) =
    bind_res (evaluate (h\<lparr>unusedVolumes := delete_at p (unusedVolumes h),
        usedVolumes := usedVolumes h @ [unusedVolumes h ! p]\<rparr>))
      (promote_loop evaluate minSize (h\<lparr>unusedVolumes := delete_at p (unusedVolumes h),
        usedVolumes := usedVolumes h @ [unusedVolumes h ! p]\<rparr>))"
  by (subst promote_loop.simps) (use assms in \<open>simp add: bind_res_def Let_def\<close>)

lemma promote_loop_stop:
  assumes "\<not> (normalCapacity < monoCapacity \<and> normalCapacity < maxDeployCount h) \<or>
    length (unusedVolumes h) \<le> BinarySearch (\<lambda>v. vsize v < minSize) (unusedVolumes h)"
  shows "promote_loop evaluate minSize h (normalCapacity, monoCapacity, b) = Inr (h, normalCapacity, monoCapacity, b)"
  by (subst promote_loop.simps) (use assms in \<open>auto simp: Let_def\<close>)

text \<open>Every round keeps what opening an unused volume keeps.\<close>

definition open_volume :: "nat \<Rightarrow> host \<Rightarrow> host" where
  "open_volume p h = h\<lparr>unusedVolumes := delete_at p (unusedVolumes h),
     usedVolumes := usedVolumes h @ [unusedVolumes h ! p]\<rparr>"

lemma promote_loop_induct [consumes 2, case_names step]:
  assumes "promote_loop evaluate minSize h r = Inr (h', r')" "P h r"
    and "\<And>h r p r1. P h r \<Longrightarrow> fst r < fst (snd r) \<Longrightarrow> fst r < maxDeployCount h \<Longrightarrow>
      p = BinarySearch (\<lambda>v. vsize v < minSize) (unusedVolumes h) \<Longrightarrow>
      p < length (unusedVolumes h) \<Longrightarrow> evaluate (open_volume p h) = Inr r1 \<Longrightarrow> P (open_volume p h) r1"
  shows "P h' r'"
  using assms(1,2)
proof (induction "length (unusedVolumes h)" arbitrary: h r rule: less_induct)
  case less
  obtain n m b where r: "r = (n, m, b)" by (metis prod_cases3)
  let ?p = "BinarySearch (\<lambda>v. vsize v < minSize) (unusedVolumes h)"
  show ?case
  proof (cases "n < m \<and> n < maxDeployCount h \<and> ?p < length (unusedVolumes h)")
    case True
    then obtain r1 where r1: "evaluate (open_volume ?p h) = Inr r1"
      "promote_loop evaluate minSize (open_volume ?p h) r1 = Inr (h', r')"
      using less.prems(1) by (auto simp: r promote_loop_step open_volume_def bind_res_Inr_iff)
    show ?thesis
    proof (rule less.hyps [OF _ r1(2)])
      show "length (unusedVolumes (open_volume ?p h)) < length (unusedVolumes h)"
        using True by (auto simp: open_volume_def delete_at_def)
      show "P (open_volume ?p h) r1"
        using assms(3) [OF less.prems(2) _ _ refl _ r1(1)] True by (simp add: r)
    qed
  next
    case False
    then show ?thesis using less.prems by (simp add: r promote_loop_stop not_less)
  qed
qed

lemma promote_loop_agrees:
  assumes "promote_loop evA minSize h r = Inr (h', r')" "agrees (maxDeployCount h) r s"
    and "Q h" "\<And>h p. Q h \<Longrightarrow> p < length (unusedVolumes h) \<Longrightarrow> Q (open_volume p h)"
    and ev: "\<And>h r. Q h \<Longrightarrow> evA h = Inr r \<Longrightarrow> \<exists>s. evB h = Inr s \<and> agrees (maxDeployCount h) r s"
  shows "\<exists>s'. promote_loop evB minSize h s = Inr (h', s') \<and> agrees (maxDeployCount h') r' s'"
  using assms(1-3)
proof (induction "length (unusedVolumes h)" arbitrary: h r s rule: less_induct)
  case less
  obtain n m b where r: "r = (n, m, b)" by (metis prod_cases3)
  obtain m' b' where s: "s = (n, m', b')" "n < m' \<longleftrightarrow> n < m"
    using less.prems(2) by (cases s) (auto simp: agrees_def r)
  let ?p = "BinarySearch (\<lambda>v. vsize v < minSize) (unusedVolumes h)"
  show ?case
  proof (cases "n < m \<and> n < maxDeployCount h \<and> ?p < length (unusedVolumes h)")
    case True
    then obtain r1 where r1: "evA (open_volume ?p h) = Inr r1"
      "promote_loop evA minSize (open_volume ?p h) r1 = Inr (h', r')"
      using less.prems(1) by (auto simp: r promote_loop_step open_volume_def bind_res_Inr_iff)
    have Q: "Q (open_volume ?p h)" using True less.prems(3) assms(4) by blast
    obtain s1 where s1: "evB (open_volume ?p h) = Inr s1"
      "agrees (maxDeployCount (open_volume ?p h)) r1 s1"
      using ev [OF Q r1(1)] by blast
    have "length (unusedVolumes (open_volume ?p h)) < length (unusedVolumes h)"
      using True by (auto simp: open_volume_def delete_at_def)
    from less.hyps [OF this r1(2) s1(2) Q] show ?thesis
      using True s1(1) s by (simp add: promote_loop_step open_volume_def)
  next
    case False
    then show ?thesis using less.prems s by (auto simp: r promote_loop_stop not_less)
  qed
qed

section \<open>The two evaluations agree\<close>

lemma clone_unchanged [simp]:
  "maxDeployCount (clone h) = maxDeployCount h" "unusedVolumes (clone h) = unusedVolumes h"
  "usedVolumes (clone h) = usedVolumes h"
  by (simp_all add: clone_def)

lemma evaluations_agree:
  assumes "evaluate_plans classes bound h = Inr r" "int (length (unusedVolumes h)) \<le> MaxInt"
  shows "\<exists>s. evaluate_counts classes bound h = Inr s \<and> agrees (maxDeployCount h) r s"
proof -
  let ?reqs = "mono_class classes"
  obtain scratch nr where n: "getNormalPlans (normal_class classes) (mount_class classes) bound (clone h) = (scratch, nr)"
    by fastforce
  from assms(1) n obtain nvps ndps where nr: "nr = Inr (nvps, ndps)"
    by (auto simp: evaluate_plans_def bind_res_Inr_iff)
  let ?b2 = "max (maxDeployCount h) (int (length nvps) + 1)"
  let ?b1 = "if unlimited_class classes = [] then ?b2 else MaxInt"
  obtain h1 mr where m: "getMonoPlans ?reqs ?b1 scratch = (h1, mr)" by fastforce
  from assms(1) n nr m obtain mvps mdps where mr: "mr = Inr (mvps, mdps)"
    and r: "r = (int (length nvps), int (length mvps), (nvps, ndps), (mvps, mdps))"
    by (auto simp: evaluate_plans_def bind_res_Inr_iff Let_def)
  have "frame (clone h) scratch" by (rule getNormalPlans_frame [OF n])
  then have sc: "maxDeployCount scratch = maxDeployCount h" "unusedVolumes scratch = unusedVolumes h"
    by (simp_all add: frame_def)
  have count: "evaluate_counts classes bound h =
      Inr (int (length nvps), countMonoPlans ?reqs ?b2 scratch, ())"
    using getNormalPlans_count(1) [OF n [unfolded nr]] by (simp add: evaluate_counts_def)
  have b: "0 \<le> ?b1" "0 \<le> ?b2" by (auto simp: MaxInt_def)
  note mono = getMonoPlans_count [OF m [unfolded mr] b]
  have "agrees (maxDeployCount h) r (int (length nvps), countMonoPlans ?reqs ?b2 scratch, ())"
  proof (cases "?reqs = []")
    case True
    then show ?thesis using mono(2) sc by (simp add: agrees_def r)
  next
    case False
    obtain k where k: "k \<le> length (unusedVolumes h)" "int (length mvps) = min ?b1 (int k)"
      "countMonoPlans ?reqs ?b2 scratch = min ?b2 (int k)"
      using mono(3) [OF False] sc by auto
    then have "int k \<le> MaxInt" using assms(2) by linarith
    then show ?thesis using k(2,3) by (auto simp: agrees_def r)
  qed
  with count show ?thesis by blast
qed

lemma unused_open_volume: "length (unusedVolumes (open_volume p h)) \<le> length (unusedVolumes h)"
  by (simp add: open_volume_def delete_at_def)

lemma volumes_open_volume:
  "p < length (unusedVolumes h) \<Longrightarrow> length (unusedVolumes (open_volume p h)) + length (usedVolumes (open_volume p h))
     = length (unusedVolumes h) + length (usedVolumes h)"
  by (simp add: open_volume_def delete_at_def)

lemma promote_volumes:
  assumes "promote_loop ev minSize h r = Inr (h', r')"
  shows "length (unusedVolumes h') + length (usedVolumes h') = length (unusedVolumes h) + length (usedVolumes h) \<and>
    maxDeployCount h' = maxDeployCount h"
proof -
  have "(\<lambda>h' r. length (unusedVolumes h') + length (usedVolumes h') =
      length (unusedVolumes h) + length (usedVolumes h) \<and> maxDeployCount h' = maxDeployCount h) h' r'"
    by (rule promote_loop_induct [OF assms]) (auto simp: volumes_open_volume open_volume_def delete_at_def)
  then show ?thesis by simp
qed

text \<open>What the last evaluation gave are the plans, each volume plan with its disk plan.\<close>

lemma evaluate_plans_lengths:
  assumes "evaluate_plans classes bound h = Inr (n, m, (nvps, ndps), (mvps, mdps))"
  shows "n = int (length nvps) \<and> length ndps = length nvps \<and> m = int (length mvps) \<and> length mdps = length mvps"
proof -
  obtain scratch nr where n: "getNormalPlans (normal_class classes) (mount_class classes) bound (clone h) = (scratch, nr)"
    by fastforce
  let ?b = "if unlimited_class classes = [] then max (maxDeployCount h) (int (length nvps) + 1) else MaxInt"
  from assms n have nr: "nr = Inr (nvps, ndps)" "n = int (length nvps)" "m = int (length mvps)"
    and m: "snd (getMonoPlans (mono_class classes) ?b scratch) = Inr (mvps, mdps)"
    by (auto simp: evaluate_plans_def bind_res_Inr_iff Let_def)
  obtain h1 where "getMonoPlans (mono_class classes) ?b scratch = (h1, Inr (mvps, mdps))"
    using m by (metis prod.exhaust_sel)
  then show ?thesis
    using nr getNormalPlans_count(2) [OF n [unfolded nr]]
      getMonoPlans_count(1) [of "mono_class classes" ?b scratch h1 mvps mdps ?b]
    by (auto simp: MaxInt_def split: if_splits)
qed

lemma repeatWith_error: "repeatWith n x = Inl e \<Longrightarrow> e = ErrPanic"
  by (auto simp: repeatWith_def split: if_splits)

lemma take_sizes_error: "take_sizes vols dns = Inl e \<Longrightarrow> e = ErrPanic"
proof (induction vols dns rule: take_sizes.induct)
  case (2 vols dn dns)
  then show ?case by (cases "take_size vols dn") (auto simp: take_size_def Let_def split: option.splits)
qed simp

lemma getUnlimitedPlans_error:
  assumes "getUnlimitedPlans nps mps reqs c h = Inl e" "e \<noteq> ErrPanic"
  shows "reqs \<noteq> [] \<and> usedVolumes h = [] \<and> unusedVolumes h = []"
proof (cases "reqs = [] \<or> usedVolumes h @ unusedVolumes h \<noteq> []")
  case True
  then have False
  proof
    assume "usedVolumes h @ unusedVolumes h \<noteq> []"
    then obtain v vs where v: "usedVolumes h @ unusedVolumes h = v # vs" by (cases "usedVolumes h @ unusedVolumes h") auto
    with assms show False
      by (cases "take_sizes (v # vs) (concat (map plan_sizes (nps @ mps)))")
        (auto simp: getUnlimitedPlans_def Let_def split: if_splits dest: repeatWith_error take_sizes_error)
  qed (use assms in \<open>auto simp: getUnlimitedPlans_def dest: repeatWith_error\<close>)
  then show ?thesis ..
qed auto

section \<open>The theorem\<close>

lemma split_volumes_length:
  "length (fst (split_volumes capacity usage)) + length (snd (split_volumes capacity usage)) = length capacity"
proof -
  have "length (fst p) + length (snd p) = length (fst acc) + length (snd acc) + length capacity"
    if "p = fold (\<lambda>(device, size) (usedVols, unusedVols).
         let used = mget usage device in
         if used = 0 then (usedVols, unusedVols @ [Volume device size])
         else (usedVols @ [Volume device (size - used)], unusedVols)) capacity acc" for p acc
    using that by (induction capacity arbitrary: acc) (auto simp: Let_def split: prod.splits if_splits)
  then show ?thesis by (auto simp: split_volumes_def)
qed

lemma newHost_unused: "length (unusedVolumes (newHost info n)) \<le> length (Volumes (Capacity info))"
  using split_volumes_length [of "Volumes (Capacity info)" "Volumes (Usage info)"]
  by (auto simp: newHost_def split: prod.splits)

lemma maxDeployCount_newHost [simp]: "maxDeployCount (newHost info n) = n"
  by (simp add: newHost_def split: prod.splits)

lemma getVolumePlans_count:
  assumes "getVolumePlans requests h = Inr (vps, dps)" "int (length (unusedVolumes h)) \<le> MaxInt"
  shows "getVolumeCapacity requests h = Inr (int (length vps)) \<and> length dps = length vps"
proof -
  let ?classes = "classifyVolumeBindings requests"
  let ?bound = "normalBound ?classes h"
  let ?none = "0 < length (normal_class ?classes) + length (mono_class ?classes) + length (unlimited_class ?classes) \<and>
           length (unusedVolumes h) + length (usedVolumes h) = 0"
  consider "\<not> NeedSchedule requests" | "NeedSchedule requests" "?none" | (run) "NeedSchedule requests" "\<not> ?none"
    by blast
  then show ?thesis
  proof cases
    case run
    let ?min = "case normal_class ?classes of [] \<Rightarrow> of_val MaxInt | r # _ \<Rightarrow> SizeInBytes r"
    from assms(1) run obtain r0 h1 n m nvps ndps mvps mdps where ev: "evaluate_plans ?classes ?bound h = Inr r0"
      and pr: "promote_loop (evaluate_plans ?classes ?bound) ?min h r0 = Inr (h1, n, m, (nvps, ndps), (mvps, mdps))"
      and fin: "(case getUnlimitedPlans nvps mvps (unlimited_class ?classes) (min (min n m) (maxDeployCount h1)) h1 of
            Inl e \<Rightarrow> if e = ErrPanic then Inl e else Inr ([], [])
          | Inr uvps \<Rightarrow> if min (min n m) (maxDeployCount h1) < 0 then Inl ErrPanic
              else Inr (map (\<lambda>i. plan_Merge (plan_Merge (nvps ! i) (mvps ! i)) (uvps ! i)) [0..<nat (min (min n m) (maxDeployCount h1))],
                   map (\<lambda>i. disks_Add (ndps ! i) (mdps ! i)) [0..<nat (min (min n m) (maxDeployCount h1))])) = Inr (vps, dps)"
      by (auto simp: getVolumePlans_def promote_def Let_def bind_res_Inr_iff simp del: max.absorb1 min.absorb1)
    obtain s0 where s0: "evaluate_counts ?classes ?bound h = Inr s0" "agrees (maxDeployCount h) r0 s0"
      using evaluations_agree [OF ev assms(2)] by blast
    have "\<exists>s1. promote_loop (evaluate_counts ?classes ?bound) ?min h s0 = Inr (h1, s1) \<and>
        agrees (maxDeployCount h1) (n, m, (nvps, ndps), (mvps, mdps)) s1"
    proof (rule promote_loop_agrees [OF pr s0(2), where Q = "\<lambda>h. int (length (unusedVolumes h)) \<le> MaxInt"])
      show "int (length (unusedVolumes (open_volume p h))) \<le> MaxInt"
        if "int (length (unusedVolumes h)) \<le> MaxInt" for h p
        using that unused_open_volume [of p h] by linarith
    qed (use assms(2) evaluations_agree in blast)+
    then obtain s1 where s1: "promote_loop (evaluate_counts ?classes ?bound) ?min h s0 = Inr (h1, s1)"
      "agrees (maxDeployCount h1) (n, m, (nvps, ndps), (mvps, mdps)) s1"
      by blast
    have cap: "getVolumeCapacity requests h = Inr (min (min n m) (maxDeployCount h1))"
    proof -
      obtain m' where m': "s1 = (n, m', ())"
        and eq: "min (min n m') (maxDeployCount h1) = min (min n m) (maxDeployCount h1)"
        using s1(2) by (cases s1) (auto simp: agrees_def)
      have "getVolumeCapacity requests h = Inr (min (min n m') (maxDeployCount h1))"
        unfolding getVolumeCapacity_def Let_def promote_def s0(1) bind_res_simps s1(1) m'
        using run by auto
      then show ?thesis by (simp only: eq)
    qed
    have "length (unusedVolumes h1) + length (usedVolumes h1) \<noteq> 0 \<or> unlimited_class ?classes = []"
      using run promote_volumes [OF pr] by auto
    then have "\<exists>uvps. getUnlimitedPlans nvps mvps (unlimited_class ?classes) (min (min n m) (maxDeployCount h1)) h1 = Inr uvps"
      using fin getUnlimitedPlans_error by (cases "getUnlimitedPlans nvps mvps (unlimited_class ?classes) (min (min n m) (maxDeployCount h1)) h1")
        (fastforce split: if_splits)+
    then have "length vps = nat (min (min n m) (maxDeployCount h1))" "length dps = length vps"
      "0 \<le> min (min n m) (maxDeployCount h1)"
      using fin by (auto split: if_splits)
    with cap show ?thesis by simp
  qed (use assms in \<open>auto simp: getVolumePlans_def getVolumeCapacity_def emptyPlans_Inr_iff Let_def\<close>)
qed

lemma GetVolumePlans_counts:
  assumes "GetVolumePlans info requests maxCount = Inr (vps, dps)"
    and "int (length (Volumes (Capacity info))) \<le> MaxInt"
  shows "GetVolumeCapacity info requests maxCount = Inr (int (length vps)) \<and> length dps = length vps"
proof -
  have "int (length (unusedVolumes (newHost info maxCount))) \<le> MaxInt"
    using assms(2) newHost_unused [of info maxCount] by linarith
  with assms(1) show ?thesis
    unfolding GetVolumePlans_def GetVolumeCapacity_def by (rule getVolumePlans_count)
qed

text \<open>
  C3: \<open>GetVolumeCapacity\<close> is the number of plans \<open>GetVolumePlans\<close> returns, for every node,
  request and count on which \<open>GetVolumePlans\<close> returns; and every volume plan comes with its disk
  plan. (\<open>MaxInt\<close> bounds the number of volumes as it does every Go map.)
\<close>

theorem GetVolumeCapacity_counts_plans:
  assumes "GetVolumePlans info requests maxCount = Inr (vps, dps)"
    and "int (length (Volumes (Capacity info))) \<le> MaxInt"
  shows "GetVolumeCapacity info requests maxCount = Inr (int (length vps)) \<and> length dps = length vps"
  by (rule GetVolumePlans_counts [OF assms])

theorem GetVolumeCapacity_counts_plans_witness:
  "GetVolumeCapacity sample_info [sample_normal, sample_mono] 3 = Inr 2"
proof -
  let ?r = "GetVolumePlans sample_info [sample_normal, sample_mono] 3"
  have "(case ?r of Inr (vps, _) \<Rightarrow> length vps = 2 | Inl _ \<Rightarrow> False)" by code_simp
  then obtain vps dps where r: "?r = Inr (vps, dps)" "length vps = 2" by (auto split: sum.splits)
  have "int (length (Volumes (Capacity sample_info))) \<le> MaxInt" by code_simp
  with GetVolumeCapacity_counts_plans [OF r(1)] r(2) show ?thesis by simp
qed

end
