(* ===== verification/Backing.thy ===== *)
theory Backing
  imports Account Schedule_Capacity
begin

text \<open>
  No plan hands out what the node does not have: the volume plans \<open>GetVolumePlans\<close> returns for any
  number of workloads take, together, at most the free space of every volume, and the disk plans at
  most the free quota of every disk.
\<close>

section \<open>What a host paid for\<close>

definition nonneg_plans :: "VolumePlan list \<Rightarrow> Disks list \<Rightarrow> bool" where
  "nonneg_plans vps dps \<longleftrightarrow> (\<forall>p \<in> set vps. \<forall>d. 0 \<le> val (plan_use p d)) \<and>
     (\<forall>q \<in> set dps. wf_disks q \<and> (\<forall>dk. 0 \<le> val (disks_amount q dk)))"

lemma nonneg_plans_simps [simp]: "nonneg_plans [] []"
  "nonneg_plans (vps @ vps') (dps @ dps') \<longleftrightarrow> nonneg_plans vps dps \<and> nonneg_plans vps' dps'"
  by (auto simp: nonneg_plans_def)

definition backed :: "host \<Rightarrow> VolumePlan list \<Rightarrow> Disks list \<Rightarrow> host \<Rightarrow> bool" where
  "backed h vps dps h' \<longleftrightarrow> nonneg_plans vps dps \<and>
     (\<exists>V Q. spend (vol_of (usedVolumes h)) V (vol_of (usedVolumes h')) \<and>
        spend (disks_amount (hdisks h)) Q (disks_amount (hdisks h')) \<and>
        (\<forall>d. given vps d \<le> V d) \<and> (\<forall>dk. quota_given dps dk \<le> Q dk))"

lemma backed_refl [simp]: "backed h [] [] h"
  unfolding backed_def by (rule conjI, simp) (rule exI [of _ "\<lambda>_. 0"], rule exI [of _ "\<lambda>_. 0"], simp)

lemma backed_trans:
  assumes "backed h vps dps h1" "backed h1 vps' dps' h2"
  shows "backed h (vps @ vps') (dps @ dps') h2"
proof -
  obtain V Q where 1: "spend (vol_of (usedVolumes h)) V (vol_of (usedVolumes h1))"
    "spend (disks_amount (hdisks h)) Q (disks_amount (hdisks h1))"
    "\<forall>d. given vps d \<le> V d" "\<forall>dk. quota_given dps dk \<le> Q dk"
    using assms(1) unfolding backed_def by blast
  obtain V' Q' where 2: "spend (vol_of (usedVolumes h1)) V' (vol_of (usedVolumes h2))"
    "spend (disks_amount (hdisks h1)) Q' (disks_amount (hdisks h2))"
    "\<forall>d. given vps' d \<le> V' d" "\<forall>dk. quota_given dps' dk \<le> Q' dk"
    using assms(2) unfolding backed_def by blast
  have "\<forall>d. given (vps @ vps') d \<le> V d + V' d" "\<forall>dk. quota_given (dps @ dps') dk \<le> Q dk + Q' dk"
    using 1(3,4) 2(3,4) by (simp_all add: add_mono)
  then show ?thesis
    using assms spend_trans [OF 1(1) 2(1)] spend_trans [OF 1(2) 2(2)] unfolding backed_def by auto
qed

lemma spend_pos: "spend a V b \<Longrightarrow> 0 \<le> V k"
  by (simp add: spend_def)

lemma backed_drop: "backed h vps dps h' \<Longrightarrow> backed h [] [] h'"
  unfolding backed_def
  by (elim conjE exE, intro conjI exI) (assumption | simp add: spend_pos del: split_paired_All)+

lemma backed_plan:
  assumes "spend (vol_of (usedVolumes h)) (\<lambda>d. val (plan_use vp d)) (vol_of (usedVolumes h'))"
    and "paid (hdisks h) dp (hdisks h')"
  shows "backed h [vp] [dp] h'"
proof -
  have "nonneg_plans [vp] [dp]"
    using assms by (auto simp: nonneg_plans_def paid_def spend_def)
  with assms show ?thesis
    unfolding backed_def paid_def by (auto intro!: exI [of _ "\<lambda>d. val (plan_use vp d)"]
        exI [of _ "\<lambda>dk. val (disks_amount dp dk)"])
qed

lemma host_ok_frame: "frame h h' \<Longrightarrow> host_ok h \<Longrightarrow> host_ok h'"
proof -
  assume fr: "frame h h'" and ok: "host_ok h"
  have "layout_of (hdisks h') = layout_of (hdisks h)"
    using fr by (simp add: frame_def layout_def layout_of_def)
  then show ?thesis
    using fr ok layout_of_wf distinct_mset_map [of vdevice "usedVolumes h'" "usedVolumes h"]
    unfolding frame_def host_ok_def by blast
qed

section \<open>Normal plans\<close>

lemma getNormalPlan_backed:
  assumes "getNormalPlan reqs h = (h', r)" "host_ok h" "valid_reqs reqs"
  shows "host_ok h'" "backed h [] [] h'"
    and "r = Inr (vp, dp) \<Longrightarrow> host_used h vp dp h'"
proof -
  obtain vp1 dp1 where u: "host_used h vp1 dp1 h'" "\<forall>p. r = Inr p \<longrightarrow> p = (vp1, dp1)"
    using getNormalPlan_used [OF assms] by blast
  show "host_ok h'" by (rule host_ok_frame [OF getNormalPlan_frame [OF assms(1)] assms(2)])
  show "backed h [] [] h'"
    using u(1) backed_drop [OF backed_plan] unfolding host_used_def used_up_def by blast
  show "r = Inr (vp, dp) \<Longrightarrow> host_used h vp dp h'" using u by auto
qed

lemma getMountDiskPlan_paid:
  assumes "getMountDiskPlan reqs h = (h', r)" "host_ok h" "valid_reqs reqs"
  shows "host_ok h'" "usedVolumes h' = usedVolumes h" "backed h [] [] h'"
    and "r = Inr dp \<Longrightarrow> paid (hdisks h) dp (hdisks h')"
proof -
  have "cache_ok h" "wf_disks (hdisks h)" using assms(2) by (simp_all add: host_ok_def)
  from mount_disk_loop_paid [OF assms(1) [unfolded getMountDiskPlan_def] paid_refl this assms(3)]
  obtain q where q: "paid (hdisks h) q (hdisks h')" "\<forall>p. r = Inr p \<longrightarrow> p = q" by blast
  have fr: "frame h h'" "usedVolumes h' = usedVolumes h"
    using getMountDiskPlan_frame [OF assms(1)] by simp_all
  show "host_ok h'" by (rule host_ok_frame [OF fr(1) assms(2)])
  show "usedVolumes h' = usedVolumes h" by (rule fr(2))
  have "backed h [[]] [q] h'" by (rule backed_plan) (use q(1) in \<open>simp_all add: fr(2)\<close>)
  then show "backed h [] [] h'" by (rule backed_drop)
  show "r = Inr dp \<Longrightarrow> paid (hdisks h) dp (hdisks h')" using q by auto
qed

lemma normal_round:
  assumes "getNormalPlan n h = (h1, Inr (vp, dp))" "getMountDiskPlan m h1 = (h2, Inr md)"
    and "host_ok h" "valid_reqs n" "valid_reqs m"
  shows "backed h [vp] [disks_Add dp md] h2" "host_ok h2"
proof -
  note 1 = getNormalPlan_backed [OF assms(1,3,4)]
  note 2 = getMountDiskPlan_paid [OF assms(2) 1(1) assms(5)]
  have u: "used_up (usedVolumes h) (hdisks h) vp dp (usedVolumes h1) (hdisks h1)"
    using 1(3) [OF refl] by (simp add: host_used_def)
  show "backed h [vp] [disks_Add dp md] h2"
    by (rule backed_plan) (use u 2(2) paid_trans [OF _ 2(4) [OF refl]] in \<open>simp_all add: used_up_def\<close>)
  show "host_ok h2" by (rule 2(1))
qed

lemma normal_loop_backed:
  assumes "normal_loop n m bound vps dps h = (h', vps', dps')" "host_ok h" "valid_reqs n" "valid_reqs m"
  shows "\<exists>vs ds. vps' = vps @ vs \<and> dps' = dps @ ds \<and> backed h vs ds h'"
  using assms
proof (induction n m bound vps dps h rule: normal_loop.induct)
  case (1 n m bound vps dps h)
  show ?case
  proof (cases "int (length vps) < bound")
    case True
    obtain h1 r where r: "getNormalPlan n h = (h1, r)" by fastforce
    obtain h2 r2 where r2: "getMountDiskPlan m h1 = (h2, r2)" by fastforce
    note w1 = getNormalPlan_backed [OF r "1.prems"(2,3)]
    note w2 = getMountDiskPlan_paid [OF r2 w1(1) "1.prems"(4)]
    show ?thesis
    proof (cases "isl r \<or> isl r2")
      case stop: True
      then have "(h' = h1 \<or> h' = h2) \<and> vps' = vps \<and> dps' = dps"
        using "1.prems"(1) True r r2 by (subst (asm) normal_loop.simps) (auto split: sum.splits)
      moreover have "backed h [] [] h1" "backed h [] [] h2"
        using w1(2) backed_trans [OF w1(2) w2(3)] by simp_all
      ultimately show ?thesis by auto
    next
      case False
      then obtain vp dp md where p: "r = Inr (vp, dp)" "r2 = Inr md" by (auto simp: isl_def) (metis obj_sumE surj_pair)
      note round = normal_round [OF r [unfolded p] r2 [unfolded p] "1.prems"(2-4)]
      have "normal_loop n m bound (vps @ [vp]) (dps @ [disks_Add dp md]) h2 = (h', vps', dps')"
        using "1.prems"(1) True r r2 p by (simp add: normal_loop.simps [of n m bound vps])
      from "1.IH" [OF True refl r [symmetric] p(1) refl refl r2 [symmetric] p(2) this round(2) "1.prems"(3,4)]
      show ?thesis using backed_trans [OF round(1)] by fastforce
    qed
  qed (use "1.prems" in \<open>simp add: normal_loop.simps\<close>)
qed

section \<open>Plans for mounts alone\<close>

lemma mount_passes_backed:
  assumes "mount_passes reqs k h = (h', dps)" "host_ok h" "valid_reqs reqs"
  shows "backed h (replicate (length dps) []) dps h'"
  using assms
proof (induction reqs k h arbitrary: h' dps rule: mount_passes.induct)
  case (2 reqs k h)
  obtain h1 r where run: "getMountDiskPlan reqs h = (h1, r)" by fastforce
  note w = getMountDiskPlan_paid [OF run "2.prems"(2,3)]
  show ?case
  proof (cases r)
    case (Inl e)
    then show ?thesis using "2.prems"(1) run w(3) by simp
  next
    case (Inr dp)
    obtain h2 ps where rest: "mount_passes reqs k h1 = (h2, ps)" by fastforce
    have "backed h [[]] [dp] h1"
      by (rule backed_plan) (use w(2) w(4) [OF Inr] in simp_all)
    from backed_trans [OF this "2.IH" [OF run [symmetric] refl Inr rest w(1) "2.prems"(3)]]
    show ?thesis using "2.prems"(1) run Inr rest by auto
  qed
qed simp

lemma getNormalPlans_backed:
  assumes "getNormalPlans n m bound h = (h', Inr (vps, dps))" "host_ok h" "valid_reqs n" "valid_reqs m"
    and "bound \<le> MaxInt"
  shows "backed h vps dps h'"
proof -
  consider (empty) "n = []" "\<not> anyRequireIOPS m" | (mounts) "n = []" "anyRequireIOPS m" | (normal) "n \<noteq> []" by blast
  then show ?thesis
  proof cases
    case empty
    have "backed h (replicate k []) (replicate k []) h" for k
    proof (induction k)
      case (Suc k)
      from backed_trans [OF _ Suc, of h "[[]]" "[[]]"] show ?case
        by (simp add: backed_plan)
    qed simp
    then show ?thesis using assms(1) empty by (auto simp: getNormalPlans_def emptyPlans_Inr_iff)
  next
    case mounts
    then have run: "getMountOnlyPlans m bound h = (h', Inr (vps, dps))"
      using assms(1) by (simp add: getNormalPlans_def)
    obtain h1 r where mp: "getMountDiskPlan m h = (h1, r)" by fastforce
    show ?thesis
    proof (cases "isl r \<or> bound < 1")
      case True
      then have "h' = h1 \<and> vps = [] \<and> dps = []"
        using run mp by (auto simp: getMountOnlyPlans_def applyMountPasses_def repeatWith_def split: sum.splits)
      with getMountDiskPlan_paid(3) [OF mp assms(2,4)] show ?thesis by simp
    next
      case False
      obtain h2 ps where loop: "mount_passes m (nat bound) h = (h2, ps)" by fastforce
      have "\<forall>r \<in> set m. ValidIOParameters r" "cache_ok h" "1 \<le> bound"
        using assms(2,4) False by (auto simp: valid_reqs_def host_ok_def)
      from applyMountPasses_loop [OF this assms(5) loop]
      obtain proto where "applyMountPasses m bound h = (h2, Inr (int (length ps), proto))"
        and all: "\<forall>p \<in> set ps. p = proto" by blast
      then have "h' = h2 \<and> vps = replicate (length ps) [] \<and> dps = replicate (length ps) proto"
        using run by (auto simp: getMountOnlyPlans_def repeatWith_def disks_DeepCopy_def)
      moreover have "replicate (length ps) proto = ps" using all by (metis replicate_eqI)
      ultimately show ?thesis using mount_passes_backed [OF loop assms(2,4)] by simp
    qed
  next
    case normal
    then obtain h1 where "normal_loop n m bound [] [] h = (h1, vps, dps)" "h' = h1"
      using assms(1) by (auto simp: getNormalPlans_def split: prod.splits)
    from normal_loop_backed [OF this(1) assms(2-4)] this(2) show ?thesis by auto
  qed
qed

section \<open>Monopoly plans\<close>

lemma mono_shares_use:
  "mono_shares t sz dev reqs rest = (vp, rest') \<Longrightarrow>
   plan_use vp d = (if d = dev then rest - rest' else 0) \<and> map fst vp = reqs \<and>
   (\<forall>e \<in> set vp. \<exists>s. snd e = [(dev, s)])"
proof (induction t sz dev reqs rest arbitrary: vp rest' rule: mono_shares.induct)
  case (2 t sz dev req reqs rest)
  let ?s = "mono_share (SizeInBytes req) t sz"
  obtain p where p: "mono_shares t sz dev reqs (rest - ?s) = (p, rest')" "vp = (req, [(dev, ?s)]) # p"
    using 2(2) by (auto simp: Let_def split: prod.splits)
  from "2.IH" [OF refl p(1)] p(2) show ?case by (auto simp: GetDevice_def GetSize_def)
qed auto

lemma total_quota_simps: "bquota (total_quota reqs) k = sum_list (map (\<lambda>r. bquota r k) reqs)"
proof -
  have "bquota (foldl AddQuota s reqs) k = bquota s k + sum_list (map (\<lambda>r. bquota r k) reqs)" for s
    by (induction reqs arbitrary: s) (simp_all add: add.assoc)
  then show ?thesis by (simp add: total_quota_def)
qed

text \<open>A monopoly plan takes the whole volume, whatever the floating-point shares were.\<close>

lemma getMonoPlan_volume:
  assumes "getMonoPlan reqs v h = (h1, v', Inr (vp, dp))"
  shows "plan_use vp d = (if d = vdevice v then vsize v else 0)" "map fst vp = reqs"
    "SizeInBytes (total_quota reqs) \<le> vsize v" "\<forall>e \<in> set vp. \<exists>s. snd e = [(vdevice v, s)]"
proof -
  obtain p rest where sh: "mono_shares (SizeInBytes (total_quota reqs)) (vsize v) (vdevice v) reqs (vsize v) = (p, rest)"
    by fastforce
  note use = mono_shares_use [OF sh]
  from assms sh have le: "SizeInBytes (total_quota reqs) \<le> vsize v"
    and vp: "vp = (case (rest = 0, p) of
       (False, (req, vm) # q) \<Rightarrow> (req, mput (vdevice v) (mget vm (vdevice v) + rest) vm) # q | _ \<Rightarrow> p)"
    and ok: "\<not> (rest \<noteq> 0 \<and> p = [])"
    by (auto simp: getMonoPlan_def Let_def split: if_splits prod.splits bool.splits list.splits option.splits)
  show "SizeInBytes (total_quota reqs) \<le> vsize v" by (rule le)
  have "plan_use vp d = (if d = vdevice v then vsize v else 0) \<and> map fst vp = reqs \<and>
      (\<forall>e \<in> set vp. \<exists>s. snd e = [(vdevice v, s)])"
  proof (cases "rest = 0")
    case True
    then show ?thesis using use vp by (simp add: case_prod_beta split: bool.splits)
  next
    case False
    with ok obtain req vm q where p: "p = (req, vm) # q" by (cases p) auto
    with use obtain s where vm: "vm = [(vdevice v, s)]" by auto
    have "vp = (req, [(vdevice v, s + rest)]) # q"
      using vp False by (simp add: p vm mput_def)
    moreover have "plan_use q d + (if vdevice v = d then s else 0) = (if d = vdevice v then vsize v - rest else 0)"
      "req # map fst q = reqs" "\<forall>e \<in> set q. \<exists>s. snd e = [(vdevice v, s)]"
      using use [of d] by (auto simp: p vm GetDevice_def GetSize_def algebra_simps split: if_splits)
    ultimately show ?thesis by (auto simp: GetDevice_def GetSize_def algebra_simps split: if_splits)
  qed
  then show "plan_use vp d = (if d = vdevice v then vsize v else 0)" "map fst vp = reqs"
    "\<forall>e \<in> set vp. \<exists>s. snd e = [(vdevice v, s)]" by simp_all
qed

lemma disks_Sub_charge:
  assumes "wf_disks ds" "i < length ds"
  shows "disks_Sub ds [DiskQuota r (ds ! i)] = ds[i := decreaseIOPSQuota r (ds ! i)]"
proof -
  have "sub_quotas d (DiskQuota r d) = decreaseIOPSQuota r d" for d
    by (cases d) (simp add: DiskQuota_def sub_quotas_def decreaseIOPSQuota_def)
  then show ?thesis
    using wf_disks_nth [OF assms] by (simp add: disks_Sub_def DiskQuota_def Let_def)
qed

lemma getMonoPlan_disks:
  assumes "getMonoPlan reqs v h = (h1, v', r)" "cache_ok h" "wf_disks (hdisks h)"
    and "ValidIOParameters (total_quota reqs)"
  shows "frame h h1" "usedVolumes h1 = usedVolumes h"
    and "\<exists>q. paid (hdisks h) q (hdisks h1) \<and>
      (\<forall>vp dp. r = Inr (vp, dp) \<longrightarrow> q = (case dp of None \<Rightarrow> [] | Some d \<Rightarrow> [d]))"
proof -
  let ?t = "total_quota reqs"
  obtain disk h2 where d: "getDiskByPath h (vdevice v) = (disk, h2)" by fastforce
  note dd = getDiskByPath_fields [OF d] and fr = frame_getDiskByPath [OF d]
  have "(h1 = h \<or> h1 = h2) \<and> (\<forall>vp dp. r = Inr (vp, dp) \<longrightarrow> dp = None) \<or>
     (\<exists>i. disk = Some i \<and> isDiskIOPSQuotaQualified (Some (hdisks h2 ! i)) ?t \<and>
        h1 = h2\<lparr>hdisks := disks_Sub (hdisks h2) [DiskQuota ?t (hdisks h2 ! i)]\<rparr> \<and>
        (\<forall>vp dp. r = Inr (vp, dp) \<longrightarrow> dp = Some (DiskQuota ?t (hdisks h2 ! i))))"
    using assms(1) d
    by (auto simp: getMonoPlan_def Let_def disk_at_def split: if_splits prod.splits bool.splits list.splits option.splits)
  then have "frame h h1 \<and> usedVolumes h1 = usedVolumes h \<and> (\<exists>q. paid (hdisks h) q (hdisks h1) \<and>
      (\<forall>vp dp. r = Inr (vp, dp) \<longrightarrow> q = (case dp of None \<Rightarrow> [] | Some d \<Rightarrow> [d])))"
  proof (elim disjE exE conjE)
    fix i
    assume i: "disk = Some i" "isDiskIOPSQuotaQualified (Some (hdisks h2 ! i)) ?t"
      and h1: "h1 = h2\<lparr>hdisks := disks_Sub (hdisks h2) [DiskQuota ?t (hdisks h2 ! i)]\<rparr>"
      and r: "\<forall>vp dp. r = Inr (vp, dp) \<longrightarrow> dp = Some (DiskQuota ?t (hdisks h2 ! i))"
    have len: "i < length (hdisks h)" using dd(6) assms(2) i(1) GetDiskByPath_bound by metis
    have h1': "h1 = update_disk i (decreaseIOPSQuota ?t) h2"
      using disks_Sub_charge [of "hdisks h2" i] assms(3) len dd(4) by (simp add: h1 update_disk_def)
    have "paid (hdisks h) [DiskQuota ?t (hdisks h2 ! i)] (hdisks h1)"
      using paid_charge [OF assms(3) len _ assms(4)] i(2) dd(4) by (simp add: h1' update_disk_def)
    moreover have "frame h h1" unfolding h1' by (rule frame_trans [OF fr frame_update_disk]) simp_all
    moreover have "usedVolumes h1 = usedVolumes h" using dd(2) by (simp add: h1)
    ultimately show ?thesis using r by (intro conjI) (auto intro!: exI [of _ "[DiskQuota ?t (hdisks h2 ! i)]"])
  qed (use fr dd in \<open>auto intro!: exI [of _ "[]"]\<close>)
  then show "frame h h1" "usedVolumes h1 = usedVolumes h" "\<exists>q. paid (hdisks h) q (hdisks h1) \<and>
      (\<forall>vp dp. r = Inr (vp, dp) \<longrightarrow> q = (case dp of None \<Rightarrow> [] | Some d \<Rightarrow> [d]))"
    by simp_all
qed

lemma backed_disks:
  assumes "paid (hdisks h) q (hdisks h')" "usedVolumes h' = usedVolumes h"
  shows "backed h [] [] h'" "backed h [] [q] h'"
proof -
  have "nonneg_plans [] [q]" using assms(1) by (auto simp: nonneg_plans_def paid_def spend_def)
  then show "backed h [] [q] h'"
    using assms unfolding backed_def paid_def
    by (intro conjI exI [of _ "\<lambda>_. 0"] exI [of _ "\<lambda>dk. val (disks_amount q dk)"])
      (simp_all del: split_paired_All)
  then show "backed h [] [] h'" by (rule backed_drop)
qed

definition mono_ok :: "VolumeBindings \<Rightarrow> bool" where
  "mono_ok reqs \<longleftrightarrow> 0 \<le> SizeInBytes (total_quota reqs) \<and> ValidIOParameters (total_quota reqs)"

text \<open>What the plans of the loop take of each volume: nothing, or all of it.\<close>

definition mono_taken :: "VolumeBindings \<Rightarrow> volume list \<Rightarrow> VolumePlan list \<Rightarrow> bool" where
  "mono_taken reqs vs ps \<longleftrightarrow> (\<forall>d. given ps d = 0 \<or> given ps d = val (vol_of vs d)) \<and>
     (\<forall>p \<in> set ps. map fst p = reqs \<and> single p \<and> (\<forall>d. 0 \<le> val (plan_use p d)))"

lemma mono_taken_skip: "mono_taken reqs vs ps \<Longrightarrow> vdevice v \<notin> vdevice ` set vs \<Longrightarrow> mono_taken reqs (v # vs) ps"
  unfolding mono_taken_def by (auto simp: vol_of_absent)

lemma mono_taken_step:
  assumes "mono_taken reqs vs ps" "vdevice v \<notin> vdevice ` set vs" "map fst vp = reqs" "single vp" "0 \<le> vsize v"
    and "\<And>d. plan_use vp d = (if d = vdevice v then vsize v else 0)"
  shows "mono_taken reqs (v # vs) (vp # ps)"
  using assms unfolding mono_taken_def by (auto simp: vol_of_absent i64_le_iff)

lemma mono_loop_backed:
  assumes "mono_loop reqs bound vs h vps dps = (h', vs', vps', dps')" "cache_ok h" "wf_disks (hdisks h)"
    and "distinct (map vdevice vs)" "mono_ok reqs"
  shows "\<exists>ps qs. vps' = vps @ ps \<and> dps' = dps @ qs \<and> mono_taken reqs vs ps \<and> backed h [] qs h'"
  using assms
proof (induction reqs bound vs h vps dps arbitrary: h' vs' vps' dps' rule: mono_loop.induct)
  case (1 reqs bound h vps dps)
  then show ?case by (simp add: mono_taken_def)
next
  case (2 reqs bound v vs h vps dps)
  have fresh: "vdevice v \<notin> vdevice ` set vs" "distinct (map vdevice vs)" using "2.prems"(4) by simp_all
  show ?case
  proof (cases "bound \<le> int (length vps)")
    case True
    then show ?thesis using "2.prems"(1) by (simp add: mono_taken_def)
  next
    case False
    obtain h1 v1 r where r: "getMonoPlan reqs v h = (h1, v1, r)" by (metis prod_cases3)
    note dk = getMonoPlan_disks [OF r "2.prems"(2,3)]
    have tot: "0 \<le> SizeInBytes (total_quota reqs)" "ValidIOParameters (total_quota reqs)"
      using "2.prems"(5) by (simp_all add: mono_ok_def)
    obtain q where q: "paid (hdisks h) q (hdisks h1)"
      "\<forall>vp dp. r = Inr (vp, dp) \<longrightarrow> q = (case dp of None \<Rightarrow> [] | Some d \<Rightarrow> [d])"
      using dk(3) [OF tot(2)] by blast
    have h1: "cache_ok h1" "wf_disks (hdisks h1)"
      using dk(1) [OF tot(2)] "2.prems"(2,3) paid_wf [OF q(1)] by (simp_all add: frame_def)
    note bk = backed_disks [OF q(1) dk(2) [OF tot(2)]]
    show ?thesis
    proof (cases r)
      case (Inl e)
      with "2.prems"(1) False r obtain vs2 where
        run: "mono_loop reqs bound vs h1 vps dps = (h', vs2, vps', dps')"
        by (auto split: prod.splits)
      from "2.IH"(1) [OF False refl r [symmetric] refl Inl run h1 fresh(2) "2.prems"(5)]
      show ?thesis using mono_taken_skip [OF _ fresh(1)] backed_trans [OF bk(1)] by fastforce
    next
      case (Inr p)
      obtain vp dp where p: "p = (vp, dp)" by fastforce
      let ?q = "case dp of None \<Rightarrow> [] | Some d \<Rightarrow> [d]"
      have q': "q = ?q" using q(2) Inr p by blast
      from "2.prems"(1) False r Inr p obtain vs2 where
        run: "mono_loop reqs bound vs h1 (vps @ [vp]) (dps @ [?q]) = (h', vs2, vps', dps')"
        by (auto split: prod.splits)
      obtain ps qs where ih: "vps' = (vps @ [vp]) @ ps" "dps' = (dps @ [?q]) @ qs" "mono_taken reqs vs ps"
        "backed h1 [] qs h'"
        using "2.IH"(2) [OF False refl r [symmetric] refl Inr p [symmetric] run h1 fresh(2) "2.prems"(5)] by blast
      note mp = getMonoPlan_volume [OF r [unfolded Inr p]]
      have "0 \<le> vsize v" using mp(3) tot(1) by (rule order_trans [rotated])
      moreover have "single vp" using mp(4) unfolding single_def by blast
      ultimately have "mono_taken reqs (v # vs) (vp # ps)"
        by (intro mono_taken_step [OF ih(3) fresh(1) mp(2) _ _ mp(1)])
      from this
      have "mono_taken reqs (v # vs) (vp # ps)" .
      moreover have "backed h [] (q # qs) h'" using backed_trans [OF bk(2) ih(4)] by simp
      ultimately show ?thesis using ih(1,2) q' by (intro exI [of _ "vp # ps"] exI [of _ "q # qs"]) simp
    qed
  qed
qed

lemma given_replicate [simp]: "given (replicate n []) d = 0" "quota_given (replicate n []) dk = 0"
  by (induction n) simp_all

lemma getMonoPlans_backed:
  assumes "getMonoPlans reqs bound h = (h', Inr (ps, qs))" "host_ok h"
    and "distinct (map vdevice (unusedVolumes h))" "mono_ok reqs"
  shows "mono_taken reqs (unusedVolumes h) ps" "\<exists>h1. backed h [] qs h1"
proof -
  have "mono_taken reqs (unusedVolumes h) ps \<and> (\<exists>h1. backed h [] qs h1)"
  proof (cases "reqs = []")
    case True
    then have pq: "ps = replicate (length ps) []" "qs = replicate (length qs) []"
      using assms(1) by (auto simp: getMonoPlans_def repeatWith_Inr_iff bind_res_Inr_iff)
    have "mono_taken reqs (unusedVolumes h) (replicate n [])" for n
      using True by (auto simp: mono_taken_def)
    moreover have "backed h [] (replicate n []) h" for n
    proof (induction n)
      case (Suc n)
      from backed_trans [OF backed_disks(2) [OF paid_refl refl] Suc] show ?case by simp
    qed simp
    ultimately show ?thesis using pq by metis
  next
    case False
    show ?thesis
    proof (cases "unusedVolumes h = []")
      case True
      then have "ps = []" "qs = []" using assms(1) False by (auto simp: getMonoPlans_def)
      then show ?thesis by (auto simp: mono_taken_def intro: backed_refl)
    next
      case un: False
      obtain h1 vs where "mono_loop reqs bound (unusedVolumes h) h [] [] = (h1, vs, ps, qs)"
        using assms(1) False un by (auto simp: getMonoPlans_def split: prod.splits)
      from mono_loop_backed [OF this _ _ assms(3,4)] assms(2) show ?thesis
        by (auto simp: host_ok_def)
    qed
  qed
  then show "mono_taken reqs (unusedVolumes h) ps" "\<exists>h1. backed h [] qs h1" by simp_all
qed

end
