(* ===== verification/Plan_Safety.thy ===== *)
theory Plan_Safety
  imports Backing
begin

text \<open>
  The accounts of a whole run of the scheduler: which requests each plan serves, and that all the
  plans together are paid for by what the node has free.
\<close>

section \<open>The requests a plan serves\<close>

lemma normal_reqs_requests:
  "normal_reqs reqs vh vp dp h = (h', vh', Inr (vp', dp')) \<Longrightarrow> map fst vp' = map fst vp @ reqs"
  by (induction reqs arbitrary: vh vp dp h) (auto split: prod.splits sum.splits)

lemma normal_reqs_single:
  "normal_reqs reqs vh vp dp h = (h', vh', Inr (vp', dp')) \<Longrightarrow> single vp \<Longrightarrow> single vp'"
proof (induction reqs arbitrary: vh vp dp h)
  case (Cons req reqs)
  obtain h1 vh1 r where a: "alloc_normal req vh dp h = (h1, vh1, r)" by (metis prod_cases3)
  then obtain vm dp1 where r: "r = Inr (vm, dp1)" "normal_reqs reqs vh1 (vp @ [(req, vm)]) dp1 h1 = (h', vh', Inr (vp', dp'))"
    using Cons.prems(1) by (cases r) auto
  have "\<exists>d s. vm = [(d, s)]"
    using a r(1) by (auto simp: alloc_normal_def Let_def split: prod.splits option.splits if_splits)
  then have "single (vp @ [(req, vm)])" using Cons.prems(2) by simp
  with Cons.IH [OF r(2)] show ?case by blast
qed auto

lemma getNormalPlans_requests:
  assumes "getNormalPlans n m bound h = (h', Inr (vps, dps))" "p \<in> set vps"
  shows "map fst p = n \<and> single p"
proof (cases "n = []")
  case True
  with assms show ?thesis
    by (auto simp: getNormalPlans_def getMountOnlyPlans_def emptyPlans_Inr_iff bind_res_Inr_iff
        repeatWith_Inr_iff split: if_splits prod.splits)
next
  case False
  obtain h1 where run: "normal_loop n m bound [] [] h = (h1, vps, dps)"
    using assms(1) False by (auto simp: getNormalPlans_def split: prod.splits)
  have "\<exists>h2. (\<lambda>(vps :: VolumePlan list) dps (h :: host). \<forall>p \<in> set vps. map fst p = n \<and> single p) vps dps h2"
  proof (rule normal_loop_induct [OF run])
    fix vps :: "VolumePlan list" and dps and h h1 h2 :: host and vp dp md
    assume vps: "\<forall>p \<in> set vps. map fst p = n \<and> single p" and run: "getNormalPlan n h = (h1, Inr (vp, dp))"
    obtain h2 vh where "normal_reqs n (heap_Init (usedVolumes h)) [] [] h = (h2, vh, Inr (vp, dp))"
      using run by (auto simp: getNormalPlan_def split: prod.splits)
    then show "\<forall>p \<in> set (vps @ [vp]). map fst p = n \<and> single p"
      using vps normal_reqs_requests normal_reqs_single by fastforce
  qed simp
  then show ?thesis using assms(2) by blast
qed

lemma getUnlimitedPlans_requests:
  assumes "getUnlimitedPlans nps mps reqs c h = Inr ups" "p \<in> set ups"
    and "\<forall>r \<in> set reqs. SizeInBytes r = 0"
  shows "map fst p = reqs" "plan_use p d = 0" "single p"
proof -
  have p: "\<exists>dev. p = map (\<lambda>req. (req, [(dev, SizeInBytes req)])) reqs"
    using assms(1,2) by (auto simp: getUnlimitedPlans_def repeatWith_Inr_iff bind_res_Inr_iff Let_def
        split: if_splits list.splits)
  then show "map fst p = reqs" "single p" by (auto simp: comp_def single_def)
  have "plan_use (map (\<lambda>req. (req, [(dev, SizeInBytes req)])) reqs) d = 0" for dev
    using assms(3) by (induction reqs) (auto simp: GetSize_def)
  then show "plan_use p d = 0" using p by auto
qed

lemma GetVolumes_None_iff: "GetVolumes p vb = None \<longleftrightarrow> Destination vb \<notin> Destination ` fst ` set p"
  by (force simp: GetVolumes_def)

lemma plan_Merge_append:
  "distinct (map (Destination \<circ> fst) (p @ q)) \<Longrightarrow> plan_Merge p q = p @ q"
proof (induction q arbitrary: p)
  case (Cons e q)
  obtain vb vm where e: "e = (vb, vm)" by fastforce
  have "GetVolumes p vb = None" using Cons.prems by (auto simp: GetVolumes_None_iff e)
  then have "plan_Merge p (e # q) = plan_Merge (p @ [e]) q" by (simp add: plan_Merge_def merge_entry_def e)
  also have "\<dots> = (p @ [e]) @ q" by (rule Cons.IH) (use Cons.prems in simp)
  finally show ?case by simp
qed (simp add: plan_Merge_def)

section \<open>Classes\<close>

lemma merged_plan:
  assumes "distinct (map Destination (N @ M @ U))" "map fst n = N" "map fst m = M" "map fst u = U"
  shows "plan_Merge (plan_Merge n m) u = n @ m @ u"
proof -
  have "map (Destination \<circ> fst) (n @ m @ u) = map Destination (N @ M @ U)"
    by (simp add: assms(2-4) flip: map_map)
  then have dist: "distinct (map (Destination \<circ> fst) (n @ m @ u))" using assms(1) by simp
  then have "plan_Merge n m = n @ m" by (intro plan_Merge_append) (auto simp: Int_Un_distrib)
  with plan_Merge_append [of "n @ m" u] dist show ?thesis by simp
qed

lemma classify_loop_mset:
  "mset (normal_class (classify_loop vbs c)) + mset (mono_class (classify_loop vbs c)) +
     mset (unlimited_class (classify_loop vbs c)) + mset (mount_class (classify_loop vbs c)) =
   mset (normal_class c) + mset (mono_class c) + mset (unlimited_class c) + mset (mount_class c) + mset vbs"
  by (induction vbs c rule: classify_loop.induct) simp_all

lemma classify_loop_sets:
  "set (normal_class (classify_loop vbs c)) = set (normal_class c) \<union>
     {r \<in> set vbs. RequireSchedule r \<and> \<not> RequireScheduleMonopoly r \<and> \<not> RequireScheduleUnlimitedQuota r} \<and>
   mono_class (classify_loop vbs c) = mono_class c @ filter RequireScheduleMonopoly vbs \<and>
   set (unlimited_class (classify_loop vbs c)) = set (unlimited_class c) \<union>
     {r \<in> set vbs. RequireScheduleUnlimitedQuota r \<and> \<not> RequireScheduleMonopoly r} \<and>
   set (mount_class (classify_loop vbs c)) = set (mount_class c) \<union> {r \<in> set vbs. \<not> RequireSchedule r}"
  by (induction vbs c rule: classify_loop.induct)
    (auto simp: RequireScheduleMonopoly_def RequireScheduleUnlimitedQuota_def)

lemma classes_mset:
  "mset (normal_class (classifyVolumeBindings vbs) @ mono_class (classifyVolumeBindings vbs) @
     unlimited_class (classifyVolumeBindings vbs) @ mount_class (classifyVolumeBindings vbs)) = mset vbs"
  using classify_loop_mset [of vbs "\<lparr>normal_class = [], mono_class = [], unlimited_class = [], mount_class = []\<rparr>"]
  by (simp add: classifyVolumeBindings_def Let_def add.assoc)

lemma classes_sets:
  "set (normal_class (classifyVolumeBindings vbs)) =
     {r \<in> set vbs. RequireSchedule r \<and> \<not> RequireScheduleMonopoly r \<and> \<not> RequireScheduleUnlimitedQuota r}"
  "set (mono_class (classifyVolumeBindings vbs)) = {r \<in> set vbs. RequireScheduleMonopoly r}"
  "set (unlimited_class (classifyVolumeBindings vbs)) =
     {r \<in> set vbs. RequireScheduleUnlimitedQuota r \<and> \<not> RequireScheduleMonopoly r}"
  "set (mount_class (classifyVolumeBindings vbs)) = {r \<in> set vbs. \<not> RequireSchedule r}"
  using classify_loop_sets [of vbs "\<lparr>normal_class = [], mono_class = [], unlimited_class = [], mount_class = []\<rparr>"]
  by (simp_all add: classifyVolumeBindings_def Let_def)

lemma classes_valid:
  assumes "valid_reqs vbs"
  shows "valid_reqs (normal_class (classifyVolumeBindings vbs))"
    "valid_reqs (mount_class (classifyVolumeBindings vbs))"
  using assms by (auto simp: valid_reqs_def classes_sets)

lemma classes_distinct:
  assumes "distinct (map Destination vbs)"
  shows "distinct (map Destination (normal_class (classifyVolumeBindings vbs) @
     mono_class (classifyVolumeBindings vbs) @ unlimited_class (classifyVolumeBindings vbs)))"
proof -
  from arg_cong [OF classes_mset [of vbs], of "image_mset Destination"]
  have "mset (map Destination (normal_class (classifyVolumeBindings vbs) @ mono_class (classifyVolumeBindings vbs) @
     unlimited_class (classifyVolumeBindings vbs) @ mount_class (classifyVolumeBindings vbs))) =
     mset (map Destination vbs)" by simp
  from mset_eq_imp_distinct_iff [OF this] assms show ?thesis by (simp add: Int_Un_distrib)
qed

text \<open>The requests to be scheduled, as a bag: all classes but the mounts.\<close>

lemma classes_scheduled:
  "mset (normal_class (classifyVolumeBindings vbs) @ mono_class (classifyVolumeBindings vbs) @
     unlimited_class (classifyVolumeBindings vbs)) = mset (filter RequireSchedule vbs)"
proof -
  let ?c = "classifyVolumeBindings vbs"
  have "filter_mset RequireSchedule (mset vbs) = filter_mset RequireSchedule
      (mset (normal_class ?c) + mset (mono_class ?c) + mset (unlimited_class ?c)) +
      filter_mset RequireSchedule (mset (mount_class ?c))"
    using classes_mset [of vbs] by (simp add: add.assoc flip: filter_union_mset)
  also have "filter_mset RequireSchedule (mset (mount_class ?c)) = {#}"
    using classes_sets(4) [of vbs] by (simp add: filter_empty_conv flip: mset_filter)
  also have "filter_mset RequireSchedule (mset (normal_class ?c) + mset (mono_class ?c) + mset (unlimited_class ?c)) =
      mset (normal_class ?c) + mset (mono_class ?c) + mset (unlimited_class ?c)"
    using classes_sets [of vbs] by (auto simp: RequireScheduleMonopoly_def
        RequireScheduleUnlimitedQuota_def simp flip: mset_append mset_filter intro!: arg_cong [of _ _ mset] filter_True)
  finally show ?thesis by (simp add: add.assoc)
qed

section \<open>One evaluation\<close>

definition sched_ok :: "host \<Rightarrow> bool" where
  "sched_ok h \<longleftrightarrow> distinct (map vdevice (usedVolumes h @ unusedVolumes h)) \<and> wf_disks (hdisks h)"

lemma host_ok_clone: "sched_ok h \<Longrightarrow> host_ok (clone h)"
  by (simp add: sched_ok_def host_ok_def clone_def cache_ok_def disks_DeepCopy_def)

lemma evaluate_plans_backed:
  assumes "evaluate_plans classes bound h = Inr (n, m, (nvps, ndps), (mvps, mdps))"
    and "sched_ok h" "valid_reqs (normal_class classes)" "valid_reqs (mount_class classes)"
    and "mono_ok (mono_class classes)" "bound \<le> MaxInt"
  shows "mono_taken (mono_class classes) (unusedVolumes h) mvps" "\<exists>h1. backed (clone h) nvps (ndps @ mdps) h1"
    "\<forall>p \<in> set nvps. map fst p = normal_class classes \<and> single p"
proof -
  let ?b = "if unlimited_class classes = [] then max (maxDeployCount h) (int (length nvps) + 1) else MaxInt"
  obtain scratch nr where n: "getNormalPlans (normal_class classes) (mount_class classes) bound (clone h) = (scratch, nr)"
    by fastforce
  obtain h2 mr where m: "getMonoPlans (mono_class classes) ?b scratch = (h2, mr)" by fastforce
  from assms(1) n m have nr: "nr = Inr (nvps, ndps)" and mr: "mr = Inr (mvps, mdps)"
    by (auto simp: evaluate_plans_def bind_res_Inr_iff Let_def)
  have fr: "frame (clone h) scratch" by (rule getNormalPlans_frame [OF n])
  note ok = host_ok_clone [OF assms(2)]
  have un: "unusedVolumes scratch = unusedVolumes h" using fr by (simp add: frame_def)
  have dist: "distinct (map vdevice (unusedVolumes scratch))" using assms(2) by (simp add: un sched_ok_def)
  have b1: "backed (clone h) nvps ndps scratch"
    by (rule getNormalPlans_backed [OF n [unfolded nr] ok assms(3,4,6)])
  note mono = getMonoPlans_backed [OF m [unfolded mr] host_ok_frame [OF fr ok] dist assms(5)]
  show "mono_taken (mono_class classes) (unusedVolumes h) mvps" using mono(1) by (simp add: un)
  show "\<exists>h1. backed (clone h) nvps (ndps @ mdps) h1" using mono(2) backed_trans [OF b1] by fastforce
  show "\<forall>p \<in> set nvps. map fst p = normal_class classes \<and> single p"
    using getNormalPlans_requests [OF n [unfolded nr]] by blast
qed

section \<open>Sums over the plans returned\<close>

lemma sum_list_nonneg_take: "\<forall>x \<in> set xs. 0 \<le> f x \<Longrightarrow> sum_list (map f (take k xs)) \<le> sum_list (map f xs)"
  for f :: "'a \<Rightarrow> int"
proof -
  assume "\<forall>x \<in> set xs. 0 \<le> f x"
  then have "0 \<le> sum_list (map f (drop k xs))" by (intro sum_list_nonneg) (auto dest: in_set_dropD)
  moreover have "map f xs = map f (take k xs) @ map f (drop k xs)" by (simp flip: map_append)
  ultimately show ?thesis by (metis le_add_same_cancel1 sum_list_append)
qed

lemma map_nth_take: "k \<le> length zs \<Longrightarrow> map (\<lambda>i. h (zs ! i)) [0..<k] = map h (take k zs)"
  by (intro nth_equalityI) simp_all

lemma sum_list_prefix:
  fixes f :: "'a \<Rightarrow> int" and g :: "'b \<Rightarrow> int"
  assumes "k \<le> length xs" "k \<le> length ys" "\<forall>x \<in> set xs. 0 \<le> f x" "\<forall>y \<in> set ys. 0 \<le> g y"
  shows "sum_list (map (\<lambda>i. f (xs ! i) + g (ys ! i)) [0..<k]) \<le> sum_list (map f xs) + sum_list (map g ys)"
proof -
  have "sum_list (map (\<lambda>i. f (xs ! i) + g (ys ! i)) [0..<k]) =
      sum_list (map f (take k xs)) + sum_list (map g (take k ys))"
    using assms(1,2) by (simp add: sum_list_addf map_nth_take)
  then show ?thesis using sum_list_nonneg_take [OF assms(3), of k] sum_list_nonneg_take [OF assms(4), of k] by linarith
qed

lemma nth_le_sum_list: "i < length xs \<Longrightarrow> \<forall>x \<in> set xs. 0 \<le> f x \<Longrightarrow> f (xs ! i) \<le> sum_list (map f xs)"
  for f :: "'a \<Rightarrow> int"
  by (rule member_le_sum_list) auto

section \<open>The plans returned are paid for\<close>

lemma spend_bound: "spend a V b \<Longrightarrow> 0 < V k \<Longrightarrow> V k \<le> val (a k)"
  by (rule spend_le)

text \<open>A device is used or unused, so normal and monopoly plans never meet on it.\<close>

lemma volumes_disjoint:
  assumes "backed h nvps dps h1" "mono_taken reqs (unusedVolumes h) mvps" "sched_ok h"
  shows "given nvps d = 0 \<or> given mvps d = 0"
    "0 < given nvps d + given mvps d \<Longrightarrow>
       given nvps d + given mvps d \<le> val (vol_of (usedVolumes h @ unusedVolumes h) d)"
proof -
  obtain V where V: "spend (vol_of (usedVolumes h)) V (vol_of (usedVolumes h1))" "given nvps d \<le> V d"
    using assms(1) unfolding backed_def by blast
  have "0 \<le> given nvps d"
    using assms(1) unfolding backed_def nonneg_plans_def given_def by (intro sum_list_nonneg) auto
  moreover have used: "0 < given nvps d \<Longrightarrow> given nvps d \<le> val (vol_of (usedVolumes h) d)"
    using V spend_le [OF V(1), of d] by linarith
  have "d \<notin> vdevice ` set (usedVolumes h) \<or> d \<notin> vdevice ` set (unusedVolumes h)"
    using assms(3) by (auto simp: sched_ok_def)
  then have zero: "vol_of (usedVolumes h) d = 0 \<or> vol_of (unusedVolumes h) d = 0"
    using vol_of_absent by blast
  moreover have mono: "given mvps d = 0 \<or> given mvps d = val (vol_of (unusedVolumes h) d)"
    using assms(2) by (simp add: mono_taken_def)
  ultimately show nz: "given nvps d = 0 \<or> given mvps d = 0" using used by fastforce
  show "0 < given nvps d + given mvps d \<Longrightarrow>
       given nvps d + given mvps d \<le> val (vol_of (usedVolumes h @ unusedVolumes h) d)"
    using nz zero mono used by fastforce
qed

lemma given_nth: "p \<in> set vps \<Longrightarrow> \<forall>p \<in> set vps. 0 \<le> val (plan_use p d) \<Longrightarrow> val (plan_use p d) \<le> given vps d"
  unfolding given_def by (rule member_le_sum_list) auto

lemma quota_given_nth:
  "q \<in> set dps \<Longrightarrow> \<forall>q \<in> set dps. 0 \<le> val (disks_amount q dk) \<Longrightarrow> val (disks_amount q dk) \<le> quota_given dps dk"
  unfolding quota_given_def by (rule member_le_sum_list) auto

lemma volume_plans_paid:
  assumes "backed h nvps dps h1" "mono_taken reqs (unusedVolumes h) mvps" "sched_ok h"
    and "k \<le> length nvps" "k \<le> length mvps" "\<forall>i < k. \<forall>d. plan_use (uvps ! i) d = 0"
  shows "0 \<le> given (map (\<lambda>i. nvps ! i @ mvps ! i @ uvps ! i) [0..<k]) d"
    "0 < given (map (\<lambda>i. nvps ! i @ mvps ! i @ uvps ! i) [0..<k]) d \<Longrightarrow>
     given (map (\<lambda>i. nvps ! i @ mvps ! i @ uvps ! i) [0..<k]) d \<le> val (vol_of (usedVolumes h @ unusedVolumes h) d)"
    "\<forall>p \<in> set (map (\<lambda>i. nvps ! i @ mvps ! i @ uvps ! i) [0..<k]). 0 \<le> val (plan_use p d)"
proof -
  have nn: "\<forall>p \<in> set nvps. 0 \<le> val (plan_use p d)" "\<forall>p \<in> set mvps. 0 \<le> val (plan_use p d)"
    using assms(1,2) by (auto simp: backed_def nonneg_plans_def mono_taken_def)
  note disj = volumes_disjoint [OF assms(1-3), of d]
  have one: "val (plan_use (nvps ! i @ mvps ! i @ uvps ! i) d) = val (plan_use (nvps ! i) d) + val (plan_use (mvps ! i) d)"
    if "i < k" for i
  proof -
    have i: "nvps ! i \<in> set nvps" "mvps ! i \<in> set mvps" using that assms(4,5) by simp_all
    have "val (plan_use (nvps ! i) d) = 0 \<or> val (plan_use (mvps ! i) d) = 0"
      using disj(1) given_nth [OF i(1) nn(1)] given_nth [OF i(2) nn(2)] nn i by fastforce
    then have "plan_use (nvps ! i) d = 0 \<or> plan_use (mvps ! i) d = 0"
      by (simp add: i64_eq_iff [of _ 0])
    then show ?thesis using assms(6) that by auto
  qed
  have eq: "given (map (\<lambda>i. nvps ! i @ mvps ! i @ uvps ! i) [0..<k]) d =
      sum_list (map (\<lambda>i. val (plan_use (nvps ! i) d) + val (plan_use (mvps ! i) d)) [0..<k])"
    unfolding given_def map_map comp_def by (intro arg_cong [of _ _ sum_list] map_cong refl one) simp
  also have "\<dots> \<le> given nvps d + given mvps d"
    unfolding given_def using sum_list_prefix [OF assms(4,5) nn] by simp
  finally have "given (map (\<lambda>i. nvps ! i @ mvps ! i @ uvps ! i) [0..<k]) d \<le> given nvps d + given mvps d" .
  note bound = this
  have "0 \<le> val (plan_use (nvps ! i @ mvps ! i @ uvps ! i) d)" if "i < k" for i
    unfolding one [OF that] using nn that assms(4,5) by simp
  then show "\<forall>p \<in> set (map (\<lambda>i. nvps ! i @ mvps ! i @ uvps ! i) [0..<k]). 0 \<le> val (plan_use p d)" by (simp del: plan_use_simps)
  show "0 \<le> given (map (\<lambda>i. nvps ! i @ mvps ! i @ uvps ! i) [0..<k]) d"
    unfolding eq using nn assms(4,5) by (intro sum_list_nonneg) auto
  from bound show "0 < given (map (\<lambda>i. nvps ! i @ mvps ! i @ uvps ! i) [0..<k]) d \<Longrightarrow>
     given (map (\<lambda>i. nvps ! i @ mvps ! i @ uvps ! i) [0..<k]) d \<le> val (vol_of (usedVolumes h @ unusedVolumes h) d)"
    using disj(2) by linarith
qed

lemma disk_plans_paid:
  assumes "backed h nvps (ndps @ mdps) h1" "k \<le> length ndps" "k \<le> length mdps"
  shows "\<forall>q \<in> set (map (\<lambda>i. disks_Add (ndps ! i) (mdps ! i)) [0..<k]). wf_disks q \<and> 0 \<le> val (disks_amount q dk)"
    "0 \<le> quota_given (map (\<lambda>i. disks_Add (ndps ! i) (mdps ! i)) [0..<k]) dk"
    "0 < quota_given (map (\<lambda>i. disks_Add (ndps ! i) (mdps ! i)) [0..<k]) dk \<Longrightarrow>
     quota_given (map (\<lambda>i. disks_Add (ndps ! i) (mdps ! i)) [0..<k]) dk \<le> val (disks_amount (hdisks h) dk)"
proof -
  obtain Q where Q: "spend (disks_amount (hdisks h)) Q (disks_amount (hdisks h1))"
    "quota_given (ndps @ mdps) dk \<le> Q dk"
    using assms(1) unfolding backed_def by blast
  have wf: "\<forall>q \<in> set ndps. wf_disks q" "\<forall>q \<in> set mdps. wf_disks q"
    and nn: "\<forall>q \<in> set ndps. 0 \<le> val (disks_amount q dk)" "\<forall>q \<in> set mdps. 0 \<le> val (disks_amount q dk)"
    using assms(1) unfolding backed_def nonneg_plans_def by (auto simp del: split_paired_All)
  have tot: "0 < quota_given ndps dk + quota_given mdps dk \<Longrightarrow>
      quota_given ndps dk + quota_given mdps dk \<le> val (disks_amount (hdisks h) dk)"
    using Q spend_le [OF Q(1), of dk] by simp
  then have max: "quota_given ndps dk + quota_given mdps dk < 2 ^ 63"
    using val_less [of "disks_amount (hdisks h) dk"] by (cases "0 < quota_given ndps dk + quota_given mdps dk") auto
  have one: "val (disks_amount (disks_Add (ndps ! i) (mdps ! i)) dk) =
      val (disks_amount (ndps ! i) dk) + val (disks_amount (mdps ! i) dk)" if "i < k" for i
  proof -
    have i: "ndps ! i \<in> set ndps" "mdps ! i \<in> set mdps" using that assms(2,3) by simp_all
    have "0 \<le> val (disks_amount (ndps ! i) dk)" "0 \<le> val (disks_amount (mdps ! i) dk)" using nn i by blast+
    then have "in_range (val (disks_amount (ndps ! i) dk) + val (disks_amount (mdps ! i) dk))"
      using quota_given_nth [OF i(1) nn(1)] quota_given_nth [OF i(2) nn(2)] max
      unfolding in_range_def by linarith
    with wf i show ?thesis by (simp add: disk_ledger.amount_add val_add)
  qed
  have "0 \<le> val (disks_amount (disks_Add (ndps ! i) (mdps ! i)) dk)" if "i < k" for i
    unfolding one [OF that] using nn that assms(2,3) by simp
  then show "\<forall>q \<in> set (map (\<lambda>i. disks_Add (ndps ! i) (mdps ! i)) [0..<k]). wf_disks q \<and> 0 \<le> val (disks_amount q dk)"
    using wf assms(2,3) by (auto intro!: disk_ledger.wf_add)
  have eq: "quota_given (map (\<lambda>i. disks_Add (ndps ! i) (mdps ! i)) [0..<k]) dk =
      sum_list (map (\<lambda>i. val (disks_amount (ndps ! i) dk) + val (disks_amount (mdps ! i) dk)) [0..<k])"
    unfolding quota_given_def map_map comp_def by (intro arg_cong [of _ _ sum_list] map_cong refl one) simp
  also have "\<dots> \<le> quota_given ndps dk + quota_given mdps dk"
    unfolding quota_given_def using sum_list_prefix [OF assms(2,3) nn] by simp
  finally have "quota_given (map (\<lambda>i. disks_Add (ndps ! i) (mdps ! i)) [0..<k]) dk \<le>
      quota_given ndps dk + quota_given mdps dk" .
  note bound = this
  show "0 \<le> quota_given (map (\<lambda>i. disks_Add (ndps ! i) (mdps ! i)) [0..<k]) dk"
    unfolding eq using nn assms(2,3) by (intro sum_list_nonneg) auto
  from bound show "0 < quota_given (map (\<lambda>i. disks_Add (ndps ! i) (mdps ! i)) [0..<k]) dk \<Longrightarrow>
     quota_given (map (\<lambda>i. disks_Add (ndps ! i) (mdps ! i)) [0..<k]) dk \<le> val (disks_amount (hdisks h) dk)"
    using tot by linarith
qed

section \<open>What \<open>getVolumePlans\<close> returns\<close>

lemma mset_open_volume:
  assumes "p < length (unusedVolumes h)"
  shows "mset (usedVolumes (open_volume p h) @ unusedVolumes (open_volume p h)) =
    mset (usedVolumes h @ unusedVolumes h)"
proof -
  have "unusedVolumes h = take p (unusedVolumes h) @ unusedVolumes h ! p # drop (Suc p) (unusedVolumes h)"
    using id_take_nth_drop [OF assms] .
  from arg_cong [OF this, of mset] show ?thesis by (simp add: open_volume_def delete_at_def)
qed

lemma getVolumePlans_result:
  assumes "getVolumePlans requests h = Inr (vps, dps)" "NeedSchedule requests" "vps \<noteq> []"
    and "classes = classifyVolumeBindings requests"
  obtains h1 n m nvps ndps mvps mdps uvps k where
    "evaluate_plans classes (normalBound classes h) h1 = Inr (n, m, (nvps, ndps), (mvps, mdps))"
    "mset (usedVolumes h1 @ unusedVolumes h1) = mset (usedVolumes h @ unusedVolumes h)"
    "hdisks h1 = hdisks h" "k \<le> length nvps" "k \<le> length ndps" "k \<le> length mvps" "k \<le> length mdps"
    "int k \<le> maxDeployCount h"
    "getUnlimitedPlans nvps mvps (unlimited_class classes) (int k) h1 = Inr uvps"
    "vps = map (\<lambda>i. plan_Merge (plan_Merge (nvps ! i) (mvps ! i)) (uvps ! i)) [0..<k]"
    "dps = map (\<lambda>i. disks_Add (ndps ! i) (mdps ! i)) [0..<k]"
proof -
  let ?bound = "normalBound classes h"
  let ?min = "case normal_class classes of [] \<Rightarrow> of_val MaxInt | r # _ \<Rightarrow> SizeInBytes r"
  from assms obtain r0 h1 n m nvps ndps mvps mdps where ev: "evaluate_plans classes ?bound h = Inr r0"
    and pr: "promote_loop (evaluate_plans classes ?bound) ?min h r0 = Inr (h1, n, m, (nvps, ndps), (mvps, mdps))"
    and fin: "(case getUnlimitedPlans nvps mvps (unlimited_class classes) (min (min n m) (maxDeployCount h1)) h1 of
          Inl e \<Rightarrow> if e = ErrPanic then Inl e else Inr ([], [])
        | Inr uvps \<Rightarrow> if min (min n m) (maxDeployCount h1) < 0 then Inl ErrPanic
            else Inr (map (\<lambda>i. plan_Merge (plan_Merge (nvps ! i) (mvps ! i)) (uvps ! i)) [0..<nat (min (min n m) (maxDeployCount h1))],
                 map (\<lambda>i. disks_Add (ndps ! i) (mdps ! i)) [0..<nat (min (min n m) (maxDeployCount h1))])) = Inr (vps, dps)"
    by (auto simp: getVolumePlans_def promote_def Let_def bind_res_Inr_iff
        simp del: max.absorb1 min.absorb1 split: if_splits)
  have inv: "(\<lambda>h' r. evaluate_plans classes ?bound h' = Inr r \<and>
      mset (usedVolumes h' @ unusedVolumes h') = mset (usedVolumes h @ unusedVolumes h) \<and> hdisks h' = hdisks h)
      h1 (n, m, (nvps, ndps), (mvps, mdps))"
    by (rule promote_loop_induct [OF pr]) (use ev mset_open_volume in \<open>auto simp: open_volume_def\<close>)
  note len = evaluate_plans_lengths [OF conjunct1 [OF inv]]
  let ?k = "nat (min (min n m) (maxDeployCount h1))"
  obtain uvps where u: "getUnlimitedPlans nvps mvps (unlimited_class classes) (min (min n m) (maxDeployCount h1)) h1 = Inr uvps"
    "\<not> min (min n m) (maxDeployCount h1) < 0"
    "vps = map (\<lambda>i. plan_Merge (plan_Merge (nvps ! i) (mvps ! i)) (uvps ! i)) [0..<?k]"
    "dps = map (\<lambda>i. disks_Add (ndps ! i) (mdps ! i)) [0..<?k]"
    using fin assms(3) by (auto split: sum.splits if_splits)
  show ?thesis
    by (rule that [of h1 n m nvps ndps mvps mdps ?k uvps]) (use inv len u promote_volumes [OF pr] in auto)
qed

lemma getVolumePlans_empty:
  assumes "getVolumePlans requests h = Inr (vps, dps)" "\<not> NeedSchedule requests"
  shows "vps = replicate (length vps) []" "dps = replicate (length dps) []" "length vps \<le> nat (maxDeployCount h)"
  using assms by (auto simp: getVolumePlans_def emptyPlans_Inr_iff)

section \<open>The requests of every plan\<close>

text \<open>The hypotheses: bindings with a mount point of their own, no negative amounts, totals that fit.\<close>

definition requests_ok :: "VolumeBindings \<Rightarrow> bool" where
  "requests_ok requests \<longleftrightarrow> distinct (map Destination requests) \<and> valid_reqs requests \<and>
     mono_ok (mono_class (classifyVolumeBindings requests))"

lemma normalBound_le:
  "maxDeployCount h \<le> MaxInt \<Longrightarrow> int (length (unusedVolumes h)) < MaxInt \<Longrightarrow> normalBound classes h \<le> MaxInt"
  by (auto simp: normalBound_def)

lemma mset_vol: "mset vs = mset ws \<Longrightarrow> distinct (map vdevice vs) = distinct (map vdevice ws)"
  by (rule distinct_mset_map) (rule mset_devices)

lemma getVolumePlans_accounts:
  assumes "getVolumePlans requests h = Inr (vps, dps)" "sched_ok h" "requests_ok requests"
    and "maxDeployCount h \<le> MaxInt" "int (length (unusedVolumes h)) < MaxInt"
  shows "length vps \<le> nat (maxDeployCount h) \<and>
    (\<forall>p \<in> set vps. mset (map fst p) = mset (filter RequireSchedule requests) \<and> single p \<and> 0 \<le> val (plan_use p d)) \<and>
    (0 \<le> given vps d \<and> (0 < given vps d \<longrightarrow> given vps d \<le> val (vol_of (usedVolumes h @ unusedVolumes h) d))) \<and>
    (\<forall>q \<in> set dps. wf_disks q \<and> 0 \<le> val (disks_amount q dk)) \<and>
    (0 \<le> quota_given dps dk \<and> (0 < quota_given dps dk \<longrightarrow> quota_given dps dk \<le> val (disks_amount (hdisks h) dk)))"
proof -
  let ?c = "classifyVolumeBindings requests"
  show ?thesis
  proof (cases "NeedSchedule requests \<and> vps \<noteq> []")
    case False
    show ?thesis
    proof (cases "NeedSchedule requests")
      case True
      then have "vps = []" using False by simp
      moreover have "dps = []"
        using getVolumePlans_count [OF assms(1)] assms(5) calculation by simp
      ultimately show ?thesis by simp
    next
      case no: False
      then have none: "filter RequireSchedule requests = []"
        by (auto simp: NeedSchedule_def list_ex_iff filter_empty_conv)
      obtain i j where "vps = replicate i []" "dps = replicate j []"
        using getVolumePlans_empty [OF assms(1) no] by blast
      then show ?thesis using none getVolumePlans_empty(3) [OF assms(1) no] by auto
    qed
  next
    case True
    obtain h1 n m nvps ndps mvps mdps k uvps where
      ev: "evaluate_plans ?c (normalBound ?c h) h1 = Inr (n, m, (nvps, ndps), (mvps, mdps))"
      and ms: "mset (usedVolumes h1 @ unusedVolumes h1) = mset (usedVolumes h @ unusedVolumes h)"
      and dk: "hdisks h1 = hdisks h" and k: "k \<le> length nvps" "k \<le> length ndps" "k \<le> length mvps" "k \<le> length mdps"
      and max: "int k \<le> maxDeployCount h"
      and un: "getUnlimitedPlans nvps mvps (unlimited_class ?c) (int k) h1 = Inr uvps"
      and vps: "vps = map (\<lambda>i. plan_Merge (plan_Merge (nvps ! i) (mvps ! i)) (uvps ! i)) [0..<k]"
      and dps: "dps = map (\<lambda>i. disks_Add (ndps ! i) (mdps ! i)) [0..<k]"
      by (rule getVolumePlans_result [OF assms(1) conjunct1 [OF True] conjunct2 [OF True] refl]) (rule that)
    have ok: "sched_ok h1" using assms(2) mset_vol [OF ms] by (simp add: sched_ok_def dk del: map_append)
    have req: "valid_reqs (normal_class ?c)" "valid_reqs (mount_class ?c)" "mono_ok (mono_class ?c)"
      "distinct (map Destination (normal_class ?c @ mono_class ?c @ unlimited_class ?c))"
      using assms(3) classes_valid classes_distinct unfolding requests_ok_def by blast+
    note eb = evaluate_plans_backed [OF ev ok req(1-3) normalBound_le [OF assms(4,5)]]
    obtain h2 where bk: "backed (clone h1) nvps (ndps @ mdps) h2" using eb(2) by blast
    have zero: "\<forall>r \<in> set (unlimited_class ?c). SizeInBytes r = 0"
      by (auto simp: classes_sets RequireScheduleUnlimitedQuota_def)
    have len: "length uvps = k"
      using un by (auto simp: getUnlimitedPlans_def repeatWith_Inr_iff bind_res_Inr_iff Let_def
          split: if_splits list.splits)
    have sing: "single (nvps ! i)" "single (mvps ! i)" "single (uvps ! i)" if "i < k" for i
      using that k len eb(1,3) getUnlimitedPlans_requests [OF un _ zero] by (auto simp: mono_taken_def)
    have fsts: "map fst (nvps ! i) = normal_class ?c" "map fst (mvps ! i) = mono_class ?c"
      "map fst (uvps ! i) = unlimited_class ?c" "plan_use (uvps ! i) d = 0" if "i < k" for i d
      using that k len eb(1,3) getUnlimitedPlans_requests [OF un _ zero] by (auto simp: mono_taken_def)
    have merge: "plan_Merge (plan_Merge (nvps ! i) (mvps ! i)) (uvps ! i) = nvps ! i @ mvps ! i @ uvps ! i"
      if "i < k" for i
      by (rule merged_plan [OF req(4) fsts(1-3) [OF that]])
    have vps': "vps = map (\<lambda>i. nvps ! i @ mvps ! i @ uvps ! i) [0..<k]"
      unfolding vps by (intro map_cong refl merge) simp
    have "length vps \<le> nat (maxDeployCount h)" using max by (simp add: vps)
    moreover have "mset (map fst p) = mset (filter RequireSchedule requests) \<and> single p" if p: "p \<in> set vps" for p
    proof -
      obtain i where i: "i < k" "p = nvps ! i @ mvps ! i @ uvps ! i" using p vps' by auto
      show ?thesis using classes_scheduled [of requests] by (simp add: i(2) fsts [OF i(1)] sing [OF i(1)])
    qed
    moreover have "0 \<le> given vps d \<and> (\<forall>p \<in> set vps. 0 \<le> val (plan_use p d)) \<and>
        (0 < given vps d \<longrightarrow> given vps d \<le> val (vol_of (usedVolumes h @ unusedVolumes h) d))"
      using volume_plans_paid [OF bk, of "mono_class ?c" mvps k uvps d] eb(1) k fsts(4) host_ok_clone [OF ok] ok
        vol_of_mset [OF ms] unfolding vps' by (simp add: clone_def sched_ok_def disks_DeepCopy_def)
    moreover have "(\<forall>q \<in> set dps. wf_disks q \<and> 0 \<le> val (disks_amount q dk)) \<and> 0 \<le> quota_given dps dk \<and>
        (0 < quota_given dps dk \<longrightarrow> quota_given dps dk \<le> val (disks_amount (hdisks h) dk))"
      using disk_plans_paid [OF bk k(2,4)] dk unfolding dps by (simp add: clone_def disks_DeepCopy_def)
    ultimately show ?thesis by blast
  qed
qed

section \<open>A new host is the free part of the node\<close>

definition node_ok :: "NodeResourceInfo \<Rightarrow> bool" where
  "node_ok info \<longleftrightarrow> wf_map (Volumes (Capacity info)) \<and> wf_disks (Disks (Capacity info)) \<and>
     wf_disks (Disks (Usage info))"

lemma split_volumes_spec:
  assumes "wf_map capacity"
  shows "mset (map vdevice (fst (split_volumes capacity usage) @ snd (split_volumes capacity usage))) =
      mset (map fst capacity) \<and>
    vol_of (fst (split_volumes capacity usage) @ snd (split_volumes capacity usage)) d =
      (if d \<in> fst ` set capacity then mget capacity d - mget usage d else 0)"
proof -
  let ?f = "\<lambda>(device, size) (usedVols, unusedVols).
         let used = mget usage device in
         if used = 0 then (usedVols, unusedVols @ [Volume device size])
         else (usedVols @ [Volume device (size - used)], unusedVols)"
  have "mset (map vdevice (fst p @ snd p)) = mset (map vdevice (fst acc @ snd acc)) + mset (map fst capacity) \<and>
    vol_of (fst p @ snd p) d = vol_of (fst acc @ snd acc) d +
      (if d \<in> fst ` set capacity then mget capacity d - mget usage d else 0)"
    if "p = fold ?f capacity acc" for p acc
    using that assms
  proof (induction capacity arbitrary: acc)
    case (Cons e capacity)
    obtain dev sz where e: "e = (dev, sz)" by fastforce
    have "dev \<notin> fst ` set capacity" "wf_map capacity" using Cons.prems(2) e by simp_all
    moreover have "p = fold ?f capacity (?f e acc)" using Cons.prems(1) by simp
    ultimately show ?case
      using Cons.IH [of "?f e acc"] by (cases acc) (auto simp: e Let_def split: if_splits)
  qed simp
  from this [OF refl, of "([], [])"] show ?thesis by (simp add: split_volumes_def)
qed

lemma newHost_spec:
  assumes "node_ok info"
  shows "sched_ok (newHost info c)"
    "vol_of (usedVolumes (newHost info c) @ unusedVolumes (newHost info c)) d =
       (if d \<in> fst ` set (Volumes (Capacity info)) then mget (Volumes (Capacity info)) d - mget (Volumes (Usage info)) d else 0)"
    "disks_amount (hdisks (newHost info c)) dk = disks_amount (Disks (Capacity info)) dk - disks_amount (Disks (Usage info)) dk"
proof -
  let ?sv = "split_volumes (Volumes (Capacity info)) (Volumes (Usage info))"
  have wf: "wf_map (Volumes (Capacity info))" "wf_disks (Disks (Capacity info))" "wf_disks (Disks (Usage info))"
    using assms by (simp_all add: node_ok_def)
  have h: "usedVolumes (newHost info c) = sort (fst ?sv)" "unusedVolumes (newHost info c) = sort (snd ?sv)"
    "hdisks (newHost info c) = disks_Sub (Disks (Capacity info)) (Disks (Usage info))"
    by (simp_all add: newHost_def disks_DeepCopy_def split: prod.splits)
  have ms: "mset (usedVolumes (newHost info c) @ unusedVolumes (newHost info c)) = mset (fst ?sv @ snd ?sv)"
    by (simp add: h)
  have "mset (map vdevice (usedVolumes (newHost info c) @ unusedVolumes (newHost info c))) =
      mset (map fst (Volumes (Capacity info)))"
    using mset_devices [OF ms] split_volumes_spec [OF wf(1)] by metis
  from mset_eq_imp_distinct_iff [OF this] wf show "sched_ok (newHost info c)"
    by (simp add: sched_ok_def wf_map_def h(3) disk_ledger.wf_sub)
  show "vol_of (usedVolumes (newHost info c) @ unusedVolumes (newHost info c)) d =
       (if d \<in> fst ` set (Volumes (Capacity info)) then mget (Volumes (Capacity info)) d - mget (Volumes (Usage info)) d else 0)"
    using vol_of_mset [OF ms] split_volumes_spec [OF wf(1)] by simp
  show "disks_amount (hdisks (newHost info c)) dk = disks_amount (Disks (Capacity info)) dk - disks_amount (Disks (Usage info)) dk"
    unfolding h(3) by (rule disk_ledger.amount_sub [OF wf(2,3)])
qed

lemma GetVolumePlans_accounts:
  assumes "GetVolumePlans info requests maxCount = Inr (vps, dps)" "node_ok info" "requests_ok requests"
    and "maxCount \<le> MaxInt" "int (length (Volumes (Capacity info))) < MaxInt"
  shows "p \<in> set vps \<Longrightarrow> mset (map fst p) = mset (filter RequireSchedule requests)"
    "p \<in> set vps \<Longrightarrow> single p" "length vps \<le> nat maxCount"
    "0 \<le> given vps d" "q \<in> set dps \<Longrightarrow> wf_disks q" "0 \<le> quota_given dps dk"
    "0 < given vps d \<Longrightarrow> d \<in> fst ` set (Volumes (Capacity info)) \<and>
      given vps d \<le> val (mget (Volumes (Capacity info)) d - mget (Volumes (Usage info)) d)"
    "0 < quota_given dps dk \<Longrightarrow>
      quota_given dps dk \<le> val (disks_amount (Disks (Capacity info)) dk - disks_amount (Disks (Usage info)) dk)"
    "p \<in> set vps \<Longrightarrow> 0 \<le> val (plan_use p d)" "q \<in> set dps \<Longrightarrow> 0 \<le> val (disks_amount q dk)"
proof -
  have run: "getVolumePlans requests (newHost info maxCount) = Inr (vps, dps)"
    using assms(1) by (simp add: GetVolumePlans_def)
  have un: "int (length (unusedVolumes (newHost info maxCount))) < MaxInt"
    using newHost_unused [of info maxCount] assms(5) by linarith
  note acc = getVolumePlans_accounts [OF run newHost_spec(1) [OF assms(2)] assms(3) _ un,
      unfolded maxDeployCount_newHost, OF assms(4), of d dk]
  show "p \<in> set vps \<Longrightarrow> mset (map fst p) = mset (filter RequireSchedule requests)"
    "p \<in> set vps \<Longrightarrow> single p" "length vps \<le> nat maxCount"
    "0 \<le> given vps d" "q \<in> set dps \<Longrightarrow> wf_disks q" "0 \<le> quota_given dps dk"
    "p \<in> set vps \<Longrightarrow> 0 \<le> val (plan_use p d)" "q \<in> set dps \<Longrightarrow> 0 \<le> val (disks_amount q dk)"
    using acc by blast+
  show "0 < given vps d \<Longrightarrow> d \<in> fst ` set (Volumes (Capacity info)) \<and>
      given vps d \<le> val (mget (Volumes (Capacity info)) d - mget (Volumes (Usage info)) d)"
    using acc newHost_spec(2) [OF assms(2), of maxCount d] by (auto split: if_splits)
  show "0 < quota_given dps dk \<Longrightarrow>
      quota_given dps dk \<le> val (disks_amount (Disks (Capacity info)) dk - disks_amount (Disks (Usage info)) dk)"
    using acc newHost_spec(3) [OF assms(2), of maxCount dk] by auto
qed

text \<open>
  C2: \<open>GetVolumePlans\<close> never overcommits a node: whatever number of plans it returns, what all of
  them together take of a volume is at most what the volume has free, and the quota they reserve on
  a disk is at most what the disk has left. (Bindings have mount points of their own, sizes and
  quotas that are not negative, and monopoly totals that do not wrap around.)
\<close>

theorem GetVolumePlans_never_overcommits:
  assumes "GetVolumePlans info requests maxCount = Inr (vps, dps)" "node_ok info" "requests_ok requests"
    and "maxCount \<le> MaxInt" "int (length (Volumes (Capacity info))) < MaxInt"
  shows "(0 < given vps device \<longrightarrow>
      given vps device \<le> val (mget (Volumes (Capacity info)) device - mget (Volumes (Usage info)) device)) \<and>
    (0 < quota_given dps (disk, kind) \<longrightarrow>
      quota_given dps (disk, kind) \<le>
        val (disks_amount (Disks (Capacity info)) (disk, kind) - disks_amount (Disks (Usage info)) (disk, kind)))"
  using GetVolumePlans_accounts(7,8) [OF assms] by blast

theorem GetVolumePlans_never_overcommits_witness:
  "\<exists>vps dps. GetVolumePlans sample_info [sample_normal, sample_mono] 3 = Inr (vps, dps) \<and>
    0 < given vps ''/data/0'' \<and> given vps ''/data/0'' \<le> 80"
proof -
  let ?r = "GetVolumePlans sample_info [sample_normal, sample_mono] 3"
  have "(case ?r of Inr (vps, _) \<Rightarrow> 0 < given vps ''/data/0'' | Inl _ \<Rightarrow> False)" by code_simp
  then obtain vps dps where r: "?r = Inr (vps, dps)" "0 < given vps ''/data/0''" by (auto split: sum.splits)
  have "node_ok sample_info" "requests_ok [sample_normal, sample_mono]" "(3::int) \<le> MaxInt"
    "int (length (Volumes (Capacity sample_info))) < MaxInt" by code_simp+
  from GetVolumePlans_never_overcommits [OF r(1) this] r(2)
  have "given vps ''/data/0'' \<le> val (mget (Volumes (Capacity sample_info)) ''/data/0'' -
      mget (Volumes (Usage sample_info)) ''/data/0'')" by blast
  also have "\<dots> = 80" by code_simp
  finally show ?thesis using r by blast
qed

text \<open>
  C8: Every plan serves every request to be scheduled, once: the bindings a plan places are those of
  the request whose source is \<open>AUTO\<close> or empty, each as often as the request has it.
\<close>

theorem GetVolumePlans_serves_requests:
  assumes "GetVolumePlans info requests maxCount = Inr (vps, dps)" "node_ok info" "requests_ok requests"
    and "maxCount \<le> MaxInt" "int (length (Volumes (Capacity info))) < MaxInt" "plan \<in> set vps"
  shows "mset (map fst plan) = mset (filter RequireSchedule requests)"
  by (rule GetVolumePlans_accounts(1) [OF assms])

theorem GetVolumePlans_serves_requests_witness:
  "\<exists>plan. mset (map fst plan) = {#sample_unlimited, sample_mono#} \<and>
    (\<exists>dps. GetVolumePlans sample_info [sample_unlimited, sample_mono, sample_mount] 1 = Inr ([plan], dps))"
proof -
  let ?reqs = "[sample_unlimited, sample_mono, sample_mount]"
  let ?r = "GetVolumePlans sample_info ?reqs 1"
  have "(case ?r of Inr (vps, _) \<Rightarrow> length vps = 1 | Inl _ \<Rightarrow> False)" by code_simp
  then obtain plan dps where r: "?r = Inr ([plan], dps)" by (auto split: sum.splits simp: length_Suc_conv)
  have "node_ok sample_info" "requests_ok ?reqs" "(1::int) \<le> MaxInt"
    "int (length (Volumes (Capacity sample_info))) < MaxInt" by code_simp+
  from GetVolumePlans_serves_requests [OF r this, of plan]
  have "mset (map fst plan) = mset (filter RequireSchedule ?reqs)" by simp
  also have "filter RequireSchedule ?reqs = [sample_unlimited, sample_mono]" by code_simp
  finally show ?thesis using r by auto
qed

end
