(* ===== verification/No_Panic.thy ===== *)
theory No_Panic
  imports Plan_Safety
begin

text \<open>
  The scheduler does not panic and does not give up with an error: a nil disk is never dereferenced, a
  missing device never written to, a negative count never asked for. Not being able to place a request
  is an empty list of plans.
\<close>

section \<open>Why a single plan fails\<close>

lemma mono_shares_nonempty: "reqs \<noteq> [] \<Longrightarrow> fst (mono_shares t sz dev reqs rest) \<noteq> []"
  by (cases reqs) (auto simp: Let_def split: prod.splits)

lemma getMonoPlan_error:
  assumes "getMonoPlan reqs v h = (h1, v1, Inl e)" "reqs \<noteq> []"
  shows "e = ErrInsufficientResource"
proof -
  obtain disk h2 where d: "getDiskByPath h (vdevice v) = (disk, h2)" by fastforce
  obtain p rest where sh: "mono_shares (SizeInBytes (total_quota reqs)) (vsize v) (vdevice v) reqs (vsize v) = (p, rest)"
    by fastforce
  have "p \<noteq> []" using mono_shares_nonempty [OF assms(2)] sh by (metis fst_conv)
  moreover have "RequireIOPS (total_quota reqs) \<Longrightarrow> isDiskIOPSQuotaQualified (disk_at h2 disk) (total_quota reqs) \<Longrightarrow>
      disk_at h2 disk \<noteq> None"
    by (cases "disk_at h2 disk") simp_all
  ultimately show ?thesis
    using assms(1) d sh by (auto simp: getMonoPlan_def Let_def split: if_splits prod.splits list.splits bool.splits option.splits)
qed

lemma pop_fit_qualified:
  "pop_fit req vh toPush h = (h', vh', toPush', Some (v, disk)) \<Longrightarrow> isDiskIOPSQuotaQualified (disk_at h' disk) req"
proof (induction req vh toPush h rule: pop_fit.induct)
  case (1 req vh toPush h)
  have ne: "vh \<noteq> []" using "1.prems" by (auto simp: pop_fit.simps)
  obtain v1 vh1 where v: "heap_Pop vh = (v1, vh1)" by fastforce
  obtain d1 h1 where d: "getDiskByPath h (vdevice v1) = (d1, h1)" by fastforce
  show ?case
  proof (cases "vsize v1 < SizeInBytes req \<or> \<not> isDiskIOPSQuotaQualified (disk_at h1 d1) req")
    case True
    then show ?thesis
      using "1.IH" [OF ne v [symmetric] refl d [symmetric] refl True] "1.prems" ne v d
      by (simp add: pop_fit.simps [of req vh])
  qed (use "1.prems" ne v d in \<open>auto simp: pop_fit.simps [of req vh]\<close>)
qed

lemma alloc_normal_error: "alloc_normal req vh dp h = (h', vh', Inl e) \<Longrightarrow> e = ErrInsufficientResource"
proof -
  assume run: "alloc_normal req vh dp h = (h', vh', Inl e)"
  obtain h1 vh1 toPush found where fit: "pop_fit req vh [] h = (h1, vh1, toPush, found)" by (metis prod_cases4)
  show ?thesis
  proof (cases found)
    case (Some vd)
    obtain v disk where vd: "vd = (v, disk)" by fastforce
    have "RequireIOPS req \<Longrightarrow> disk \<noteq> None"
      using pop_fit_qualified [OF fit [unfolded Some vd]] by (cases disk) (simp_all add: disk_at_def)
    then show ?thesis using run fit by (auto simp: alloc_normal_def Some vd Let_def split: if_splits option.splits)
  qed (use run fit in \<open>auto simp: alloc_normal_def\<close>)
qed

lemma getNormalPlan_error: "getNormalPlan reqs h = (h', Inl e) \<Longrightarrow> e = ErrInsufficientResource"
proof -
  have "normal_reqs reqs vh vp dp h = (h', vh', Inl e) \<Longrightarrow> e = ErrInsufficientResource" for vh vp dp h h' vh'
  proof (induction reqs arbitrary: vh vp dp h)
    case (Cons req reqs)
    then show ?case
      by (cases "alloc_normal req vh dp h") (auto split: sum.splits dest: alloc_normal_error)
  qed simp
  then show "getNormalPlan reqs h = (h', Inl e) \<Longrightarrow> e = ErrInsufficientResource"
    by (auto simp: getNormalPlan_def split: prod.splits)
qed

lemma getMountDiskPlan_error: "getMountDiskPlan reqs h = (h', Inl e) \<Longrightarrow> e = ErrInsufficientResource"
proof -
  have "mount_disk_loop reqs dp h = (h', Inl e) \<Longrightarrow> e = ErrInsufficientResource" for dp
  proof (induction reqs dp h rule: mount_disk_loop.induct)
    case (2 req reqs dp h)
    obtain disk h1 where d: "getDiskByPath h (Source req) = (disk, h1)" by fastforce
    show ?case
    proof (cases "RequireIOPS req \<and> isDiskIOPSQuotaQualified (disk_at h1 disk) req")
      case True
      then obtain i where i: "disk = Some i" by (cases disk) (auto simp: disk_at_def)
      from True have r: "\<not> \<not> RequireIOPS req" "\<not> \<not> isDiskIOPSQuotaQualified (disk_at h1 disk) req" by simp_all
      show ?thesis
        using "2.IH"(2) [OF r(1) d [symmetric] refl r(2) i refl] "2.prems" r d i by (simp add: Let_def)
    qed (use 2 d in \<open>auto split: if_splits\<close>)
  qed simp
  then show "getMountDiskPlan reqs h = (h', Inl e) \<Longrightarrow> e = ErrInsufficientResource"
    by (simp add: getMountDiskPlan_def)
qed

section \<open>The lists of plans are returned\<close>

lemma repeatWith_Inr: "0 \<le> n \<Longrightarrow> repeatWith n x = Inr (replicate (nat n) x)"
  by (simp add: repeatWith_Inr_iff)

lemma applyMountPasses_total:
  assumes "valid_reqs reqs" "cache_ok h" "bound \<le> MaxInt"
  shows "\<exists>h' n proto. applyMountPasses reqs bound h = (h', Inr (n, proto)) \<and> 0 \<le> n"
proof (cases "1 \<le> bound")
  case True
  obtain h' ps where loop: "mount_passes reqs (nat bound) h = (h', ps)" by fastforce
  have "\<forall>r \<in> set reqs. ValidIOParameters r" using assms(1) by (simp add: valid_reqs_def)
  from applyMountPasses_loop [OF this assms(2) True assms(3) loop] show ?thesis by fastforce
qed (auto simp: applyMountPasses_def split: prod.splits sum.splits)

lemma getNormalPlans_total:
  assumes "valid_reqs m" "cache_ok h" "bound \<le> MaxInt" "0 \<le> maxDeployCount h"
  shows "\<exists>h' vps dps. getNormalPlans n m bound h = (h', Inr (vps, dps))"
proof -
  obtain h1 c proto where m: "applyMountPasses m bound h = (h1, Inr (c, proto))" "0 \<le> c"
    using applyMountPasses_total [OF assms(1-3)] by blast
  obtain h2 vps dps where "normal_loop n m bound [] [] h = (h2, vps, dps)" by (metis prod_cases3)
  then show ?thesis
    using m assms(4) by (simp add: getNormalPlans_def getMountOnlyPlans_def emptyPlans_def repeatWith_Inr)
qed

lemma getMonoPlans_total:
  assumes "0 \<le> maxDeployCount h"
  shows "\<exists>h' vps dps. getMonoPlans reqs bound h = (h', Inr (vps, dps))"
  using assms by (auto simp: getMonoPlans_def repeatWith_Inr split: prod.splits)

lemma evaluate_plans_total:
  assumes "sched_ok h" "valid_reqs (mount_class classes)" "bound \<le> MaxInt" "0 \<le> maxDeployCount h"
  shows "\<exists>r. evaluate_plans classes bound h = Inr r"
proof -
  have "cache_ok (clone h)" using host_ok_clone [OF assms(1)] by (simp add: host_ok_def)
  then obtain h1 vps dps where n: "getNormalPlans (normal_class classes) (mount_class classes) bound (clone h) = (h1, Inr (vps, dps))"
    using getNormalPlans_total assms by (metis clone_unchanged(1))
  have "maxDeployCount h1 = maxDeployCount h" using getNormalPlans_frame [OF n] by (simp add: frame_def)
  then obtain mvps mdps where "snd (getMonoPlans (mono_class classes)
      (if unlimited_class classes = [] then max (maxDeployCount h) (int (length vps) + 1) else MaxInt) h1) = Inr (mvps, mdps)"
    using getMonoPlans_total [of h1 "mono_class classes"] assms(4) by (metis snd_conv)
  then show ?thesis by (simp add: evaluate_plans_def n)
qed

lemma sched_ok_open: "sched_ok h \<Longrightarrow> p < length (unusedVolumes h) \<Longrightarrow> sched_ok (open_volume p h)"
  using mset_vol [OF mset_open_volume [of p h]] by (simp add: sched_ok_def open_volume_def)

lemma promote_loop_total:
  assumes "\<And>h. sched_ok h \<Longrightarrow> 0 \<le> maxDeployCount h \<Longrightarrow> \<exists>r. evaluate h = Inr r" "sched_ok h" "0 \<le> maxDeployCount h"
  shows "\<exists>h' r'. promote_loop evaluate minSize h r = Inr (h', r')"
  using assms(2,3)
proof (induction "length (unusedVolumes h)" arbitrary: h r rule: less_induct)
  case less
  obtain n m b where r: "r = (n, m, b)" by (metis prod_cases3)
  let ?p = "BinarySearch (\<lambda>v. vsize v < minSize) (unusedVolumes h)"
  show ?case
  proof (cases "n < m \<and> n < maxDeployCount h \<and> ?p < length (unusedVolumes h)")
    case True
    have ok: "sched_ok (open_volume ?p h)" "0 \<le> maxDeployCount (open_volume ?p h)"
      "length (unusedVolumes (open_volume ?p h)) < length (unusedVolumes h)"
      using less.prems sched_ok_open True by (auto simp: open_volume_def delete_at_def)
    obtain r1 where "evaluate (open_volume ?p h) = Inr r1" using assms(1) ok by blast
    with less.hyps [OF ok(3,1,2), of r1] True show ?thesis
      by (simp add: r promote_loop_step open_volume_def)
  qed (auto simp: r promote_loop_stop not_less)
qed

section \<open>Plans are on volumes of the host\<close>

definition on_devices :: "string set \<Rightarrow> VolumePlan list \<Rightarrow> bool" where
  "on_devices D plans \<longleftrightarrow> (\<forall>p \<in> set plans. \<forall>e \<in> set p. GetDevice (snd e) \<in> D)"

lemma on_devices_simps [simp]: "on_devices D []" "on_devices D (p # ps) \<longleftrightarrow> (\<forall>e \<in> set p. GetDevice (snd e) \<in> D) \<and> on_devices D ps"
  "on_devices D (ps @ qs) \<longleftrightarrow> on_devices D ps \<and> on_devices D qs"
  by (auto simp: on_devices_def)

lemma set_devices: "mset (map vdevice vs) = mset (map vdevice ws) \<Longrightarrow> vdevice ` set vs = vdevice ` set ws"
  by (metis list.set_map set_mset_mset)

lemma normal_reqs_devices:
  assumes "normal_reqs reqs vh vp dp h = (h', vh', Inr (vp', dp'))" "is_heap vh" "on_devices (vdevice ` set vh) [vp]"
  shows "on_devices (vdevice ` set vh) [vp']"
  using assms
proof (induction reqs arbitrary: vh vp dp h)
  case (Cons req reqs)
  obtain h1 vh1 r where a: "alloc_normal req vh dp h = (h1, vh1, r)" by (metis prod_cases3)
  then obtain vm dp1 where r: "r = Inr (vm, dp1)" "normal_reqs reqs vh1 (vp @ [(req, vm)]) dp1 h1 = (h', vh', Inr (vp', dp'))"
    using Cons.prems(1) by (cases r) auto
  have fr: "is_heap vh1" "vdevice ` set vh1 = vdevice ` set vh"
    using alloc_normal_frame [OF a Cons.prems(2)] set_devices by blast+
  obtain h2 vh2 toPush found where fit: "pop_fit req vh [] h = (h2, vh2, toPush, found)" by (metis prod_cases4)
  then obtain v disk where v: "found = Some (v, disk)" "GetDevice vm = vdevice v"
    using a r(1) by (auto simp: alloc_normal_def Let_def GetDevice_def split: option.splits if_splits)
  then have "v \<in># mset vh" using pop_fit_frame(5) [OF fit Cons.prems(2)] by simp
  then have "GetDevice vm \<in> vdevice ` set vh1" using v(2) fr(2) by simp
  with Cons.IH [OF r(2) fr(1)] Cons.prems(3) show ?case by (simp add: fr(2) on_devices_def)
qed simp

lemma getNormalPlans_devices:
  assumes "getNormalPlans n m bound h = (h', Inr (vps, dps))"
  shows "on_devices (vdevice ` set (usedVolumes h)) vps"
proof (cases "n = []")
  case True
  then show ?thesis
    using assms by (auto simp: getNormalPlans_def emptyPlans_Inr_iff getMountOnlyPlans_def repeatWith_Inr_iff
        on_devices_def bind_res_Inr_iff split: if_splits prod.splits)
next
  case False
  let ?D = "vdevice ` set (usedVolumes h)"
  obtain h1 where loop: "normal_loop n m bound [] [] h = (h1, vps, dps)"
    using assms False by (auto simp: getNormalPlans_def split: prod.splits)
  have "\<exists>h2 :: host. on_devices ?D vps \<and> vdevice ` set (usedVolumes h2) = ?D"
  proof (rule normal_loop_induct [where P = "\<lambda>vps dps h. on_devices ?D vps \<and> vdevice ` set (usedVolumes h) = ?D", OF loop])
    fix vps dps ha h1 vp dp h2 md
    assume IH: "on_devices ?D vps \<and> vdevice ` set (usedVolumes ha) = ?D"
      and g: "getNormalPlan n ha = (h1, Inr (vp, dp))" and m: "getMountDiskPlan m h1 = (h2, Inr md)"
    have "vdevice ` set (usedVolumes h2) = vdevice ` set (usedVolumes ha)"
      using set_devices getNormalPlan_frame [OF g] getMountDiskPlan_frame [OF m] unfolding frame_def by metis
    moreover obtain hb vh where "normal_reqs n (heap_Init (usedVolumes ha)) [] [] ha = (hb, vh, Inr (vp, dp))"
      using g by (auto simp: getNormalPlan_def split: prod.splits)
    from normal_reqs_devices [OF this heap_Init_spec(1)]
    have "on_devices (vdevice ` set (usedVolumes ha)) [vp]"
      using set_devices [OF mset_devices [OF heap_Init_spec(2)]] by (auto simp: on_devices_def)
    ultimately show "on_devices ?D (vps @ [vp]) \<and> vdevice ` set (usedVolumes h2) = ?D" using IH by simp
  qed simp
  then show ?thesis by blast
qed

lemma mono_loop_devices:
  "mono_loop reqs bound vs h vps dps = (h', vs', vps', dps') \<Longrightarrow> on_devices D vps \<Longrightarrow> vdevice ` set vs \<subseteq> D \<Longrightarrow>
   on_devices D vps'"
proof (induction reqs bound vs h vps dps arbitrary: h' vs' vps' dps' rule: mono_loop.induct)
  case (2 reqs bound v vs h vps dps)
  show ?case
  proof (cases "bound \<le> int (length vps)")
    case False
    obtain h1 v1 r where r: "getMonoPlan reqs v h = (h1, v1, r)" by (metis prod_cases3)
    show ?thesis
    proof (cases r)
      case (Inl e)
      then obtain vs2 where "mono_loop reqs bound vs h1 vps dps = (h', vs2, vps', dps')"
        using "2.prems"(1) False r by (auto split: prod.splits)
      from "2.IH"(1) [OF False refl r [symmetric] refl Inl this] show ?thesis using "2.prems" by simp
    next
      case (Inr p)
      obtain vp dp where p: "p = (vp, dp)" by fastforce
      then obtain vs2 where
        run: "mono_loop reqs bound vs h1 (vps @ [vp]) (dps @ [case dp of None \<Rightarrow> [] | Some d \<Rightarrow> [d]]) = (h', vs2, vps', dps')"
        using "2.prems"(1) False r Inr by (auto split: prod.splits)
      have "\<forall>e \<in> set vp. \<exists>s. snd e = [(vdevice v, s)]" by (rule getMonoPlan_volume(4) [OF r [unfolded Inr p]])
      then have "on_devices D [vp]" using "2.prems"(3) by (fastforce simp: on_devices_def GetDevice_def)
      with "2.IH"(2) [OF False refl r [symmetric] refl Inr p [symmetric] run] "2.prems" show ?thesis by simp
    qed
  qed (use "2.prems" in simp)
qed simp

lemma getMonoPlans_devices:
  "getMonoPlans reqs bound h = (h', Inr (vps, dps)) \<Longrightarrow> on_devices (vdevice ` set (unusedVolumes h)) vps"
  using mono_loop_devices [of reqs bound "unusedVolumes h" h "[]" "[]" _ _ vps dps "vdevice ` set (unusedVolumes h)"]
  by (auto simp: getMonoPlans_def repeatWith_Inr_iff on_devices_def bind_res_Inr_iff split: if_splits prod.splits)

lemma evaluate_plans_devices:
  assumes "evaluate_plans classes bound h = Inr (n, m, (nvps, ndps), (mvps, mdps))"
  shows "on_devices (vdevice ` set (usedVolumes h @ unusedVolumes h)) (nvps @ mvps)"
proof -
  obtain h1 b where n: "getNormalPlans (normal_class classes) (mount_class classes) bound (clone h) = (h1, Inr (nvps, ndps))"
    and m: "snd (getMonoPlans (mono_class classes) b h1) = Inr (mvps, mdps)"
    using assms by (auto simp: evaluate_plans_def bind_res_Inr_iff Let_def split: prod.splits)
  have "unusedVolumes h1 = unusedVolumes h" using getNormalPlans_frame [OF n] by (simp add: frame_def)
  then show ?thesis
    using getNormalPlans_devices [OF n] getMonoPlans_devices [of "mono_class classes" b h1 _ mvps mdps] m
    by (cases "getMonoPlans (mono_class classes) b h1") (fastforce simp: on_devices_def)
qed

section \<open>Unlimited requests find the devices the other plans use\<close>

lemma take_size_ok: "fst dn \<in> vdevice ` set vols \<Longrightarrow>
   \<exists>vols'. take_size vols dn = Inr vols' \<and> vdevice ` set vols' = vdevice ` set vols \<and> vols' \<noteq> []"
proof -
  assume d: "fst dn \<in> vdevice ` set vols"
  then obtain j where j: "index_of (\<lambda>v. vdevice v = fst dn) (rev vols) = Some j"
    by (cases "index_of (\<lambda>v. vdevice v = fst dn) (rev vols)") auto
  let ?i = "length vols - Suc j" 
  let ?vols = "vols[?i := Volume (vdevice (vols ! ?i)) (vsize (vols ! ?i) - snd dn)]"
  have "j < length vols" using index_of_SomeD [OF j] by simp
  then have "map vdevice ?vols = map vdevice vols" by (simp add: map_update list_update_same_conv)
  then have "vdevice ` set ?vols = vdevice ` set vols" by (metis list.set_map)
  then show ?thesis using j d by (auto simp: take_size_def Let_def)
qed

lemma take_sizes_ok: "\<forall>dn \<in> set dns. fst dn \<in> vdevice ` set vols \<Longrightarrow> \<exists>vols'. take_sizes vols dns = Inr vols'"
proof (induction dns arbitrary: vols)
  case (Cons dn dns)
  obtain vols' where v: "take_size vols dn = Inr vols'" "vdevice ` set vols' = vdevice ` set vols"
    using take_size_ok Cons.prems by (metis list.set_intros(1))
  with Cons.IH [of vols'] Cons.prems show ?case by simp
qed simp

lemma getUnlimitedPlans_total:
  assumes "on_devices (vdevice ` set (usedVolumes h @ unusedVolumes h)) (nps @ mps)" "0 \<le> capacity"
    and "reqs = [] \<or> usedVolumes h @ unusedVolumes h \<noteq> []"
  shows "\<exists>uvps. getUnlimitedPlans nps mps reqs capacity h = Inr uvps"
proof (cases "reqs = []")
  case False
  then obtain v vs where v: "usedVolumes h @ unusedVolumes h = v # vs" using assms(3) by (cases "usedVolumes h @ unusedVolumes h") auto
  have "\<forall>dn \<in> set (concat (map plan_sizes (nps @ mps))). fst dn \<in> vdevice ` set (v # vs)"
    using assms(1) unfolding v by (fastforce simp: on_devices_def plan_sizes_def)
  then obtain vols where "take_sizes (v # vs) (concat (map plan_sizes (nps @ mps))) = Inr vols"
    using take_sizes_ok by blast
  then show ?thesis using False assms(2) by (simp add: getUnlimitedPlans_def v repeatWith_Inr Let_def)
qed (use assms(2) in \<open>simp add: getUnlimitedPlans_def repeatWith_Inr\<close>)

section \<open>The scheduler returns\<close>

lemma getVolumePlans_total:
  assumes "sched_ok h" "requests_ok requests" "0 \<le> maxDeployCount h" "maxDeployCount h \<le> MaxInt"
    and "int (length (unusedVolumes h)) < MaxInt"
  shows "\<exists>vps dps. getVolumePlans requests h = Inr (vps, dps)"
proof -
  let ?c = "classifyVolumeBindings requests"
  let ?ev = "evaluate_plans ?c (normalBound ?c h)"
  let ?none = "0 < length (normal_class ?c) + length (mono_class ?c) + length (unlimited_class ?c) \<and>
           length (unusedVolumes h) + length (usedVolumes h) = 0"
  let ?min = "case normal_class ?c of [] \<Rightarrow> of_val MaxInt | r # _ \<Rightarrow> SizeInBytes r"
  have req: "valid_reqs (mount_class ?c)" using assms(2) classes_valid unfolding requests_ok_def by blast
  have total: "\<exists>r. ?ev h' = Inr r" if "sched_ok h'" "0 \<le> maxDeployCount h'" for h'
    using evaluate_plans_total [OF that(1) req normalBound_le [OF assms(4,5)] that(2)] .
  show ?thesis
  proof (cases "NeedSchedule requests \<and> \<not> ?none")
    case True
    obtain r0 where r0: "?ev h = Inr r0" using total [OF assms(1,3)] by blast
    obtain h1 r1 where pr: "promote_loop ?ev ?min h r0 = Inr (h1, r1)"
      using promote_loop_total [of ?ev h ?min r0] total assms(1,3) by blast
    obtain n m nvps ndps mvps mdps where r1: "r1 = (n, m, (nvps, ndps), (mvps, mdps))" by (metis prod.exhaust)
    have ev: "?ev h1 = Inr (n, m, (nvps, ndps), (mvps, mdps))"
      by (rule promote_loop_induct [where P = "\<lambda>h r. ?ev h = Inr r", OF pr [unfolded r1] r0])
    let ?k = "min (min n m) (maxDeployCount h1)"
    note vols = promote_volumes [OF pr]
    have k: "0 \<le> ?k" using evaluate_plans_lengths [OF ev] vols assms(3) by simp
    have "unlimited_class ?c = [] \<or> usedVolumes h1 @ unusedVolumes h1 \<noteq> []" using True vols by auto
    from getUnlimitedPlans_total [OF evaluate_plans_devices [OF ev] k this]
    obtain uvps where "getUnlimitedPlans nvps mvps (unlimited_class ?c) ?k h1 = Inr uvps" by blast
    with True r0 pr r1 k show ?thesis
      by (simp add: getVolumePlans_def promote_def Let_def del: min.bounded_iff)
  next
    case False
    then show ?thesis
      using assms(3) by (auto simp: getVolumePlans_def emptyPlans_def repeatWith_Inr Let_def)
  qed
qed

lemma GetVolumePlans_total:
  assumes "node_ok info" "requests_ok requests" "0 \<le> maxCount" "maxCount \<le> MaxInt"
    and "int (length (Volumes (Capacity info))) < MaxInt"
  shows "\<exists>vps dps. GetVolumePlans info requests maxCount = Inr (vps, dps) \<and> length dps = length vps \<and>
    GetVolumeCapacity info requests maxCount = Inr (int (length vps)) \<and> int (length vps) \<le> maxCount"
proof -
  have "int (length (unusedVolumes (newHost info maxCount))) < MaxInt"
    using newHost_unused [of info maxCount] assms(5) by linarith
  from getVolumePlans_total [OF newHost_spec(1) [OF assms(1)] assms(2) _ _ this]
  obtain vps dps where r: "GetVolumePlans info requests maxCount = Inr (vps, dps)"
    using assms(3,4) by (auto simp: GetVolumePlans_def)
  then show ?thesis
    using GetVolumePlans_counts [OF r] GetVolumePlans_accounts(3) [OF r assms(1,2,4,5)] assms(3,5) by auto
qed

text \<open>
  C11: The scheduler never panics and never fails: for a deploy count that is not negative,
  \<open>GetVolumePlans\<close> returns plans (none, when the node cannot take a workload), as many as
  \<open>GetVolumeCapacity\<close> counts and at most as many as were asked for, each with its disk plan.
\<close>

theorem GetVolumePlans_returns:
  assumes "node_ok info" "requests_ok requests" "0 \<le> maxCount" "maxCount \<le> MaxInt"
    and "int (length (Volumes (Capacity info))) < MaxInt"
  shows "\<exists>vps dps. GetVolumePlans info requests maxCount = Inr (vps, dps) \<and> length dps = length vps \<and>
    GetVolumeCapacity info requests maxCount = Inr (int (length vps)) \<and> int (length vps) \<le> maxCount"
  by (rule GetVolumePlans_total [OF assms])

theorem GetVolumePlans_returns_witness:
  "\<exists>vps dps. GetVolumePlans sample_info [sample_normal, sample_mono, sample_mount, sample_unlimited] 9 = Inr (vps, dps)"
proof -
  have "node_ok sample_info" "requests_ok [sample_normal, sample_mono, sample_mount, sample_unlimited]" "(0::int) \<le> 9"
    "(9::int) \<le> MaxInt" "int (length (Volumes (Capacity sample_info))) < MaxInt" by code_simp+
  from GetVolumePlans_returns [OF this] show ?thesis by blast
qed

end
