(* ===== verification/Affinity_Props.thy ===== *)
theory Affinity_Props
  imports Affinity No_Panic
begin

text \<open>
  \<open>GetAffinityPlan\<close>: every binding that has a device keeps it, and the plan serves every request.
\<close>

section \<open>What the steps keep of the host\<close>

definition keeps :: "host \<Rightarrow> host \<Rightarrow> bool" where
  "keeps h h' \<longleftrightarrow> maxDeployCount h' = maxDeployCount h \<and> layout h' = layout h \<and>
     mset (map vdevice (usedVolumes h')) = mset (map vdevice (usedVolumes h)) \<and>
     mset (map vdevice (unusedVolumes h')) = mset (map vdevice (unusedVolumes h)) \<and> (cache_ok h \<longrightarrow> cache_ok h')"

lemma keeps_refl [simp, intro]: "keeps h h"
  by (simp add: keeps_def)

lemma keeps_trans [trans]: "keeps h h1 \<Longrightarrow> keeps h1 h2 \<Longrightarrow> keeps h h2"
  by (simp add: keeps_def)

lemma frame_keeps: "frame h h' \<Longrightarrow> keeps h h'"
  by (simp add: frame_def keeps_def)

lemma keeps_sched_ok:
  assumes "keeps h h'" "sched_ok h"
  shows "sched_ok h'"
proof -
  have ms: "mset (map vdevice (usedVolumes h' @ unusedVolumes h')) = mset (map vdevice (usedVolumes h @ unusedVolumes h))"
    using assms(1) by (simp add: keeps_def)
  have "map Device (hdisks h') = map Device (hdisks h)" using assms(1) layout_eqD(2) [of h' h] by (simp add: keeps_def)
  then show ?thesis
    using assms(2) mset_eq_imp_distinct_iff [OF ms] by (simp only: sched_ok_def wf_disks_def)
qed

lemma keeps_unused: "keeps h h' \<Longrightarrow> length (unusedVolumes h') = length (unusedVolumes h)"
  unfolding keeps_def by (metis length_map mset_eq_length)

lemma index_of_device:
  assumes "index_of (\<lambda>v. vdevice v = device) vs = Some i" "vdevice v = device"
  shows "image_mset vdevice (mset (vs[i := v])) = image_mset vdevice (mset vs)"
proof -
  have "map vdevice (vs[i := v]) = map vdevice vs"
    using index_of_SomeD [OF assms(1)] assms(2) by (simp add: map_update list_update_same_conv)
  from arg_cong [OF this, of mset] show ?thesis by simp
qed

lemma set_volume_keeps: "vdevice v = device \<Longrightarrow> keeps h (set_volume device v h)"
  by (auto simp: set_volume_def keeps_def layout_def cache_ok_def index_of_device split: option.splits)

lemma getVolumeByDevice_device: "getVolumeByDevice device h = Some v \<Longrightarrow> vdevice v = device"
  by (auto simp: getVolumeByDevice_def dest: index_of_SomeD split: option.splits)

lemma vdevice_change_size [simp]: "vdevice (change_size v d) = vdevice v"
  by (simp add: change_size_def)

lemma release_mounts_keeps: "release_mounts reqs h = (h', e) \<Longrightarrow> keeps h h'"
proof (induction reqs h rule: release_mounts.induct)
  case (2 req reqs h)
  show ?case
  proof (cases "RequireIOPS req")
    case True
    obtain disk h1 where d: "getDiskByPath h (Source req) = (disk, h1)" by fastforce
    have k: "keeps h h1" by (rule frame_keeps [OF frame_getDiskByPath [OF d]])
    show ?thesis
    proof (cases disk)
      case (Some i)
      have "keeps h1 (update_disk i (increaseIOPSQuota req) h1)" by (intro frame_keeps frame_update_disk) simp_all
      with 2(2) [OF _ d [symmetric] refl Some] 2(3) True d Some k show ?thesis by (auto intro: keeps_trans)
    qed (use 2(3) True d k in auto)
  qed (use 2 in auto)
qed simp

lemma release_plan_keeps: "release_plan plan h = (h', e) \<Longrightarrow> keeps h h'"
proof (induction plan h rule: release_plan.induct)
  case (2 req vm plan h)
  show ?case
  proof (cases "getVolumeByDevice (GetDevice vm) h")
    case (Some v)
    let ?h1 = "set_volume (GetDevice vm) (change_size v (GetSize vm)) h"
    have k1: "keeps h ?h1" using getVolumeByDevice_device [OF Some] by (intro set_volume_keeps) simp
    show ?thesis
    proof (cases "RequireIOPS req")
      case True
      obtain disk h2 where d: "getDiskByPath ?h1 (vdevice v) = (disk, h2)" by fastforce
      have k2: "keeps ?h1 h2" by (rule frame_keeps [OF frame_getDiskByPath [OF d]])
      show ?thesis
      proof (cases disk)
        case (Some i)
        have "keeps h2 (update_disk i (increaseIOPSQuota req) h2)" by (intro frame_keeps frame_update_disk) simp_all
        with 2(2) [OF \<open>getVolumeByDevice _ _ = Some v\<close> refl _ d [symmetric] refl Some] 2(3) True d Some
          \<open>getVolumeByDevice _ _ = Some v\<close> k1 k2 show ?thesis by (auto intro: keeps_trans)
      qed (use 2(3) True d \<open>getVolumeByDevice _ _ = Some v\<close> k1 k2 in \<open>auto intro: keeps_trans\<close>)
    next
      case False
      with 2(1) [OF Some refl False] 2(3) Some k1 show ?thesis by (auto intro: keeps_trans)
    qed
  qed (use 2 in auto)
qed simp

section \<open>The requests that stay\<close>

text \<open>The entries a request with a device gets.\<close>

definition stay :: "VolumePlan \<Rightarrow> VolumePlan" where
  "stay affinity = map (\<lambda>(req, vm). (req, [(GetDevice vm, SizeInBytes req)])) affinity"

lemma fst_stay [simp]: "map fst (stay affinity) = map fst affinity"
  by (simp add: stay_def comp_def split_def)

lemma affinity_loop_spec:
  assumes "affinity_loop affinity vp dp h = (h', r)" "wf_disks dp"
  shows "keeps h h'"
    "r = Inr (vp', dp') \<Longrightarrow> distinct (map (Destination \<circ> fst) (vp @ affinity)) \<Longrightarrow> vp' = vp @ stay affinity \<and> wf_disks dp'"
proof -
  have "keeps h h' \<and> (r = Inr (vp', dp') \<longrightarrow> distinct (map (Destination \<circ> fst) (vp @ affinity)) \<longrightarrow>
      vp' = vp @ stay affinity \<and> wf_disks dp')"
    using assms
  proof (induction affinity arbitrary: vp dp h)
    case (Cons e affinity)
    obtain req vm where e: "e = (req, vm)" by fastforce
    show ?case
    proof (cases "getVolumeByDevice (GetDevice vm) h")
      case None
      then show ?thesis using Cons.prems by (auto simp: e)
    next
      case (Some v)
      let ?h1 = "set_volume (GetDevice vm) (change_size v (- SizeInBytes req)) h"
      let ?vp = "plan_Merge vp [(req, [(vdevice v, SizeInBytes req)])]"
      have dev: "vdevice v = GetDevice vm" by (rule getVolumeByDevice_device [OF Some])
      have k1: "keeps h ?h1" using dev by (intro set_volume_keeps) simp
      have merge: "?vp = vp @ [(req, [(GetDevice vm, SizeInBytes req)])]"
        if "distinct (map (Destination \<circ> fst) (vp @ e # affinity))"
        using that dev by (subst plan_Merge_append) (auto simp: e)
      have dist: "distinct (map (Destination \<circ> fst) (?vp @ affinity))"
        if "distinct (map (Destination \<circ> fst) (vp @ e # affinity))"
        using that by (simp add: merge [OF that] e)
      obtain disk h2 where d: "getDiskByPath ?h1 (GetDevice vm) = (disk, h2)" by fastforce
      have k2: "keeps h h2" using keeps_trans [OF k1 frame_keeps [OF frame_getDiskByPath [OF d]]] .
      have fin: ?thesis if kx: "keeps h hx" and ih: "keeps hx h' \<and> (r = Inr (vp', dp') \<longrightarrow>
          distinct (map (Destination \<circ> fst) (?vp @ affinity)) \<longrightarrow> vp' = ?vp @ stay affinity \<and> wf_disks dp')" for hx
      proof (intro conjI impI)
        show "keeps h h'" using keeps_trans [OF kx] ih by blast
        assume r: "r = Inr (vp', dp')" and D: "distinct (map (Destination \<circ> fst) (vp @ e # affinity))"
        have "vp' = ?vp @ stay affinity \<and> wf_disks dp'" using ih r dist [OF D] by blast
        then show "vp' = vp @ stay (e # affinity)" "wf_disks dp'" by (simp_all add: merge [OF D] e stay_def)
      qed
      consider "vsize v < SizeInBytes req" | (plain) "\<not> vsize v < SizeInBytes req" "\<not> RequireIOPS req"
        | "\<not> vsize v < SizeInBytes req" "RequireIOPS req" "\<not> isDiskIOPSQuotaQualified (disk_at h2 disk) req \<or> disk = None"
        | (quota) i where "\<not> vsize v < SizeInBytes req" "RequireIOPS req" "isDiskIOPSQuotaQualified (disk_at h2 disk) req" "disk = Some i"
        by blast
      then show ?thesis
      proof cases
        case plain
        then have "affinity_loop affinity ?vp dp ?h1 = (h', r)" using Cons.prems(1) Some by (simp add: e Let_def)
        from fin [OF k1 Cons.IH [OF this Cons.prems(2)]] show ?thesis .
      next
        case (quota i)
        let ?h3 = "update_disk i (decreaseIOPSQuota req) h2"
        have k3: "keeps h ?h3" by (rule keeps_trans [OF k2 frame_keeps [OF frame_update_disk]]) simp_all
        have "affinity_loop affinity ?vp (disks_Add dp [DiskQuota req (hdisks ?h3 ! i)]) ?h3 = (h', r)"
          using Cons.prems(1) Some quota d by (simp add: e Let_def)
        from fin [OF k3 Cons.IH [OF this disk_ledger.wf_add [OF Cons.prems(2) wf_disks_single(1)]]] show ?thesis .
      qed (use Cons.prems(1) Some d k2 in \<open>auto simp: e Let_def split: option.splits if_splits\<close>)
    qed
  qed (auto simp: stay_def)
  then show "keeps h h'" "r = Inr (vp', dp') \<Longrightarrow> distinct (map (Destination \<circ> fst) (vp @ affinity)) \<Longrightarrow> vp' = vp @ stay affinity \<and> wf_disks dp'"
    by simp_all
qed

lemma affinity_split_spec:
  "affinity_split reqs old = (aff, rest) \<Longrightarrow>
   aff = map (\<lambda>r. (r, the (map_of (existing_volumes old) (GetMapKey r)))) (filter (\<lambda>r. map_of (existing_volumes old) (GetMapKey r) \<noteq> None) reqs) \<and>
   rest = filter (\<lambda>r. map_of (existing_volumes old) (GetMapKey r) = None) reqs"
  by (induction reqs old arbitrary: aff rest rule: affinity_split.induct)
    (auto split: prod.splits option.splits)

lemma classifyAffinity_spec:
  assumes "classifyAffinityRequests k reqs old = (aff, rest)"
  shows "mset (map fst aff) = mset (filter (\<lambda>r. map_of (existing_volumes old) (GetMapKey r) \<noteq> None) reqs)"
    "rest = filter (\<lambda>r. map_of (existing_volumes old) (GetMapKey r) = None) reqs"
    "(r, vm) \<in> set aff \<longleftrightarrow> r \<in> set reqs \<and> map_of (existing_volumes old) (GetMapKey r) = Some vm"
proof -
  obtain a where a: "affinity_split reqs old = (a, rest)" and aff: "aff = shuffle k a"
    using assms by (auto simp: classifyAffinityRequests_def split: prod.splits)
  note sp = affinity_split_spec [OF a]
  have "map fst a = filter (\<lambda>r. map_of (existing_volumes old) (GetMapKey r) \<noteq> None) reqs" using sp by (simp add: comp_def)
  then show "mset (map fst aff) = mset (filter (\<lambda>r. map_of (existing_volumes old) (GetMapKey r) \<noteq> None) reqs)"
    unfolding aff mset_map_shuffle by simp
  show "rest = filter (\<lambda>r. map_of (existing_volumes old) (GetMapKey r) = None) reqs" using sp by simp
  show "(r, vm) \<in> set aff \<longleftrightarrow> r \<in> set reqs \<and> map_of (existing_volumes old) (GetMapKey r) = Some vm"
    using sp by (auto simp: aff)
qed

text \<open>In whatever order the requests with a device are met, their mount points stay distinct.\<close>

lemma classifyAffinity_distinct:
  assumes "classifyAffinityRequests k reqs old = (aff, rest)" "distinct (map Destination (map fst vp @ reqs))"
  shows "distinct (map (Destination \<circ> fst) (vp @ aff))" "set (map fst aff) \<subseteq> set reqs"
proof -
  let ?P = "\<lambda>r. map_of (existing_volumes old) (GetMapKey r) \<noteq> None"
  note ms = classifyAffinity_spec(1) [OF assms(1)]
  show sub: "set (map fst aff) \<subseteq> set reqs" using mset_eq_setD [OF ms] by auto
  have "distinct (map Destination (map fst vp @ filter ?P reqs))"
    using assms(2) by (auto simp: distinct_map_filter)
  moreover have "mset (map Destination (map fst vp @ map fst aff)) = mset (map Destination (map fst vp @ filter ?P reqs))"
    using arg_cong [OF ms, of "image_mset Destination"] by (simp add: multiset.map_comp)
  ultimately have "distinct (map Destination (map fst vp @ map fst aff))" using mset_eq_imp_distinct_iff by blast
  then show "distinct (map (Destination \<circ> fst) (vp @ aff))" by simp
qed

lemma commonProcess_spec:
  assumes "commonProcess k reqs old vp dp nr h = (h', Inr (vp', dp', nr'))" "wf_disks dp"
    and "distinct (map Destination (map fst vp @ reqs))"
  obtains aff rest where "keeps h h'" "vp' = vp @ stay aff" "wf_disks dp'" "nr' = nr @ rest"
    "mset (map fst aff) + mset rest = mset reqs"
    "\<And>r vm. r \<in> set reqs \<Longrightarrow> map_of (existing_volumes old) (GetMapKey r) = Some vm \<Longrightarrow>
      (r, [(GetDevice vm, SizeInBytes r)]) \<in> set (stay aff)"
proof -
  obtain aff rest where cl: "classifyAffinityRequests k reqs old = (aff, rest)" by fastforce
  note sp = classifyAffinity_spec [OF cl]
  let ?P = "\<lambda>r. map_of (existing_volumes old) (GetMapKey r) \<noteq> None"
  have run: "affinity_loop aff vp dp h = (h', Inr (vp', dp'))" "nr' = nr @ rest"
    using assms(1) cl by (auto simp: commonProcess_def bind_res_Inr_iff split: prod.splits)
  have "distinct (map (Destination \<circ> fst) (vp @ aff))" by (rule classifyAffinity_distinct(1) [OF cl assms(3)])
  then have res: "keeps h h'" "vp' = vp @ stay aff" "wf_disks dp'"
    using affinity_loop_spec(1) [OF run(1) assms(2)] affinity_loop_spec(2) [OF run(1) assms(2) refl] by blast+
  have "rest = filter (\<lambda>r. \<not> ?P r) reqs" using sp(2) by simp
  then have "mset (map fst aff) + mset rest = mset reqs" unfolding sp(1) by simp
  moreover have "(r, [(GetDevice vm, SizeInBytes r)]) \<in> set (stay aff)"
    if "r \<in> set reqs" "map_of (existing_volumes old) (GetMapKey r) = Some vm" for r vm
  proof -
    have "(r, vm) \<in> set aff" using sp(3) that by blast
    then show ?thesis by (force simp: stay_def)
  qed
  ultimately show ?thesis using that res run(2) by blast
qed

lemma getMonoPlan_vdevice: "getMonoPlan reqs v h = (h1, v1, r) \<Longrightarrow> vdevice v1 = vdevice v"
  by (auto simp: getMonoPlan_def Let_def split: if_splits prod.splits bool.splits list.splits option.splits)

text \<open>The monopoly requests are on one device together, or all of them are left.\<close>

lemma process_mono_spec:
  assumes "process_mono k reqs old vp dp nr h = (h', Inr (vp', dp', nr'))" "wf_disks dp" "cache_ok h" "sched_ok h"
    and "mono_ok reqs" "distinct (map Destination (map fst vp @ reqs))"
  obtains mp left where "keeps h h'" "vp' = vp @ mp" "wf_disks dp'" "nr' = nr @ left" "map fst mp @ left = reqs" "single mp"
    "left = [] \<or> mp = []" "\<And>r vm. r \<in> set reqs \<Longrightarrow> map_of (existing_volumes old) (GetMapKey r) = Some vm \<Longrightarrow> left = [] \<and>
      (\<exists>r' vm'. r' \<in> set reqs \<and> map_of (existing_volumes old) (GetMapKey r') = Some vm' \<and>
        (\<forall>e \<in> set mp. \<exists>s. snd e = [(GetDevice vm', s)]))"
proof -
  obtain aff rest where cl: "classifyAffinityRequests k reqs old = (aff, rest)" by fastforce
  note sp = classifyAffinity_spec [OF cl]
  show ?thesis
  proof (cases aff)
    case Nil
    then have none: "map_of (existing_volumes old) (GetMapKey r) = None" if "r \<in> set reqs" for r
      using sp(1) that by (auto simp: filter_empty_conv)
    then have "rest = reqs" using sp(2) by (auto simp: filter_id_conv)
    then have "h' = h" "vp' = vp" "dp' = dp" "nr' = nr @ reqs" using assms(1) cl Nil by (auto simp: process_mono_def)
    then show ?thesis using that [of "[]" reqs] none assms(2) by simp
  next
    case (Cons a as)
    obtain r' vm' where a: "a = (r', vm')" by fastforce
    have ex: "r' \<in> set reqs" "map_of (existing_volumes old) (GetMapKey r') = Some vm'"
    proof -
      have "(r', vm') \<in> set aff" using Cons a by simp
      then show "r' \<in> set reqs" "map_of (existing_volumes old) (GetMapKey r') = Some vm'" using sp(3) by simp_all
    qed
    obtain mvp mdp where g: "getMonoAffinityPlan reqs aff old h = (h', Inr (mvp, mdp))"
      and res: "vp' = plan_Merge vp mvp" "dp' = (case mdp of None \<Rightarrow> dp | Some d \<Rightarrow> disks_Add dp [d])" "nr' = nr"
      using assms(1) cl Cons by (auto simp: process_mono_def bind_res_Inr_iff split: prod.splits)
    obtain v h1 v1 where v: "getVolumeByDevice (GetDevice vm') h = Some v"
      and m: "getMonoPlan reqs v h = (h1, v1, Inr (mvp, mdp))" and h': "h' = set_volume (GetDevice vm') v1 h1"
      using g Cons a by (auto simp: getMonoAffinityPlan_def split: if_splits option.splits prod.splits)
    have dev: "vdevice v = GetDevice vm'" by (rule getVolumeByDevice_device [OF v])
    have "wf_disks (hdisks h)" "ValidIOParameters (total_quota reqs)"
      using assms(4,5) by (simp_all add: sched_ok_def mono_ok_def)
    then have "frame h h1" by (rule getMonoPlan_disks(1) [OF m assms(3)])
    then have "keeps h h'"
      unfolding h' using getMonoPlan_vdevice [OF m] dev by (intro keeps_trans [OF frame_keeps set_volume_keeps]) simp_all
    moreover note mv = getMonoPlan_volume(2,4) [OF m]
    have "distinct (map Destination (map fst vp @ map fst mvp))" using assms(6) mv(1) by simp
    then have "vp' = vp @ mvp" unfolding res(1) by (intro plan_Merge_append) simp
    moreover have "wf_disks dp'" using assms(2) by (auto simp: res(2) intro!: disk_ledger.wf_add split: option.splits)
    moreover have "single mvp" using mv(2) unfolding single_def by blast
    ultimately show ?thesis using that [of mvp "[]"] mv res(3) ex dev by simp blast
  qed
qed

lemma getMountDiskPlan_wf: "getMountDiskPlan reqs h = (h', Inr dp) \<Longrightarrow> wf_disks dp"
proof -
  have "mount_disk_loop reqs d h = (h', Inr dp) \<Longrightarrow> wf_disks d \<Longrightarrow> wf_disks dp" for d
  proof (induction reqs d h rule: mount_disk_loop.induct)
    case (2 req reqs d h)
    obtain disk h1 where p: "getDiskByPath h (Source req) = (disk, h1)" by fastforce
    show ?case
    proof (cases "RequireIOPS req")
      case True
      then have q: "isDiskIOPSQuotaQualified (disk_at h1 disk) req" using 2(3) p by (auto split: if_splits)
      with True 2(3) p obtain i where i: "disk = Some i" by (cases disk) auto
      let ?h2 = "update_disk i (decreaseIOPSQuota req) h1"
      have "mount_disk_loop reqs (disks_Add d [DiskQuota req (hdisks ?h2 ! i)]) ?h2 = (h', Inr dp)"
        using 2(3) True p q i by (simp add: Let_def)
      with 2(2) [OF _ p [symmetric] refl _ i refl] True q show ?thesis
        using disk_ledger.wf_add [OF 2(4) wf_disks_single(1)] by simp
    qed (use 2 in auto)
  qed simp
  then show "getMountDiskPlan reqs h = (h', Inr dp) \<Longrightarrow> wf_disks dp" by (simp add: getMountDiskPlan_def)
qed

lemma bind_hostE:
  assumes "bind_host hr f = Inr y"
  obtains x h where "hr = (h, Inr x)" "f x h = Inr y"
  using assms by (cases hr) (auto simp: bind_host_def bind_res_Inr_iff)

lemma bind_hostE3:
  assumes "bind_host hr f = Inr y"
  obtains a b c h where "hr = (h, Inr (a, b, c))" "f (a, b, c) h = Inr y"
  using assms by (rule bind_hostE) (metis prod_cases3)

lemma err_res_Inr: "err_res he = (h, Inr x) \<longleftrightarrow> he = (h, None)"
  by (cases he) (auto simp: err_res_def split: option.splits)

section \<open>The plan\<close>

lemma mono_class_left:
  assumes "\<forall>r \<in> set a. \<not> RequireScheduleMonopoly r" "\<forall>r \<in> set b. \<not> RequireScheduleMonopoly r"
    and "left = [] \<or> left = mono_class (classifyVolumeBindings reqs)"
  shows "mono_class (classifyVolumeBindings (a @ left @ b)) = left"
proof -
  have cls: "mono_class (classifyVolumeBindings vbs) = sort_key SizeInBytes (filter RequireScheduleMonopoly vbs)" for vbs
    using classify_loop_sets [of vbs "\<lparr>normal_class = [], mono_class = [], unlimited_class = [], mount_class = []\<rparr>"]
    by (simp add: classifyVolumeBindings_def Let_def)
  have "filter RequireScheduleMonopoly left = left" "sorted (map SizeInBytes left)"
    using assms(3) cls [of reqs] by (auto simp: filter_id_conv)
  then show ?thesis using assms(1,2) by (simp add: cls filter_empty_conv [THEN iffD2] sort_key_id)
qed

lemma distinct_destinations:
  assumes "distinct (map Destination xs)" "distinct (map Destination ys)" "Destination ` set xs \<subseteq> A"
    and "A \<inter> Destination ` set ys = {}"
  shows "distinct (map Destination (xs @ ys))"
  using assms by auto

lemma disjoint_mono: "B \<subseteq> C \<Longrightarrow> A \<inter> C = {} \<Longrightarrow> A \<inter> B = {}"
  by blast

lemma first_plans: "(case xs of [] \<Rightarrow> Inl e | p # _ \<Rightarrow> (case ys of [] \<Rightarrow> Inl e' | q # _ \<Rightarrow> Inr (f p q))) = Inr r \<longleftrightarrow>
    (\<exists>p ps q qs. xs = p # ps \<and> ys = q # qs \<and> r = f p q)"
  by (cases xs; cases ys) auto

lemma getAffinityPlan_steps:
  assumes "getAffinityPlan ord reqs old oreqs h = Inr (vp, dp)" "NeedSchedule reqs"
  obtains h1 h2 h3 mdp h4 vp1 dp1 nr1 h5 vp2 dp2 nr2 h6 vp3 dp3 nr3 where
    "release_mounts (mount_class (classifyVolumeBindings oreqs)) h = (h1, None)" "release_plan old h1 = (h2, None)"
    "getMountDiskPlan (mount_class (classifyVolumeBindings reqs)) h2 = (h3, Inr mdp)"
    "commonProcess (ord 2) (normal_class (classifyVolumeBindings reqs)) old [] (disks_Add [] mdp) [] h3 = (h4, Inr (vp1, dp1, nr1))"
    "process_mono (ord 3) (mono_class (classifyVolumeBindings reqs)) old vp1 dp1 nr1 h4 = (h5, Inr (vp2, dp2, nr2))"
    "commonProcess (ord 4) (unlimited_class (classifyVolumeBindings reqs)) old vp2 dp2 nr2 h5 = (h6, Inr (vp3, dp3, nr3))"
    "nr3 = [] \<and> vp = vp3 \<and> dp = dp3 \<or> nr3 \<noteq> [] \<and> (\<exists>p ps q qs. getVolumePlans nr3 h6 = Inr (p # ps, q # qs) \<and>
        vp = plan_Merge vp3 p \<and> dp = disks_Add dp3 q)"
proof -
  let ?c = "classifyVolumeBindings reqs"
  have "bind_host (err_res (release_mounts (mount_class (classifyVolumeBindings oreqs)) h)) (\<lambda>_ h1.
      bind_host (err_res (release_plan old h1)) (\<lambda>_ h2.
      bind_host (getMountDiskPlan (mount_class ?c) h2) (\<lambda>mdp h3.
      bind_host (commonProcess (ord 2) (normal_class ?c) old [] (disks_Add [] mdp) [] h3) (\<lambda>(vp, dp, nr) h4.
      bind_host (process_mono (ord 3) (mono_class ?c) old vp dp nr h4) (\<lambda>(vp, dp, nr) h5.
      bind_host (commonProcess (ord 4) (unlimited_class ?c) old vp dp nr h5) (\<lambda>(vp, dp, nr) h6.
        if nr = [] then Inr (vp, dp)
        else bind_res (getVolumePlans nr h6) (\<lambda>(volumePlans, diskPlans).
          case (volumePlans, diskPlans) of
            (p # _, q # _) \<Rightarrow> Inr (plan_Merge vp p, disks_Add dp q)
          | (_ # _, []) \<Rightarrow> Inl ErrPanic
          | ([], _) \<Rightarrow> Inl ErrInsufficientResource))))))) = Inr (vp, dp)"
    using assms by (simp only: getAffinityPlan_def Let_def not_True_eq_False if_False)
  then show ?thesis
  proof (rule bind_hostE, goal_cases)
    case 1
    from 1(2) show ?case
    proof (rule bind_hostE, goal_cases)
      case 2: 1
      from 2(2) show ?case
      proof (rule bind_hostE, goal_cases)
        case 3: 1
        from 3(2) show ?case
        proof (rule bind_hostE3, goal_cases)
          case 4: 1
          from 4(2) [unfolded prod.case] show ?case
          proof (rule bind_hostE3, goal_cases)
            case 5: 1
            from 5(2) [unfolded prod.case] show ?case
            proof (rule bind_hostE3, goal_cases)
              case 6: 1
              show ?case
                by (rule that [OF 1(1) [unfolded err_res_Inr] 2(1) [unfolded err_res_Inr] 3(1) 4(1) 5(1) 6(1)])
                  (use 6(2) in \<open>auto simp: bind_res_Inr_iff first_plans split: if_splits\<close>)
            qed
          qed
        qed
      qed
    qed
  qed
qed

text \<open>
  The stages of a run that succeeds, with what holds between them: no two entries have the same mount
  point, the hosts differ in their amounts only, and what is left for \<open>getVolumePlans\<close> is a valid request.
\<close>

lemma getAffinityPlan_stages:
  assumes run: "getAffinityPlan ord reqs old oreqs h = Inr (vp, dp)" and need: "NeedSchedule reqs" and ok: "sched_ok h" "cache_ok h"
    and req: "requests_ok reqs" and max: "maxDeployCount h \<le> MaxInt" "int (length (unusedVolumes h)) < MaxInt"
  defines "c \<equiv> classifyVolumeBindings reqs" and "had \<equiv> \<lambda>r. map_of (existing_volumes old) (GetMapKey r)"
  obtains h1 h2 h3 mdp h4 vp1 dp1 nr1 h5 vp2 dp2 nr2 h6 vp3 dp3 nr3 affN mp affU where
    "release_mounts (mount_class (classifyVolumeBindings oreqs)) h = (h1, None)" "release_plan old h1 = (h2, None)"
    "getMountDiskPlan (mount_class c) h2 = (h3, Inr mdp)"
    "commonProcess (ord 2) (normal_class c) old [] (disks_Add [] mdp) [] h3 = (h4, Inr (vp1, dp1, nr1))"
    "process_mono (ord 3) (mono_class c) old vp1 dp1 nr1 h4 = (h5, Inr (vp2, dp2, nr2))"
    "commonProcess (ord 4) (unlimited_class c) old vp2 dp2 nr2 h5 = (h6, Inr (vp3, dp3, nr3))"
    "nr3 = [] \<and> vp = vp3 \<and> dp = dp3 \<or> nr3 \<noteq> [] \<and> (\<exists>p ps q qs. getVolumePlans nr3 h6 = Inr (p # ps, q # qs) \<and>
        vp = vp3 @ p \<and> dp = disks_Add dp3 q)"
    "keeps h h2" "keeps h h3" "keeps h h4" "keeps h h5" "keeps h h6" "wf_disks (disks_Add [] mdp)" "wf_disks dp1" "wf_disks dp2" "wf_disks dp3"
    "distinct (map Destination (map fst [] @ normal_class c))" "distinct (map Destination (map fst vp1 @ mono_class c))"
    "distinct (map Destination (map fst vp2 @ unlimited_class c))" "vp3 = stay affN @ mp @ stay affU" "single mp"
    "mset (map fst vp3) + mset nr3 = mset (filter RequireSchedule reqs)" "filter RequireSchedule nr3 = nr3" "requests_ok nr3"
    "\<And>r vm. r \<in> set (normal_class c) \<Longrightarrow> had r = Some vm \<Longrightarrow> (r, [(GetDevice vm, SizeInBytes r)]) \<in> set (stay affN)"
    "\<And>r vm. r \<in> set (unlimited_class c) \<Longrightarrow> had r = Some vm \<Longrightarrow> (r, [(GetDevice vm, SizeInBytes r)]) \<in> set (stay affU)"
    "\<And>r vm. r \<in> set (mono_class c) \<Longrightarrow> had r = Some vm \<Longrightarrow> map fst mp = mono_class c \<and>
      (\<exists>r' vm'. r' \<in> set (mono_class c) \<and> had r' = Some vm' \<and> (\<forall>e \<in> set mp. \<exists>s. snd e = [(GetDevice vm', s)]))"
proof -
  let ?N = "normal_class c" and ?M = "mono_class c" and ?U = "unlimited_class c"
  have dist: "distinct (map Destination (?N @ ?M @ ?U))"
    using req classes_distinct unfolding requests_ok_def c_def by blast
  obtain h1 h2 h3 mdp h4 vp1 dp1 nr1 h5 vp2 dp2 nr2 h6 vp3 dp3 nr3 where
    s1: "release_mounts (mount_class (classifyVolumeBindings oreqs)) h = (h1, None)"
    and s2: "release_plan old h1 = (h2, None)" and s3: "getMountDiskPlan (mount_class c) h2 = (h3, Inr mdp)"
    and s4: "commonProcess (ord 2) ?N old [] (disks_Add [] mdp) [] h3 = (h4, Inr (vp1, dp1, nr1))"
    and s5: "process_mono (ord 3) ?M old vp1 dp1 nr1 h4 = (h5, Inr (vp2, dp2, nr2))"
    and s6: "commonProcess (ord 4) ?U old vp2 dp2 nr2 h5 = (h6, Inr (vp3, dp3, nr3))"
    and s7: "nr3 = [] \<and> vp = vp3 \<and> dp = dp3 \<or> nr3 \<noteq> [] \<and> (\<exists>p ps q qs. getVolumePlans nr3 h6 = Inr (p # ps, q # qs) \<and>
        vp = plan_Merge vp3 p \<and> dp = disks_Add dp3 q)"
    by (rule getAffinityPlan_steps [OF run need]) (simp add: c_def)
  have k3: "keeps h h3"
    using release_mounts_keeps [OF s1] release_plan_keeps [OF s2] getMountDiskPlan_frame [OF s3] frame_keeps keeps_trans by blast
  have w3: "wf_disks (disks_Add [] mdp)" using getMountDiskPlan_wf [OF s3] by (intro disk_ledger.wf_add) simp_all
  have d1: "distinct (map Destination (map fst [] @ ?N))" using dist by simp
  obtain affN restN where n: "keeps h3 h4" "vp1 = stay affN" "wf_disks dp1" "nr1 = restN"
    "mset (map fst affN) + mset restN = mset ?N"
    "\<And>r vm. r \<in> set ?N \<Longrightarrow> had r = Some vm \<Longrightarrow> (r, [(GetDevice vm, SizeInBytes r)]) \<in> set (stay affN)"
    by (rule commonProcess_spec [OF s4 w3 d1]) (simp add: had_def)
  have subN: "set (map fst affN) \<subseteq> set ?N" "set restN \<subseteq> set ?N"
    using arg_cong [OF n(5), of set_mset] by auto
  have k4: "keeps h h4" by (rule keeps_trans [OF k3 n(1)])
  have ok4: "cache_ok h4" "sched_ok h4" using k4 ok keeps_sched_ok by (auto simp: keeps_def)
  have mono: "mono_ok ?M" using req by (simp add: requests_ok_def c_def)
  have "mset (map Destination (map fst affN @ restN)) = mset (map Destination ?N)"
    using arg_cong [OF n(5), of "image_mset Destination"] by (simp add: multiset.map_comp)
  from mset_eq_imp_distinct_iff [OF this] have dN: "distinct (map Destination (map fst affN))" using dist by simp
  have iN: "Destination ` set (map fst affN) \<subseteq> Destination ` set ?N" by (rule image_mono [OF subN(1)])
  have dM: "distinct (map Destination (map fst vp1 @ ?M))"
    unfolding n(2) fst_stay by (rule distinct_destinations [OF dN _ iN]) (use dist in \<open>simp_all add: Int_Un_distrib\<close>)
  obtain mp left where
    m: "keeps h4 h5" "vp2 = vp1 @ mp" "wf_disks dp2" "nr2 = nr1 @ left" "map fst mp @ left = ?M" "single mp"
    "left = [] \<or> mp = []" "\<And>r vm. r \<in> set ?M \<Longrightarrow> had r = Some vm \<Longrightarrow> left = [] \<and> (\<exists>r' vm'. r' \<in> set ?M \<and> had r' = Some vm' \<and>
        (\<forall>e \<in> set mp. \<exists>s. snd e = [(GetDevice vm', s)]))"
    by (rule process_mono_spec [OF s5 n(3) ok4 mono dM]) (simp only: had_def)
  have subM: "set (map fst mp) \<subseteq> set ?M" using arg_cong [OF m(5), of set] by auto
  have "distinct (map Destination (map fst mp @ left))" unfolding m(5) using dist by simp
  then have dmp: "distinct (map Destination (map fst mp))" by simp
  have disj: "Destination ` set ?N \<inter> Destination ` set ?M = {}" "Destination ` set ?N \<inter> Destination ` set ?U = {}"
    "Destination ` set ?M \<inter> Destination ` set ?U = {}" "distinct (map Destination ?U)"
    using dist by (simp_all add: Int_Un_distrib)
  have iM: "Destination ` set (map fst mp) \<subseteq> Destination ` set ?M" by (rule image_mono [OF subM])
  have "Destination ` set ?N \<inter> Destination ` set (map fst mp @ ?U) = {}"
    using disj(1,2) disjoint_mono [OF iM] by (simp only: set_append image_Un Int_Un_distrib Un_empty)
  from distinct_destinations [OF dN distinct_destinations [OF dmp disj(4) iM disj(3)] iN this]
  have dU: "distinct (map Destination (map fst vp2 @ ?U))" by (simp only: m(2) n(2) map_append fst_stay append_assoc)
  obtain affU restU where
    u: "keeps h5 h6" "vp3 = vp2 @ stay affU" "wf_disks dp3" "nr3 = nr2 @ restU" "mset (map fst affU) + mset restU = mset ?U"
    "\<And>r vm. r \<in> set ?U \<Longrightarrow> had r = Some vm \<Longrightarrow> (r, [(GetDevice vm, SizeInBytes r)]) \<in> set (stay affU)"
    by (rule commonProcess_spec [OF s6 m(3) dU]) (simp add: had_def)
  have vp3: "vp3 = stay affN @ mp @ stay affU" and nr3: "nr3 = restN @ left @ restU" by (simp_all add: u m n)
  have "mset (map fst vp3) + mset nr3 = (mset (map fst affN) + mset restN) + mset (map fst mp @ left) +
      (mset (map fst affU) + mset restU)"
    by (simp only: vp3 nr3 map_append fst_stay mset_append ac_simps)
  also have "\<dots> = mset (?N @ ?M @ ?U)" unfolding n(5) m(5) u(5) by simp
  also have "\<dots> = mset (filter RequireSchedule reqs)" using classes_scheduled by (simp only: c_def)
  finally have ms: "mset (map fst vp3) + mset nr3 = mset (filter RequireSchedule reqs)" .
  have sched: "filter RequireSchedule nr3 = nr3"
  proof -
    have "set nr3 \<subseteq> set (filter RequireSchedule reqs)" using ms by (metis mset_subset_eq_add_right set_mset_mono set_mset_mset)
    then show ?thesis by (auto simp: filter_id_conv)
  qed
  have "mset (map Destination (map fst vp3 @ nr3)) = mset (map Destination (?N @ ?M @ ?U))"
    using arg_cong [OF ms, of "image_mset Destination"] arg_cong [OF classes_scheduled [of reqs], of "image_mset Destination"]
    by (simp add: c_def multiset.map_comp)
  then have D: "distinct (map Destination (map fst vp3 @ nr3))" using dist mset_eq_imp_distinct_iff by blast
  have non: "\<forall>r \<in> set restN. \<not> RequireScheduleMonopoly r" "\<forall>r \<in> set restU. \<not> RequireScheduleMonopoly r"
    using subN(2) u(5) classes_sets [of reqs] mset_subset_eq_add_right [of "mset restU" "mset (map fst affU)"]
    by (fastforce simp: c_def dest: set_mset_mono)+
  have "left = [] \<or> left = ?M" using m(5,7) by auto
  then have "mono_class (classifyVolumeBindings nr3) = left" "mono_ok left"
    using mono_class_left [OF non, of left reqs] mono
    by (auto simp: nr3 c_def mono_ok_def total_quota_def empty_binding_def ValidIOParameters_def)
  moreover have "set nr3 \<subseteq> set reqs"
    using ms by (metis filter_is_subset mset_subset_eq_add_right order_trans set_mset_mono set_mset_mset)
  then have "valid_reqs nr3" using req by (auto simp: requests_ok_def valid_reqs_def)
  ultimately have ok_nr3: "requests_ok nr3" using D by (simp add: requests_ok_def)
  have k2: "keeps h h2" using release_mounts_keeps [OF s1] release_plan_keeps [OF s2] keeps_trans by blast
  have k5: "keeps h h5" by (rule keeps_trans [OF k4 m(1)])
  have last: "nr3 = [] \<and> vp = vp3 \<and> dp = dp3 \<or> nr3 \<noteq> [] \<and> (\<exists>p ps q qs. getVolumePlans nr3 h6 = Inr (p # ps, q # qs) \<and>
      vp = vp3 @ p \<and> dp = disks_Add dp3 q)"
  proof (cases "nr3 = []")
    case False
    then obtain p ps q qs where gp: "getVolumePlans nr3 h6 = Inr (p # ps, q # qs)" "vp = plan_Merge vp3 p" "dp = disks_Add dp3 q"
      using s7 by blast
    have h6: "keeps h h6" by (rule keeps_trans [OF k5 u(1)])
    have "mset (map fst p) = mset nr3"
      using getVolumePlans_accounts [OF gp(1) keeps_sched_ok [OF h6 ok(1)] ok_nr3] max keeps_unused [OF h6] h6 sched by (simp add: keeps_def)
    from arg_cong [OF this, of "image_mset Destination"]
    have "mset (map Destination (map fst (vp3 @ p))) = mset (map Destination (map fst vp3 @ nr3))" by (simp add: multiset.map_comp)
    then have "distinct (map Destination (map fst (vp3 @ p)))" using D mset_eq_imp_distinct_iff by blast
    then have "plan_Merge vp3 p = vp3 @ p" by (intro plan_Merge_append) simp
    with gp False show ?thesis by blast
  qed (use s7 in blast)
  show ?thesis
  proof (rule that [OF s1 s2 s3 s4 s5 s6 last k2 k3 k4 k5 keeps_trans [OF k5 u(1)] w3 n(3) m(3) u(3) d1 dM dU vp3 m(6) ms sched ok_nr3 n(6) u(6)])
    show "map fst mp = ?M \<and> (\<exists>r' vm'. r' \<in> set ?M \<and> had r' = Some vm' \<and> (\<forall>e \<in> set mp. \<exists>s. snd e = [(GetDevice vm', s)]))"
      if "r \<in> set ?M" "had r = Some vm" for r vm
      using m(5) m(8) [OF that] by auto
  qed
qed

lemma getAffinityPlan_spec:
  assumes run: "getAffinityPlan ord reqs old oreqs h = Inr (vp, dp)" and need: "NeedSchedule reqs" and ok: "sched_ok h" "cache_ok h"
    and req: "requests_ok reqs" and max: "maxDeployCount h \<le> MaxInt" "int (length (unusedVolumes h)) < MaxInt"
  defines "c \<equiv> classifyVolumeBindings reqs" and "had \<equiv> \<lambda>r. map_of (existing_volumes old) (GetMapKey r)"
  shows "mset (map fst vp) = mset (filter RequireSchedule reqs)" "single vp" "wf_disks dp"
    "\<And>r vm. r \<in> set (normal_class c) \<union> set (unlimited_class c) \<Longrightarrow> had r = Some vm \<Longrightarrow>
       (r, [(GetDevice vm, SizeInBytes r)]) \<in> set vp"
    "\<And>r vm. r \<in> set (mono_class c) \<Longrightarrow> had r = Some vm \<Longrightarrow>
       \<exists>r' vm'. r' \<in> set (mono_class c) \<and> had r' = Some vm' \<and>
         (\<forall>q \<in> set (mono_class c). \<exists>s. (q, [(GetDevice vm', s)]) \<in> set vp)"
proof -
  obtain h1 h2 h3 mdp h4 vp1 dp1 nr1 h5 vp2 dp2 nr2 h6 vp3 dp3 nr3 affN mp affU where
    last: "nr3 = [] \<and> vp = vp3 \<and> dp = dp3 \<or> nr3 \<noteq> [] \<and> (\<exists>p ps q qs. getVolumePlans nr3 h6 = Inr (p # ps, q # qs) \<and>
        vp = vp3 @ p \<and> dp = disks_Add dp3 q)"
    and k6: "keeps h h6" and w: "wf_disks dp3" and vp3: "vp3 = stay affN @ mp @ stay affU" and sm: "single mp"
    and ms: "mset (map fst vp3) + mset nr3 = mset (filter RequireSchedule reqs)" "filter RequireSchedule nr3 = nr3" "requests_ok nr3"
    and nu: "\<And>r vm. r \<in> set (normal_class c) \<Longrightarrow> had r = Some vm \<Longrightarrow> (r, [(GetDevice vm, SizeInBytes r)]) \<in> set (stay affN)"
      "\<And>r vm. r \<in> set (unlimited_class c) \<Longrightarrow> had r = Some vm \<Longrightarrow> (r, [(GetDevice vm, SizeInBytes r)]) \<in> set (stay affU)"
    and m: "\<And>r vm. r \<in> set (mono_class c) \<Longrightarrow> had r = Some vm \<Longrightarrow> map fst mp = mono_class c \<and>
      (\<exists>r' vm'. r' \<in> set (mono_class c) \<and> had r' = Some vm' \<and> (\<forall>e \<in> set mp. \<exists>s. snd e = [(GetDevice vm', s)]))"
    by (rule getAffinityPlan_stages [OF run need ok req max]) (simp only: c_def had_def)
  have sing: "single vp3" using sm by (auto simp: vp3 single_def stay_def)
  have "\<exists>p. vp = vp3 @ p \<and> mset (map fst p) = mset nr3 \<and> single p \<and> wf_disks dp"
  proof (cases "nr3 = []")
    case True
    then show ?thesis using last w by (intro exI [of _ "[]"]) auto
  next
    case False
    then obtain p ps q qs where gp: "getVolumePlans nr3 h6 = Inr (p # ps, q # qs)" "vp = vp3 @ p" "dp = disks_Add dp3 q"
      using last by blast
    have "maxDeployCount h6 \<le> MaxInt" "int (length (unusedVolumes h6)) < MaxInt"
      using k6 max keeps_unused [OF k6] by (simp_all add: keeps_def)
    note acc = getVolumePlans_accounts [OF gp(1) keeps_sched_ok [OF k6 ok(1)] ms(3) this]
    have "wf_disks dp" unfolding gp(3) using acc by (intro disk_ledger.wf_add [OF w]) simp
    then show ?thesis using gp(2) acc ms(2) by auto
  qed
  then obtain p where p: "vp = vp3 @ p" "mset (map fst p) = mset nr3" "single p" "wf_disks dp" by blast
  show "mset (map fst vp) = mset (filter RequireSchedule reqs)" using ms(1) p by simp
  show "single vp" using sing p(1,3) by (auto simp: single_def)
  show "wf_disks dp" by (rule p(4))
  show "(r, [(GetDevice vm, SizeInBytes r)]) \<in> set vp" if "r \<in> set (normal_class c) \<union> set (unlimited_class c)" "had r = Some vm" for r vm
    using nu that by (auto simp: p(1) vp3)
  show "\<exists>r' vm'. r' \<in> set (mono_class c) \<and> had r' = Some vm' \<and> (\<forall>q \<in> set (mono_class c). \<exists>s. (q, [(GetDevice vm', s)]) \<in> set vp)"
    if r: "r \<in> set (mono_class c)" "had r = Some vm" for r vm
  proof -
    obtain r' vm' where r': "map fst mp = mono_class c" "r' \<in> set (mono_class c)" "had r' = Some vm'" "\<forall>e \<in> set mp. \<exists>s. snd e = [(GetDevice vm', s)]"
      using m [OF r] by blast
    have "\<exists>s. (q, [(GetDevice vm', s)]) \<in> set vp" if "q \<in> set (mono_class c)" for q
    proof -
      have "q \<in> fst ` set mp" using that unfolding r'(1) [symmetric] by simp
      then obtain vm1 where e: "(q, vm1) \<in> set mp" by force
      then obtain s where "vm1 = [(GetDevice vm', s)]" using r'(4) by force
      with e show ?thesis by (auto simp: p(1) vp3)
    qed
    with r'(2,3) show ?thesis by blast
  qed
qed

section \<open>What a realloc promises\<close>

text \<open>
  C17: Affinity. The plan \<open>GetAffinityPlan\<close> makes for the bindings of a realloc serves every binding that
  is to be scheduled, once, on one device. A binding of a fixed or an unlimited size that had a device
  stays on it, with the size now asked for; and when a monopoly binding had a device, all monopoly
  bindings are put together on a device one of them had.
\<close>

theorem GetAffinityPlan_stays:
  assumes "GetAffinityPlan ord info reqs old oreqs = Inr (vp, dp)" "NeedSchedule reqs" "node_ok info" "requests_ok reqs"
    and "int (length (Volumes (Capacity info))) < MaxInt"
  shows "mset (map fst vp) = mset (filter RequireSchedule reqs) \<and> single vp \<and> wf_disks dp \<and>
    (\<forall>r vm. r \<in> set (normal_class (classifyVolumeBindings reqs)) \<union> set (unlimited_class (classifyVolumeBindings reqs)) \<and>
       map_of (existing_volumes old) (GetMapKey r) = Some vm \<longrightarrow> (r, [(GetDevice vm, SizeInBytes r)]) \<in> set vp) \<and>
    ((\<exists>r \<in> set (mono_class (classifyVolumeBindings reqs)). map_of (existing_volumes old) (GetMapKey r) \<noteq> None) \<longrightarrow>
       (\<exists>r vm. r \<in> set (mono_class (classifyVolumeBindings reqs)) \<and> map_of (existing_volumes old) (GetMapKey r) = Some vm \<and>
          (\<forall>q \<in> set (mono_class (classifyVolumeBindings reqs)). \<exists>s. (q, [(GetDevice vm, s)]) \<in> set vp)))"
proof -
  have "cache_ok (newHost info 1)" by (simp add: cache_ok_def newHost_def split: prod.splits)
  moreover have "maxDeployCount (newHost info 1) \<le> MaxInt" by (simp add: MaxInt_def)
  moreover have "int (length (unusedVolumes (newHost info 1))) < MaxInt"
    using newHost_unused [of info 1] assms(5) by linarith
  ultimately show ?thesis
    using getAffinityPlan_spec [OF assms(1) [unfolded GetAffinityPlan_def] assms(2) newHost_spec(1) [OF assms(3)] _ assms(4)]
    by (metis (no_types, lifting) not_None_eq)
qed

text \<open>A node whose volume \<open>/data/2\<close> is taken by a monopoly binding, which is to grow.\<close>

definition held_info :: NodeResourceInfo where
  "held_info = sample_info\<lparr>Usage := \<lparr>Volumes = [(''/data/0'', 20), (''/data/2'', 80)], Disks = [], Storage = 100\<rparr>\<rparr>"

definition grown :: VolumeBinding where
  "grown = sample_mono\<lparr>SizeInBytes := 25\<rparr>"

theorem GetAffinityPlan_stays_witness:
  "\<exists>vp dp s. GetAffinityPlan (\<lambda>_. 0) held_info [grown, sample_normal] [(sample_mono, [(''/data/2'', 80)])] [sample_mono] = Inr (vp, dp) \<and>
    (grown, [(''/data/2'', s)]) \<in> set vp"
proof -
  let ?reqs = "[grown, sample_normal]" and ?old = "[(sample_mono, [(''/data/2'', 80)])]"
  have ok: "NeedSchedule ?reqs" "node_ok held_info" "requests_ok ?reqs" "int (length (Volumes (Capacity held_info))) < MaxInt"
    by code_simp+
  have "case GetAffinityPlan (\<lambda>_. 0) held_info ?reqs ?old [sample_mono] of Inr _ \<Rightarrow> True | Inl _ \<Rightarrow> False" by code_simp
  then obtain vp dp where run: "GetAffinityPlan (\<lambda>_. 0) held_info ?reqs ?old [sample_mono] = Inr (vp, dp)" using Inr_of_case by fast
  have cls: "mono_class (classifyVolumeBindings ?reqs) = [grown]" "map_of (existing_volumes ?old) (GetMapKey grown) = Some [(''/data/2'', 80)]"
    "GetDevice [(''/data/2'', 80 :: i64)] = ''/data/2''"
    by code_simp+
  have "\<exists>s. (grown, [(''/data/2'', s)]) \<in> set vp" using GetAffinityPlan_stays [OF run ok] cls by auto
  with run show ?thesis by blast
qed

end
