(* ===== verification/Mono_Props.thy ===== *)
theory Mono_Props
  imports Backing Samples
begin

text \<open>
  How a monopoly plan divides its volume. The share of a binding goes through four \<open>float64\<close>
  operations, each of which is off by at most one part in \<open>2 ^ 53\<close>, and a truncation.
\<close>

section \<open>Rounding\<close>

lemma pow2_pos [simp]: "0 < pow2 k"
  by (simp add: pow2_def)

lemma pow2_diff: "pow2 (k - int n) = pow2 k / 2 ^ n"
proof (cases "0 \<le> k - int n")
  case True
  then have "nat k = nat (k - int n) + n" by simp
  then show ?thesis using True by (simp add: pow2_def power_add)
next
  case False
  show ?thesis
  proof (cases "0 \<le> k")
    case True
    with False have "n = nat k + nat (- (k - int n))" by simp
    then have "(2 :: rat) ^ n = 2 ^ nat k * 2 ^ nat (- (k - int n))" by (metis power_add)
    then show ?thesis using False True by (simp add: pow2_def)
  next
    case neg: False
    then have "nat (- (k - int n)) = nat (- k) + n" by simp
    then show ?thesis using False neg by (simp add: pow2_def power_add)
  qed
qed

lemma ilog2_le:
  assumes "0 < x"
  shows "pow2 (ilog2 x) \<le> x"
proof -
  obtain p q where pq: "quotient_of x = (p, q)" by fastforce
  have q: "0 < q" using quotient_of_denom_pos [OF pq] .
  have x: "x = of_int p / of_int q" using quotient_of_div [OF pq] .
  have p: "0 < p" using assms q unfolding x by (simp add: zero_less_divide_iff)
  let ?k = "bitlen p - bitlen q"
  have "(2 :: int) ^ nat (bitlen p - 1) \<le> p" "q < 2 ^ nat (bitlen q)"
    using bitlen_bounds [OF p] bitlen_bounds [OF q] by auto
  then have b: "(2 :: rat) ^ nat (bitlen p - 1) \<le> of_int p" "of_int q \<le> (2 :: rat) ^ nat (bitlen q)"
    by (metis of_int_le_iff of_int_power of_int_numeral, metis of_int_le_iff of_int_power of_int_numeral less_imp_le)
  have bl: "0 < bitlen p" "0 < bitlen q" using p q bitlen_eq_zero_iff [of p] bitlen_eq_zero_iff [of q] bitlen_nonneg [of p] bitlen_nonneg [of q] by linarith+
  have "pow2 (?k - 1) = pow2 ((bitlen p - 1) - int (nat (bitlen q)))" using bl by (simp add: algebra_simps)
  also have "\<dots> = 2 ^ nat (bitlen p - 1) / 2 ^ nat (bitlen q)"
    unfolding pow2_diff using bl by (simp add: pow2_def)
  also have "\<dots> \<le> of_int p / of_int q"
    using b p q by (intro frac_le) simp_all
  finally show ?thesis using pq x by (auto simp: ilog2_def Let_def)
qed

lemma round_even_close: "\<bar>of_int (round_even x) - x\<bar> \<le> 1 / 2"
proof -
  have "of_int \<lfloor>x\<rfloor> \<le> x" "x < of_int \<lfloor>x\<rfloor> + 1" by linarith+
  then show ?thesis by (auto simp: round_even_def Let_def abs_le_iff)
qed

lemma f64_pos_close:
  assumes "0 < x"
  shows "\<bar>f64_pos x - x\<bar> \<le> x / 2 ^ 53"
proof -
  let ?e = "pow2 (ilog2 x - 52)"
  have e: "?e * 2 ^ 52 \<le> x"
    using ilog2_le [OF assms] pow2_diff [of "ilog2 x" 52] by simp
  have "f64_pos x - x = (of_int (round_even (x / ?e)) - x / ?e) * ?e"
    using pow2_pos [of "ilog2 x - 52"] by (simp add: f64_pos_def Let_def left_diff_distrib less_imp_neq [THEN not_sym])
  then have "\<bar>f64_pos x - x\<bar> = \<bar>of_int (round_even (x / ?e)) - x / ?e\<bar> * ?e"
    by (simp only: abs_mult abs_of_pos [OF pow2_pos])
  also have "\<dots> \<le> 1 / 2 * ?e"
    using round_even_close [of "x / ?e"] less_imp_le [OF pow2_pos] by (rule mult_right_mono)
  also have "\<dots> \<le> x / 2 ^ 53" using e by (simp add: field_simps)
  finally show ?thesis .
qed

text \<open>The form the error is used in: one operation keeps a nonnegative value within a factor.\<close>

lemma close_bounds:
  fixes x y e :: rat
  assumes "\<bar>y - x\<bar> \<le> x / e"
  shows "y \<le> x * (1 + 1 / e)" "x * (1 - 1 / e) \<le> y"
proof -
  have "x * (1 + 1 / e) = x + x / e" "x * (1 - 1 / e) = x - x / e"
    by (simp_all add: distrib_left right_diff_distrib)
  moreover have "y \<le> x + x / e" "x - x / e \<le> y" using assms by (simp_all add: abs_le_iff algebra_simps)
  ultimately show "y \<le> x * (1 + 1 / e)" "x * (1 - 1 / e) \<le> y" by simp_all
qed

lemma f64_bounds:
  assumes "0 \<le> x"
  shows "f64 x \<le> x * (1 + 1 / 2 ^ 53)" "x * (1 - 1 / 2 ^ 53) \<le> f64 x" "0 \<le> f64 x"
proof -
  have "\<bar>f64 x - x\<bar> \<le> x / 2 ^ 53" using assms f64_pos_close [of x] by (simp add: f64_def)
  note b = close_bounds [OF this]
  show "f64 x \<le> x * (1 + 1 / 2 ^ 53)" "x * (1 - 1 / 2 ^ 53) \<le> f64 x" by (rule b)+
  have "0 \<le> x * (1 - 1 / 2 ^ 53)" using assms by (intro mult_nonneg_nonneg) simp_all
  then show "0 \<le> f64 x" using b(2) by (rule order_trans)
qed

text \<open>The four operations together.\<close>

lemma quotient_product_bounds:
  fixes s t v u :: rat
  defines "u \<equiv> 1 / 2 ^ 53"
  assumes "0 \<le> s" "0 < t" "0 \<le> v"
  shows "f64 (f64 (f64 s / f64 t) * f64 v) \<le> s / t * v * (1 + 1 / 2 ^ 50)"
    "s / t * v * (1 - 1 / 2 ^ 50) \<le> f64 (f64 (f64 s / f64 t) * f64 v)"
    "0 \<le> f64 (f64 (f64 s / f64 t) * f64 v)" "0 < f64 t"
proof -
  have u: "0 < u" "u < 1" by (simp_all add: u_def)
  note S = f64_bounds [OF assms(2), folded u_def] and T = f64_bounds [OF less_imp_le [OF assms(3)], folded u_def]
    and V = f64_bounds [OF assms(4), folded u_def]
  have t1: "0 < t * (1 - u)" "0 < t * (1 + u)" using assms(3) u by simp_all
  show ft: "0 < f64 t" using T(2) t1(1) by linarith
  have q0: "0 \<le> f64 s / f64 t" using S(3) ft by simp
  note Q = f64_bounds [OF q0, folded u_def]
  have p0: "0 \<le> f64 (f64 s / f64 t) * f64 v" using Q(3) V(3) by simp
  note R = f64_bounds [OF p0, folded u_def]
  show "0 \<le> f64 (f64 (f64 s / f64 t) * f64 v)" by (rule R(3))
  have up: "f64 s / f64 t \<le> s * (1 + u) / (t * (1 - u))"
    using S T t1 ft assms(2) u by (intro frac_le) simp_all
  have lo: "s * (1 - u) / (t * (1 + u)) \<le> f64 s / f64 t"
    using S T t1 ft assms(2) u by (intro frac_le) simp_all
  have x: "0 \<le> s / t * v" using assms by simp
  have "f64 (f64 (f64 s / f64 t) * f64 v) \<le> (f64 s / f64 t * (1 + u)) * (v * (1 + u)) * (1 + u)"
    using R(1) Q V u q0 by (elim order_trans) (intro mult_right_mono mult_mono, auto)
  also have "\<dots> \<le> (s * (1 + u) / (t * (1 - u)) * (1 + u)) * (v * (1 + u)) * (1 + u)"
    using up u assms by (intro mult_right_mono) simp_all
  also have "\<dots> = s / t * v * ((1 + u) ^ 4 / (1 - u))" by (simp add: power4_eq_xxxx)
  also have "\<dots> \<le> s / t * v * (1 + 1 / 2 ^ 50)"
    using x by (intro mult_left_mono) (simp_all add: u_def power4_eq_xxxx)
  finally show "f64 (f64 (f64 s / f64 t) * f64 v) \<le> s / t * v * (1 + 1 / 2 ^ 50)" .
  have "s / t * v * (1 - 1 / 2 ^ 50) \<le> s / t * v * ((1 - u) ^ 4 / (1 + u))"
    using x by (intro mult_left_mono) (simp_all add: u_def power4_eq_xxxx)
  also have "\<dots> = (s * (1 - u) / (t * (1 + u)) * (1 - u)) * (v * (1 - u)) * (1 - u)" by (simp add: power4_eq_xxxx)
  also have "\<dots> \<le> (f64 s / f64 t * (1 - u)) * (v * (1 - u)) * (1 - u)"
    using lo u assms by (intro mult_right_mono) simp_all
  also have "\<dots> \<le> f64 (f64 s / f64 t) * f64 v * (1 - u)"
    using Q V u q0 assms(4) by (intro mult_right_mono mult_mono) simp_all
  also have "\<dots> \<le> f64 (f64 (f64 s / f64 t) * f64 v)" by (rule R(2))
  finally show "s / t * v * (1 - 1 / 2 ^ 50) \<le> f64 (f64 (f64 s / f64 t) * f64 v)" .
qed

section \<open>A share\<close>

lemma mono_share_bounds:
  fixes x :: rat
  assumes "0 \<le> s" "s \<le> t" "0 < t" "0 \<le> v" "val v < 2 ^ 62"
  defines "x \<equiv> of_int (val s) / of_int (val t) * of_int (val v)"
  shows "\<bar>of_int (val (mono_share s t v)) - x\<bar> \<le> 1 + x / 2 ^ 50"
proof -
  let ?r = "f64 (f64 (float64 s / float64 t) * float64 v)"
  have st: "(0 :: rat) \<le> of_int (val s)" "(0 :: rat) < of_int (val t)" "(0 :: rat) \<le> of_int (val v)"
    "(of_int (val s) :: rat) \<le> of_int (val t)" "(of_int (val v) :: rat) < 2 ^ 62"
    using assms(1-4) of_int_less_iff [of "val v" "2 ^ 62", where 'a = rat] assms(5) by (simp_all add: i64_le_iff i64_less_iff)
  note b = quotient_product_bounds [OF st(1-3), folded float64_def, folded x_def]
  have x: "0 \<le> x" "x \<le> of_int (val v)"
    using st mult_right_mono [of "of_int (val s) / of_int (val t)" 1 "of_int (val v) :: rat"] by (simp_all add: x_def)
  have "?r \<le> x + x / 2 ^ 50" "x - x / 2 ^ 50 \<le> ?r"
    using b(1,2) by (simp_all add: distrib_left right_diff_distrib)
  then have close: "?r \<le> x + x / 2 ^ 50" "x - x / 2 ^ 50 \<le> ?r" .
  have "x / 2 ^ 50 \<le> 2 ^ 12" using x(2) st(5) by simp
  then have "?r < 2 ^ 63" using close(1) x(2) st(5) by simp
  then have "\<lfloor>?r\<rfloor> < 2 ^ 63" "0 \<le> \<lfloor>?r\<rfloor>" using b(3) by (simp_all add: floor_less_iff)
  then have "val (mono_share s t v) = \<lfloor>?r\<rfloor>"
    using b(3,4) by (simp add: mono_share_def int64_of_def in_range_def val_of_val float64_def)
  then show ?thesis using close by (simp add: abs_le_iff) linarith
qed

section \<open>The plan\<close>

lemma mono_shares_sizes:
  "mono_shares t sz dev reqs rest = (vp, rest') \<Longrightarrow> vp = map (\<lambda>r. (r, [(dev, mono_share (SizeInBytes r) t sz)])) reqs"
  by (induction t sz dev reqs rest arbitrary: vp rest' rule: mono_shares.induct) (auto simp: Let_def split: prod.splits)

lemma getMonoPlan_shares_tl:
  assumes "getMonoPlan reqs v h = (h1, v', Inr (vp, dp))"
  shows "tl vp = map (\<lambda>r. (r, [(vdevice v, mono_share (SizeInBytes r) (SizeInBytes (total_quota reqs)) (vsize v))])) (tl reqs)"
    "vsize v' = 0" "vdevice v' = vdevice v"
proof -
  obtain p rest where sh: "mono_shares (SizeInBytes (total_quota reqs)) (vsize v) (vdevice v) reqs (vsize v) = (p, rest)"
    by fastforce
  note p = mono_shares_sizes [OF sh]
  have "tl vp = tl p" "vsize v' = 0" "vdevice v' = vdevice v"
    using assms sh by (auto simp: getMonoPlan_def Let_def split: if_splits prod.splits bool.splits list.splits option.splits)
  then show "vsize v' = 0" "vdevice v' = vdevice v"
    "tl vp = map (\<lambda>r. (r, [(vdevice v, mono_share (SizeInBytes r) (SizeInBytes (total_quota reqs)) (vsize v))])) (tl reqs)"
    by (simp_all add: p map_tl)
qed

lemma total_size:
  assumes "\<forall>r \<in> set reqs. 0 \<le> SizeInBytes r" "sum_list (map (\<lambda>r. val (SizeInBytes r)) reqs) < 2 ^ 63"
  shows "val (SizeInBytes (total_quota reqs)) = sum_list (map (\<lambda>r. val (SizeInBytes r)) reqs)"
proof -
  have fold: "SizeInBytes (foldl AddQuota s reqs) = SizeInBytes s + sum_list (map SizeInBytes reqs)" for s
    by (induction reqs arbitrary: s) (simp_all add: AddQuota_def add.assoc)
  have "val (sum_list (map SizeInBytes rs)) = sum_list (map (\<lambda>r. val (SizeInBytes r)) rs)"
    if "\<forall>r \<in> set rs. 0 \<le> SizeInBytes r" "sum_list (map (\<lambda>r. val (SizeInBytes r)) rs) < 2 ^ 63" for rs
    using that
  proof (induction rs)
    case (Cons r rs)
    have "0 \<le> sum_list (map (\<lambda>r. val (SizeInBytes r)) rs)" using Cons.prems(1)
      by (intro sum_list_nonneg) (auto simp: i64_le_iff)
    then show ?case using Cons by (auto simp: val_add in_range_def i64_le_iff)
  qed simp
  then show ?thesis using assms fold [of empty_binding] by (simp add: total_quota_def empty_binding_def)
qed

text \<open>
  C18: A monopoly plan takes the whole volume and divides it in proportion. Every binding gets one share,
  the shares add up to the size of the volume and nothing is left of it; each share but the first (which
  takes what rounding leaves over) is the proportional one up to one byte and one part in \<open>2 ^ 50\<close>.
\<close>

theorem getMonoPlan_divides_volume:
  assumes "getMonoPlan reqs v h = (h1, v', Inr (vp, dp))" "\<forall>r \<in> set reqs. 0 \<le> SizeInBytes r"
    and "0 < sum_list (map (\<lambda>r. val (SizeInBytes r)) reqs)" "sum_list (map (\<lambda>r. val (SizeInBytes r)) reqs) < 2 ^ 63"
    and "val (vsize v) < 2 ^ 62"
  shows "map fst vp = reqs \<and> vsize v' = 0 \<and> (\<forall>d. plan_use vp d = (if d = vdevice v then vsize v else 0)) \<and>
    (\<forall>(r, vm) \<in> set (tl vp). \<exists>s. vm = [(vdevice v, s)] \<and>
       (let fair = of_int (val (SizeInBytes r)) / of_int (sum_list (map (\<lambda>r. val (SizeInBytes r)) reqs)) * of_int (val (vsize v)) :: rat
        in \<bar>of_int (val s) - fair\<bar> \<le> 1 + fair / 2 ^ 50))"
proof -
  let ?T = "SizeInBytes (total_quota reqs)"
  note vol = getMonoPlan_volume [OF assms(1)] and tl = getMonoPlan_shares_tl [OF assms(1)]
    and t = total_size [OF assms(2,4)]
  have T: "0 < ?T" using t assms(3) by (simp add: i64_less_iff)
  have v: "0 \<le> vsize v" using T vol(3) by (meson less_imp_le order_trans)
  have share: "\<bar>of_int (val (mono_share (SizeInBytes r) ?T (vsize v))) - x\<bar> \<le> 1 + x / 2 ^ 50"
    if "r \<in> set reqs" "x = of_int (val (SizeInBytes r)) / of_int (val ?T) * of_int (val (vsize v))" for r and x :: rat
  proof -
    have "val (SizeInBytes r) \<le> sum_list (map (\<lambda>r. val (SizeInBytes r)) reqs)"
      using that(1) assms(2) by (intro member_le_sum_list) (auto simp: i64_le_iff)
    then have "SizeInBytes r \<le> ?T" by (simp add: i64_le_iff t)
    then show ?thesis using mono_share_bounds [OF _ _ T v assms(5), of "SizeInBytes r"] that assms(2) by simp
  qed
  have "set (tl reqs) \<subseteq> set reqs" by (cases reqs) auto
  then show ?thesis using vol(1,2) tl(1,2) share by (auto simp: t [symmetric] Let_def)
qed

theorem getMonoPlan_divides_volume_witness:
  "\<exists>h1 v' vp dp. getMonoPlan [sample_mono, sample_mono\<lparr>Destination := ''/m2'', SizeInBytes := 20\<rparr>] (Volume ''/data/1'' 60)
      (newHost sample_info 1) = (h1, v', Inr (vp, dp)) \<and> vsize v' = 0 \<and> plan_use vp ''/data/1'' = 60"
proof -
  let ?reqs = "[sample_mono, sample_mono\<lparr>Destination := ''/m2'', SizeInBytes := 20\<rparr>]"
  let ?run = "getMonoPlan ?reqs (Volume ''/data/1'' 60) (newHost sample_info 1)"
  have "case snd (snd ?run) of Inr _ \<Rightarrow> True | Inl _ \<Rightarrow> False" by code_simp
  then obtain h1 v' vp dp where run: "?run = (h1, v', Inr (vp, dp))"
    by (cases ?run) (auto split: sum.splits)
  have "\<forall>r \<in> set ?reqs. 0 \<le> SizeInBytes r" "0 < sum_list (map (\<lambda>r. val (SizeInBytes r)) ?reqs)"
    "sum_list (map (\<lambda>r. val (SizeInBytes r)) ?reqs) < 2 ^ 63" "val (vsize (Volume ''/data/1'' 60)) < 2 ^ 62"
    by (simp_all add: sample_defs)
  from getMonoPlan_divides_volume [OF run this] show ?thesis using run by auto
qed

text \<open>
  The byte matters: on a volume that has exactly the size asked for, a binding of 15 GiB beside one of
  7 GiB gets one byte less than it asks for when it is not the first.
\<close>

lemma mono_share_below_request: "mono_share (15 * 2 ^ 30) (22 * 2 ^ 30) (22 * 2 ^ 30) = 15 * 2 ^ 30 - 1"
  by code_simp

end
