(* ===== verification/Capacity_Reached.thy ===== *)
theory Capacity_Reached
  imports No_Panic
begin

text \<open>
  Asked for no more than the capacity it reports, a node delivers. \<open>GetVolumeCapacity\<close> counts with the
  configured bound, a deploy plans with the count asked for; the two runs promote volumes at different
  times, yet the second comes out at the count asked for.
\<close>

section \<open>A host asked for another count\<close>

text \<open>Nothing but the bounds depends on the count a host was made with.\<close>

definition ask :: "int \<Rightarrow> host \<Rightarrow> host" where
  "ask n h = h\<lparr>maxDeployCount := n\<rparr>"

lemma ask_fields [simp]: "maxDeployCount (ask n h) = n" "usedVolumes (ask n h) = usedVolumes h"
  "unusedVolumes (ask n h) = unusedVolumes h" "hdisks (ask n h) = hdisks h" "diskByPath (ask n h) = diskByPath h"
  by (simp_all add: ask_def)

lemma ask_updates: "(ask n h)\<lparr>usedVolumes := vs\<rparr> = ask n (h\<lparr>usedVolumes := vs\<rparr>)"
  "(ask n h)\<lparr>unusedVolumes := vs\<rparr> = ask n (h\<lparr>unusedVolumes := vs\<rparr>)"
  "(ask n h)\<lparr>hdisks := ds\<rparr> = ask n (h\<lparr>hdisks := ds\<rparr>)"
  "(ask n h)\<lparr>diskByPath := c\<rparr> = ask n (h\<lparr>diskByPath := c\<rparr>)"
  by (simp_all add: ask_def)

lemma ask_commutes: "clone (ask n h) = ask n (clone h)" "update_disk i f (ask n h) = ask n (update_disk i f h)"
  "open_volume p (ask n h) = ask n (open_volume p h)" "disk_at (ask n h) disk = disk_at h disk"
  "capacity_step (ask n h) q r = capacity_step h q r" "charge_step c q (ask n h) = ask n (charge_step c q h)"
  by (simp_all add: clone_def update_disk_def open_volume_def disk_at_def capacity_step_def charge_step_def ask_def
      fun_eq_iff split: option.splits)

lemma getDiskByPath_ask: "getDiskByPath (ask n h) path = apsnd (ask n) (getDiskByPath h path)"
  by (simp add: getDiskByPath_def ask_updates Let_def split: option.split)

lemma pop_fit_ask: "pop_fit req vh toPush (ask n h) = apfst (ask n) (pop_fit req vh toPush h)"
proof (induction req vh toPush h rule: pop_fit.induct)
  case (1 req vh toPush h)
  show ?case
  proof (cases "vh = []")
    case False
    obtain v vh1 where v: "heap_Pop vh = (v, vh1)" by fastforce
    obtain disk h1 where d: "getDiskByPath h (vdevice v) = (disk, h1)" by fastforce
    from "1.IH" [OF False v [symmetric] refl d [symmetric] refl] show ?thesis
      by (simp add: pop_fit.simps [of req vh] False v d getDiskByPath_ask ask_commutes)
  qed (simp add: pop_fit.simps)
qed

lemma alloc_normal_ask: "alloc_normal req vh dp (ask n h) = apfst (ask n) (alloc_normal req vh dp h)"
  by (auto simp: alloc_normal_def pop_fit_ask ask_commutes Let_def split: prod.split option.split)

lemma normal_reqs_ask: "normal_reqs reqs vh vp dp (ask n h) = apfst (ask n) (normal_reqs reqs vh vp dp h)"
proof (induction reqs arbitrary: vh vp dp h)
  case (Cons req reqs)
  then show ?case by (auto simp: alloc_normal_ask split: prod.split sum.split)
qed simp

lemma getNormalPlan_ask: "getNormalPlan reqs (ask n h) = apfst (ask n) (getNormalPlan reqs h)"
  by (auto simp: getNormalPlan_def normal_reqs_ask ask_updates split: prod.split)

lemma mount_disk_loop_ask: "mount_disk_loop reqs dp (ask n h) = apfst (ask n) (mount_disk_loop reqs dp h)"
proof (induction reqs dp h rule: mount_disk_loop.induct)
  case (2 req reqs dp h)
  show ?case
  proof (cases "RequireIOPS req")
    case True
    obtain disk h1 where d: "getDiskByPath h (Source req) = (disk, h1)" by fastforce
    show ?thesis
    proof (cases "isDiskIOPSQuotaQualified (disk_at h1 disk) req")
      case q: True
      with True obtain i where i: "disk = Some i" by (cases disk) (auto simp: disk_at_def)
      from "2.IH"(2) [OF _ d [symmetric] refl _ i refl] show ?thesis
        using True q by (simp add: d i getDiskByPath_ask ask_commutes Let_def)
    qed (simp add: True d getDiskByPath_ask ask_commutes)
  qed (use 2 in simp)
qed simp

lemma getMountDiskPlan_ask: "getMountDiskPlan reqs (ask n h) = apfst (ask n) (getMountDiskPlan reqs h)"
  by (simp add: getMountDiskPlan_def mount_disk_loop_ask)

lemma mount_quotas_ask: "mount_quotas reqs quotas (ask n h) = apfst (ask n) (mount_quotas reqs quotas h)"
proof (induction reqs quotas h rule: mount_quotas.induct)
  case (2 req reqs quotas h)
  then show ?case by (auto simp: getDiskByPath_ask Let_def split: prod.split)
qed simp

lemma charge_steps_ask: "fold (charge_step c) quotas (ask n h) = ask n (fold (charge_step c) quotas h)"
  by (induction quotas arbitrary: h) (simp_all add: ask_commutes)

lemma applyMountPasses_ask: "applyMountPasses reqs bound (ask n h) = apfst (ask n) (applyMountPasses reqs bound h)"
proof -
  have "fold (capacity_step (ask n h)) qs r = fold (capacity_step h) qs r" for h qs r
    by (induction qs arbitrary: r) (simp_all add: ask_commutes)
  then show ?thesis
    by (auto simp: applyMountPasses_def getMountDiskPlan_ask mount_quotas_ask charge_steps_ask Let_def
        split: prod.split sum.split)
qed

lemma normal_count_ask: "normal_count n m bound c (ask k h) = apfst (ask k) (normal_count n m bound c h)"
proof (induction n m bound c h rule: normal_count.induct)
  case (1 n m bound c h)
  show ?case
  proof (cases "c < bound")
    case True
    obtain h1 r where r: "getNormalPlan n h = (h1, r)" by fastforce
    obtain h2 r2 where r2: "getMountDiskPlan m h1 = (h2, r2)" by fastforce
    from "1.IH" [OF True refl r [symmetric] _ refl r2 [symmetric]] True r r2 show ?thesis
      by (cases r; cases r2) (simp_all add: normal_count.simps [of n m bound c] getNormalPlan_ask getMountDiskPlan_ask)
  qed (simp add: normal_count.simps)
qed

lemma countNormalPlans_ask:
  "n \<noteq> [] \<or> anyRequireIOPS m \<Longrightarrow> countNormalPlans n m bound (ask k h) = apfst (ask k) (countNormalPlans n m bound h)"
  by (auto simp: countNormalPlans_def applyMountPasses_ask normal_count_ask split: prod.split)

section \<open>A smaller bound on the normal plans\<close>

lemma normal_count_ge: "c \<le> snd (normal_count n m b c h)"
proof (induction n m b c h rule: normal_count.induct)
  case (1 n m b c h)
  obtain h1 r where r: "getNormalPlan n h = (h1, r)" by fastforce
  obtain h2 r2 where r2: "getMountDiskPlan m h1 = (h2, r2)" by fastforce
  show ?case
  proof (cases "c < b")
    case True
    show ?thesis
    proof (cases "(\<exists>x. r = Inr x) \<and> (\<exists>y. r2 = Inr y)")
      case go: True
      then have "c + 1 \<le> snd (normal_count n m b (c + 1) h2)"
        using "1.IH" [OF True refl r [symmetric] _ refl r2 [symmetric]] by blast
      then show ?thesis using go True r r2 by (auto simp: normal_count.simps [of n m b c])
    next
      case False
      then show ?thesis using r r2 by (cases r; cases r2) (simp_all add: normal_count.simps [of n m b c])
    qed
  qed (simp add: normal_count.simps)
qed

lemma normal_count_bound:
  "c \<le> b' \<Longrightarrow> b' \<le> b \<Longrightarrow> snd (normal_count n m b' c h) = min b' (snd (normal_count n m b c h))"
proof (induction n m b c h rule: normal_count.induct)
  case (1 n m b c h)
  obtain h1 r where r: "getNormalPlan n h = (h1, r)" by fastforce
  obtain h2 r2 where r2: "getMountDiskPlan m h1 = (h2, r2)" by fastforce
  show ?case
  proof (cases "c < b \<and> (\<exists>x. r = Inr x) \<and> (\<exists>y. r2 = Inr y)")
    case True
    then obtain x y where xy: "c < b" "r = Inr x" "r2 = Inr y" by blast
    have step: "normal_count n m b c h = normal_count n m b (c + 1) h2"
      "c < b' \<Longrightarrow> normal_count n m b' c h = normal_count n m b' (c + 1) h2"
      using xy r r2 by (simp_all add: normal_count.simps [of n m _ c])
    note IH = "1.IH" [OF xy(1) refl r [symmetric] xy(2) refl r2 [symmetric] xy(3)]
    show ?thesis
    proof (cases "c < b'")
      case True
      then show ?thesis using IH step "1.prems" by simp
    next
      case False
      then have c: "c = b'" using "1.prems"(1) by simp
      have "c + 1 \<le> snd (normal_count n m b (c + 1) h2)" 
        by (rule normal_count_ge)
      then show ?thesis by (simp add: c step(1) [unfolded c] normal_count.simps [of n m b' b'])
    qed
  next
    case False
    have "snd (normal_count n m b c h) = c"
      using False r r2 by (cases r; cases r2) (simp_all add: normal_count.simps [of n m b c])
    moreover have "snd (normal_count n m b' c h) = c"
      using False r r2 "1.prems" by (cases r; cases r2) (simp_all add: normal_count.simps [of n m b' c])
    ultimately show ?thesis using "1.prems" by simp
  qed
qed

lemma capacity_fold_bound:
  "fold (capacity_step h) quotas (Inr b) = Inr c \<Longrightarrow> fold (capacity_step h) quotas (Inr (min b' b)) = Inr (min b' c)"
proof (induction quotas arbitrary: b)
  case (Cons q quotas)
  have err: "fold (capacity_step h) qs (Inl e) = Inl e" for qs e
    by (induction qs) (simp_all add: capacity_step_def)
  obtain d where d: "disk_at h (fst q) = Some d"
    using Cons.prems err [of quotas ErrPanic]
    by (cases "disk_at h (fst q)") (auto simp: capacity_step_def [of h q "Inr b"])
  let ?x = "val (1 + quotaHeadroom d (snd q))"
  have "fold (capacity_step h) quotas (Inr (min b ?x)) = Inr c" using Cons.prems by (simp add: capacity_step_def [of h q "Inr b"] d)
  from Cons.IH [OF this] show ?case by (simp add: capacity_step_def [of h q "Inr (min b' b)"] d min.assoc)
qed simp

text \<open>A plan fewer is asked for, so at most that many fewer come out.\<close>

lemma countNormalPlans_lower:
  assumes "countNormalPlans n m b h = (h1, Inr N)" "countNormalPlans n m b' (ask k h) = (h2, Inr N')" "0 \<le> N"
    and "b' \<le> b" "k \<le> b'" "0 \<le> k" "k \<le> maxDeployCount h"
  shows "N' \<le> N \<and> min k N \<le> N'"
proof -
  consider (none) "n = []" "\<not> anyRequireIOPS m" | (mounts) "n = []" "anyRequireIOPS m" | (normal) "n \<noteq> []" by blast
  then show ?thesis
  proof cases
    case none
    then show ?thesis using assms by (auto simp: countNormalPlans_def)
  next
    case normal
    have "N = snd (normal_count n m b 0 h)" using assms(1) normal by (auto simp: countNormalPlans_def split: prod.splits)
    moreover have "N' = snd (normal_count n m b' 0 h)"
      using assms(2) normal by (cases "normal_count n m b' 0 h") (auto simp: countNormalPlans_def normal_count_ask)
    ultimately have "N' = min b' N" using normal_count_bound [of 0 b' b n m h] assms(4-6) by simp
    then show ?thesis using assms(5) by auto
  next
    case mounts
    obtain p where a: "applyMountPasses m b h = (h1, Inr (N, p))"
      using assms(1) mounts by (auto simp: countNormalPlans_def bind_res_Inr_iff split: prod.splits)
    obtain g p' where a': "applyMountPasses m b' h = (g, Inr (N', p'))"
      using assms(2) mounts
      by (cases "applyMountPasses m b' h") (auto simp: countNormalPlans_def bind_res_Inr_iff applyMountPasses_ask)
    obtain h3 r where m: "getMountDiskPlan m h = (h3, r)" by fastforce
    obtain h4 qs where q: "mount_quotas m [] h3 = (h4, qs)" by fastforce
    show ?thesis
    proof (cases "isl r \<or> b' < 1")
      case True
      then have "N' = 0 \<and> (isl r \<longrightarrow> N = 0)"
        using a a' m by (auto simp: applyMountPasses_def isl_def split: sum.splits)
      then show ?thesis using assms(3,5,6) True by auto
    next
      case False
      then obtain x where r: "r = Inr x" "\<not> b' < 1" "\<not> b < 1" using assms(4) by (cases r) auto
      have "fold (capacity_step h4) qs (Inr b) = Inr N" "fold (capacity_step h4) qs (Inr b') = Inr N'"
        using a a' by (auto simp: applyMountPasses_def m q r Let_def split: sum.splits)
      then have "N' = min b' N" using capacity_fold_bound [of h4 qs b N b'] assms(4) by simp
      then show ?thesis using assms(5) by auto
    qed
  qed
qed

section \<open>The volumes a monopoly plan fits on\<close>

lemma mono_success_cong:
  assumes "cache_ok h" "cache_ok g" "hdisks g = hdisks h" "wf_disks (hdisks h)" "ValidIOParameters (total_quota reqs)"
  shows "mono_success reqs vs g = mono_success reqs vs h"
  using assms(1-4)
proof (induction vs arbitrary: g h)
  case (Cons v vs)
  obtain h1 v1 r where r: "getMonoPlan reqs v h = (h1, v1, r)" by (metis prod_cases3)
  obtain g1 w1 s where s: "getMonoPlan reqs v g = (g1, w1, s)" by (metis prod_cases3)
  obtain disk h2 where dh: "getDiskByPath h (vdevice v) = (disk, h2)" by fastforce
  obtain disk' g2 where dg: "getDiskByPath g (vdevice v) = (disk', g2)" by fastforce
  note fh = getDiskByPath_fields [OF dh] and fg = getDiskByPath_fields [OF dg]
  have disk: "disk' = disk" "hdisks g2 = hdisks h2" "disk_at g2 disk = disk_at h2 disk"
    using fh(4,6) fg(4,6) Cons.prems by (simp_all add: disk_at_def)
  have "s = r \<and> hdisks g1 = hdisks h1"
    using r s fh(4) fg(4) disk(2) Cons.prems(3) unfolding getMonoPlan_def dh dg disk(1)
    by (auto simp: disk(1,3) Let_def split: if_splits prod.splits bool.splits list.splits option.splits)
  moreover have "cache_ok h1" "cache_ok g1" "wf_disks (hdisks h1)"
    using getMonoPlan_disks [OF r Cons.prems(1,4) assms(5)] getMonoPlan_disks [OF s Cons.prems(2) _ assms(5)] Cons.prems paid_wf
    by (auto simp: frame_def)
  ultimately show ?case using Cons.IH [of h1 g1] r s by simp
qed simp

definition mono_fits :: "VolumeBindings \<Rightarrow> Disks \<Rightarrow> volume \<Rightarrow> bool" where
  "mono_fits reqs ds v \<longleftrightarrow> SizeInBytes (total_quota reqs) \<le> vsize v \<and>
     isDiskIOPSQuotaQualified (map_option ((!) ds) (GetDiskByPath ds (vdevice v))) (total_quota reqs)"

lemma mono_success_plain:
  assumes "cache_ok h" "\<not> RequireIOPS (total_quota reqs)" "reqs \<noteq> []"
  shows "mono_success reqs vs h = length (filter (mono_fits reqs (hdisks h)) vs)"
  using assms(1)
proof (induction vs arbitrary: h)
  case (Cons v vs)
  obtain h1 v1 r where r: "getMonoPlan reqs v h = (h1, v1, r)" by (metis prod_cases3)
  obtain disk h2 where d: "getDiskByPath h (vdevice v) = (disk, h2)" by fastforce
  note dd = getDiskByPath_fields [OF d]
  obtain p rest where sh: "mono_shares (SizeInBytes (total_quota reqs)) (vsize v) (vdevice v) reqs (vsize v) = (p, rest)"
    by fastforce
  have p: "p \<noteq> []" using mono_shares_nonempty [OF assms(3)] sh by (metis fst_conv)
  have at: "disk_at h2 disk = map_option ((!) (hdisks h)) (GetDiskByPath (hdisks h) (vdevice v))"
    using dd(4,6) Cons.prems by (simp add: disk_at_def)
  have "(h1 = h \<or> h1 = h2) \<and> ((\<exists>x. r = Inr x) \<longleftrightarrow> mono_fits reqs (hdisks h) v)"
    using r p assms(2) unfolding getMonoPlan_def mono_fits_def at [symmetric]
    by (auto simp: d sh Let_def split: if_splits list.splits bool.splits)
  then show ?case using Cons.IH [of h1] Cons.prems dd(4,5) r by (cases r) auto
qed simp

text \<open>Which quotas are negative does not change when a plan is paid for.\<close>

lemma spend_sign: "spend a V b \<Longrightarrow> 0 \<le> b k \<longleftrightarrow> 0 \<le> a k"
  unfolding spend_def by (smt (verit) i64_le_iff val_0)

lemma mono_fits_plain:
  assumes "\<not> RequireIOPS (total_quota reqs)" "ValidIOParameters (total_quota reqs)" "wf_disks ds"
  shows "mono_fits reqs ds v \<longleftrightarrow> SizeInBytes (total_quota reqs) \<le> vsize v \<and>
    (\<forall>i k. GetDiskByPath ds (vdevice v) = Some i \<longrightarrow> 0 \<le> disks_amount ds (Device (ds ! i), k))"
proof (cases "GetDiskByPath ds (vdevice v)")
  case (Some i)
  then have "ds ! i \<in> set ds" using GetDiskByPath_bound by (metis nth_mem)
  moreover have "bquota (total_quota reqs) k = 0" for k
    using assms(1,2) by (auto simp: RequireIOPS_iff ValidIO_iff order.order_iff_strict)
  ultimately show ?thesis using Some assms(3) by (simp add: mono_fits_def qualified_iff disks_amount_member)
qed (use assms(1) in \<open>simp add: mono_fits_def isDiskIOPSQuotaQualified_def\<close>)

lemma mono_fits_signs:
  assumes "\<not> RequireIOPS (total_quota reqs)" "ValidIOParameters (total_quota reqs)" "wf_disks (hdisks h)"
    and "layout g = layout h" "\<And>dk. 0 \<le> disks_amount (hdisks g) dk \<longleftrightarrow> 0 \<le> disks_amount (hdisks h) dk"
  shows "mono_fits reqs (hdisks g) v \<longleftrightarrow> mono_fits reqs (hdisks h) v"
proof -
  note lay = layout_eqD [OF assms(4)]
  have "wf_disks (hdisks g)" using assms(3) lay(2) by (simp add: wf_disks_def)
  moreover have "Device (hdisks g ! i) = Device (hdisks h ! i)" if "GetDiskByPath (hdisks h) (vdevice v) = Some i" for i
    using GetDiskByPath_bound [OF that] lay(2,3) by (metis nth_map)
  ultimately show ?thesis
    using mono_fits_plain [OF assms(1,2)] assms(3,5) layout_path [OF assms(4)] by auto
qed

section \<open>Requests without quotas leave the disks alone\<close>

lemma normal_reqs_free:
  "normal_reqs reqs vh vp dp h = (h', vh', r) \<Longrightarrow> is_heap vh \<Longrightarrow> \<not> anyRequireIOPS reqs \<Longrightarrow> hdisks h' = hdisks h"
proof (induction reqs arbitrary: vh vp dp h)
  case (Cons req reqs)
  have free: "\<not> RequireIOPS req" "\<not> anyRequireIOPS reqs" using Cons.prems(3) by (simp_all add: anyRequireIOPS_def)
  obtain h1 vh1 r1 where a: "alloc_normal req vh dp h = (h1, vh1, r1)" by (metis prod_cases3)
  obtain h2 vh2 toPush found where fit: "pop_fit req vh [] h = (h2, vh2, toPush, found)" by (metis prod_cases4)
  have h1: "hdisks h1 = hdisks h" "is_heap vh1"
    using a pop_fit_frame(2) [OF fit Cons.prems(2)] alloc_normal_frame [OF a Cons.prems(2)] free(1)
    by (auto simp: alloc_normal_def fit Let_def split: option.splits)
  show ?case
  proof (cases r1)
    case (Inr x)
    then obtain vm dp1 where "normal_reqs reqs vh1 (vp @ [(req, vm)]) dp1 h1 = (h', vh', r)"
      using Cons.prems(1) a by (cases x) auto
    from Cons.IH [OF this h1(2) free(2)] h1(1) show ?thesis by simp
  qed (use Cons.prems(1) a h1 in simp)
qed simp

lemma getNormalPlan_free: "getNormalPlan n h = (h1, r) \<Longrightarrow> \<not> anyRequireIOPS n \<Longrightarrow> hdisks h1 = hdisks h"
  using normal_reqs_free [OF _ heap_Init_spec(1)] by (auto simp: getNormalPlan_def split: prod.splits)

lemma getMountDiskPlan_free: "\<not> anyRequireIOPS m \<Longrightarrow> getMountDiskPlan m h = (h, Inr [])"
proof -
  have "\<not> anyRequireIOPS m \<Longrightarrow> mount_disk_loop m dp h = (h, Inr dp)" for dp
    by (induction m) (simp_all add: anyRequireIOPS_def)
  then show "\<not> anyRequireIOPS m \<Longrightarrow> getMountDiskPlan m h = (h, Inr [])" by (simp add: getMountDiskPlan_def)
qed

lemma normal_count_free:
  "\<not> anyRequireIOPS n \<Longrightarrow> \<not> anyRequireIOPS m \<Longrightarrow> hdisks (fst (normal_count n m b c h)) = hdisks h"
proof (induction n m b c h rule: normal_count.induct)
  case (1 n m b c h)
  obtain h1 r where r: "getNormalPlan n h = (h1, r)" by fastforce
  have m: "getMountDiskPlan m h1 = (h1, Inr [])" by (rule getMountDiskPlan_free [OF "1.prems"(2)])
  have h1: "hdisks h1 = hdisks h" by (rule getNormalPlan_free [OF r "1.prems"(1)])
  show ?case
  proof (cases "c < b \<and> (\<exists>x. r = Inr x)")
    case True
    then obtain x where x: "c < b" "r = Inr x" by blast
    have "hdisks (fst (normal_count n m b (c + 1) h1)) = hdisks h1"
      using "1.IH" [OF x(1) refl r [symmetric] x(2) refl m [symmetric] refl] "1.prems" by blast
    then show ?thesis using x r m h1 by (simp add: normal_count.simps [of n m b c])
  next
    case False
    then show ?thesis using r h1 by (cases r) (auto simp: normal_count.simps [of n m b c])
  qed
qed

section \<open>One evaluation of each run\<close>

lemma scratch_facts:
  assumes "sched_ok g" "valid_reqs ns" "valid_reqs ms" "b \<le> MaxInt" "0 \<le> maxDeployCount g"
  obtains sc N where "countNormalPlans ns ms b (clone g) = (sc, Inr N)" "0 \<le> N" "maxDeployCount sc = maxDeployCount g"
    "unusedVolumes sc = unusedVolumes g" "cache_ok sc" "layout sc = layout (clone g)" "wf_disks (hdisks sc)"
    "\<And>dk. 0 \<le> disks_amount (hdisks sc) dk \<longleftrightarrow> 0 \<le> disks_amount (hdisks (clone g)) dk"
proof -
  have ok: "host_ok (clone g)" by (rule host_ok_clone [OF assms(1)])
  then have "cache_ok (clone g)" by (simp add: host_ok_def)
  then obtain sc vps dps where r: "getNormalPlans ns ms b (clone g) = (sc, Inr (vps, dps))"
    using getNormalPlans_total [OF assms(3) _ assms(4)] assms(5) by (metis clone_unchanged(1))
  note fr = getNormalPlans_frame [OF r]
  have "host_ok sc" by (rule host_ok_frame [OF fr ok])
  moreover obtain Q where "spend (disks_amount (hdisks (clone g))) Q (disks_amount (hdisks sc))"
    using getNormalPlans_backed [OF r ok assms(2,3,4)] unfolding backed_def by blast
  note spend_sign [OF this]
  ultimately show ?thesis
    using that [OF getNormalPlans_count(1) [OF r]] fr by (simp add: frame_def host_ok_def)
qed

lemma total_free:
  assumes "\<not> anyRequireIOPS reqs" "valid_reqs reqs"
  shows "\<not> RequireIOPS (total_quota reqs)"
proof -
  have "bquota r k = 0" if "r \<in> set reqs" for r k
    using assms that by (auto simp: anyRequireIOPS_def list_ex_iff RequireIOPS_iff valid_reqs_def ValidIO_iff order.order_iff_strict)
  then have "map (\<lambda>r. bquota r k) reqs = map (\<lambda>_. 0) reqs" for k by simp
  then have "bquota (total_quota reqs) k = 0" for k unfolding total_quota_simps by (metis sum_list_0)
  then show ?thesis by (simp add: RequireIOPS_iff)
qed

text \<open>The bounds of the two runs differ only where the quotas of the classes do not meet.\<close>

definition uncoupled :: "requestClasses \<Rightarrow> bool" where
  "uncoupled classes \<longleftrightarrow> \<not> anyRequireIOPS (mono_class classes) \<or>
     \<not> anyRequireIOPS (normal_class classes) \<and> \<not> anyRequireIOPS (mount_class classes)"

lemma same_success:
  assumes "countNormalPlans ns ms b (clone h) = (sc, Inr N)" "countNormalPlans ns ms b' (clone (ask k h)) = (sc', Inr N')"
    and "cache_ok sc" "cache_ok sc'" "wf_disks (hdisks sc)" "layout sc' = layout sc"
    and "\<And>dk. 0 \<le> disks_amount (hdisks sc') dk \<longleftrightarrow> 0 \<le> disks_amount (hdisks sc) dk"
    and "reqs \<noteq> []" "valid_reqs reqs" "mono_ok reqs"
    and "b' = b \<or> \<not> anyRequireIOPS reqs \<or> \<not> anyRequireIOPS ns \<and> \<not> anyRequireIOPS ms"
  shows "mono_success reqs vs sc' = mono_success reqs vs sc"
proof (cases "anyRequireIOPS reqs")
  case False
  note free = total_free [OF this assms(9)]
  have "ValidIOParameters (total_quota reqs)" using assms(10) by (simp add: mono_ok_def)
  then have "mono_fits reqs (hdisks sc') = mono_fits reqs (hdisks sc)"
    by (intro ext mono_fits_signs [OF free _ assms(5-7)])
  then show ?thesis
    unfolding mono_success_plain [OF assms(3) free assms(8)] mono_success_plain [OF assms(4) free assms(8)] by simp
next
  case True
  have "hdisks sc' = hdisks sc"
  proof (cases "ns = [] \<and> \<not> anyRequireIOPS ms")
    case True
    then show ?thesis using assms(1,2) by (auto simp: countNormalPlans_def ask_commutes)
  next
    case some: False
    then have "countNormalPlans ns ms b' (clone (ask k h)) = apfst (ask k) (countNormalPlans ns ms b' (clone h))"
      unfolding ask_commutes by (intro countNormalPlans_ask) auto
    then obtain g where g: "countNormalPlans ns ms b' (clone h) = (g, Inr N')" "sc' = ask k g"
      using assms(2) by (cases "countNormalPlans ns ms b' (clone h)") auto
    show ?thesis
    proof (cases "b' = b")
      case True
      then show ?thesis using g assms(1) by simp
    next
      case False
      then have free: "\<not> anyRequireIOPS ns" "\<not> anyRequireIOPS ms" "ns \<noteq> []" using assms(11) True some by auto
      have "hdisks g = hdisks (clone h)" "hdisks sc = hdisks (clone h)"
        using g(1) assms(1) normal_count_free [OF free(1,2), of b' 0 "clone h"] normal_count_free [OF free(1,2), of b 0 "clone h"]
        by (auto simp: countNormalPlans_def free(3) split: prod.splits)
      then show ?thesis by (simp add: g(2))
    qed
  qed
  then show ?thesis using assms(3-5,10) by (intro mono_success_cong) (simp_all add: mono_ok_def)
qed

text \<open>
  What the run with the smaller count has, compared with the other one on the same volumes: no more
  normal plans, and as many of both kinds as far as that count goes.
\<close>

definition lower :: "int \<Rightarrow> int \<times> int \<times> 'b \<Rightarrow> int \<times> int \<times> 'c \<Rightarrow> bool" where
  "lower n r s \<longleftrightarrow> fst s \<le> fst r \<and> min n (fst r) \<le> fst s \<and> min n (fst (snd r)) \<le> fst (snd s)"

lemma evaluate_counts_lower:
  assumes ok: "sched_ok h" and req: "valid_reqs (normal_class classes)" "valid_reqs (mount_class classes)"
      "valid_reqs (mono_class classes)" "mono_ok (mono_class classes)"
    and b: "b \<le> MaxInt" "b' \<le> b" "k \<le> b'" "0 \<le> k" "k \<le> maxDeployCount h" "b' = b \<or> mono_class classes = [] \<or> uncoupled classes"
    and ev: "evaluate_counts classes b h = Inr r" "evaluate_counts classes b' (ask k h) = Inr s"
  shows "lower k r s"
proof -
  let ?ns = "normal_class classes" and ?ms = "mount_class classes" and ?mono = "mono_class classes"
  have ok': "sched_ok (ask k h)" using ok by (simp add: sched_ok_def)
  have D: "0 \<le> maxDeployCount h" "0 \<le> maxDeployCount (ask k h)" "b' \<le> MaxInt" using b by simp_all
  obtain sc N where sc: "countNormalPlans ?ns ?ms b (clone h) = (sc, Inr N)" "0 \<le> N" "maxDeployCount sc = maxDeployCount h"
    "unusedVolumes sc = unusedVolumes h" "cache_ok sc" "layout sc = layout (clone h)" "wf_disks (hdisks sc)"
    "\<And>dk. 0 \<le> disks_amount (hdisks sc) dk \<longleftrightarrow> 0 \<le> disks_amount (hdisks (clone h)) dk"
    by (rule scratch_facts [OF ok req(1,2) b(1) D(1)]) blast
  obtain sc' N' where sc': "countNormalPlans ?ns ?ms b' (clone (ask k h)) = (sc', Inr N')" "0 \<le> N'" "maxDeployCount sc' = k"
    "unusedVolumes sc' = unusedVolumes h" "cache_ok sc'" "layout sc' = layout (clone (ask k h))"
    "\<And>dk. 0 \<le> disks_amount (hdisks sc') dk \<longleftrightarrow> 0 \<le> disks_amount (hdisks (clone (ask k h))) dk"
    by (rule scratch_facts [OF ok' req(1,2) D(3,2)]) simp
  have lay: "layout sc' = layout sc" "\<And>dk. 0 \<le> disks_amount (hdisks sc') dk \<longleftrightarrow> 0 \<le> disks_amount (hdisks sc) dk"
    using sc(6,8) sc'(6,7) by (simp_all add: ask_commutes layout_def)
  have N: "N' \<le> N" "min k N \<le> N'"
    using countNormalPlans_lower [OF sc(1) sc'(1) [unfolded ask_commutes] sc(2) b(2-4)] b(5) by simp_all
  have r: "r = (N, countMonoPlans ?mono (max (maxDeployCount h) (N + 1)) sc, ())"
    and s: "s = (N', countMonoPlans ?mono (max k (N' + 1)) sc', ())"
    using ev sc(1) sc'(1) by (auto simp: evaluate_counts_def)
  show ?thesis
  proof (cases "?mono = []")
    case True
    then show ?thesis using N sc(3) sc'(3) by (simp add: lower_def r s countMonoPlans_def)
  next
    case False
    have "b' = b \<or> \<not> anyRequireIOPS ?mono \<or> \<not> anyRequireIOPS ?ns \<and> \<not> anyRequireIOPS ?ms"
      using b(6) False by (auto simp: uncoupled_def)
    note same = same_success [OF sc(1) sc'(1) sc(5) sc'(5) sc(7) lay False req(3,4) this, of "unusedVolumes h"]
    have "0 \<le> max (maxDeployCount h) (N + 1)" "0 \<le> max k (N' + 1)" using D(1) b(4) by auto
    then show ?thesis
      using N False sc(4) sc'(4) same by (auto simp: lower_def r s countMonoPlans_def mono_count_eq)
  qed
qed

section \<open>The two promotions\<close>

lemma promote_loop_lower:
  assumes "promote_loop evA minSize h r = Inr (h', r')" "promote_loop evB minSize (ask n h) s = Inr (g', s')"
    and "lower n r s" "Q h" "n \<le> maxDeployCount h"
    and reached: "n \<le> fst r'" "n \<le> fst (snd r')"
    and keep: "\<And>h p. Q h \<Longrightarrow> p < length (unusedVolumes h) \<Longrightarrow> Q (open_volume p h)"
    and ev: "\<And>h r s. Q h \<Longrightarrow> n \<le> maxDeployCount h \<Longrightarrow> evA h = Inr r \<Longrightarrow> evB (ask n h) = Inr s \<Longrightarrow> lower n r s"
  shows "n \<le> fst s' \<and> n \<le> fst (snd s')"
  using assms(1-5)
proof (induction "length (unusedVolumes h)" arbitrary: h r s rule: less_induct)
  case less
  obtain N Mo b where r: "r = (N, Mo, b)" by (metis prod_cases3)
  obtain N' Mo' b' where s: "s = (N', Mo', b')" by (metis prod_cases3)
  have low: "N' \<le> N" "min n N \<le> N'" "min n Mo \<le> Mo'" using less.prems(3) by (simp_all add: lower_def r s)
  let ?p = "BinarySearch (\<lambda>v. vsize v < minSize) (unusedVolumes h)"
  let ?goA = "N < Mo \<and> N < maxDeployCount h \<and> ?p < length (unusedVolumes h)"
    and ?goB = "N' < Mo' \<and> N' < n \<and> ?p < length (unusedVolumes h)"
  have stopB: "s' = s" if "\<not> ?goB"
    using less.prems(2) that by (auto simp: s promote_loop_stop not_less)
  show ?case
  proof (cases ?goA)
    case False
    then have "r' = r" using less.prems(1) by (auto simp: r promote_loop_stop not_less)
    with reached have "n \<le> N" "n \<le> Mo" by (simp_all add: r)
    then have "n \<le> N'" "n \<le> Mo'" using low by simp_all
    then show ?thesis using stopB by (simp add: s)
  next
    case True
    show ?thesis
    proof (cases ?goB)
      case False
      have "n \<le> N' \<and> n \<le> Mo'" using True False low by (auto simp: min_def split: if_splits)
      then show ?thesis using stopB [OF False] by (simp add: s)
    next
      case goB: True
      obtain r1 where r1: "evA (open_volume ?p h) = Inr r1" "promote_loop evA minSize (open_volume ?p h) r1 = Inr (h', r')"
        using less.prems(1) True by (auto simp: r promote_loop_step open_volume_def bind_res_Inr_iff)
      obtain s1 where s1: "evB (ask n (open_volume ?p h)) = Inr s1"
        "promote_loop evB minSize (ask n (open_volume ?p h)) s1 = Inr (g', s')"
        using less.prems(2) goB by (auto simp: s promote_loop_step open_volume_def bind_res_Inr_iff ask_updates)
      have Q: "Q (open_volume ?p h)" "n \<le> maxDeployCount (open_volume ?p h)"
        using keep [OF less.prems(4)] True less.prems(5) by (auto simp: open_volume_def)
      have "length (unusedVolumes (open_volume ?p h)) < length (unusedVolumes h)"
        using True by (auto simp: open_volume_def delete_at_def)
      from less.hyps [OF this r1(2) s1(2) ev [OF Q r1(1) s1(1)] Q] show ?thesis .
    qed
  qed
qed

lemma getVolumeCapacity_reached:
  assumes "getVolumeCapacity requests h = Inr c" "getVolumeCapacity requests (ask n h) = Inr c'" "0 \<le> n" "n \<le> c"
    and "sched_ok h" "requests_ok requests" "maxDeployCount h \<le> MaxInt" "int (length (unusedVolumes h)) < MaxInt"
  shows "c' = n"
proof (cases "NeedSchedule requests")
  case False
  then show ?thesis using assms(2) by (simp add: getVolumeCapacity_def)
next
  case need: True
  let ?c = "classifyVolumeBindings requests"
  let ?b = "normalBound ?c h" and ?b' = "normalBound ?c (ask n h)"
  let ?none = "0 < length (normal_class ?c) + length (mono_class ?c) + length (unlimited_class ?c) \<and>
           length (unusedVolumes h) + length (usedVolumes h) = 0"
  let ?min = "case normal_class ?c of [] \<Rightarrow> of_val MaxInt | r # _ \<Rightarrow> SizeInBytes r"
  show ?thesis
  proof (cases ?none)
    case True
    then show ?thesis using assms(1-4) need by (simp add: getVolumeCapacity_def Let_def)
  next
    case some: False
    obtain r0 h1 N Mo b where A: "evaluate_counts ?c ?b h = Inr r0" "promote_loop (evaluate_counts ?c ?b) ?min h r0 = Inr (h1, N, Mo, b)"
      "c = min (min N Mo) (maxDeployCount h1)"
      using assms(1) need some unfolding getVolumeCapacity_def Let_def promote_def by (auto simp: bind_res_Inr_iff)
    obtain s0 g1 N' Mo' b' where B: "evaluate_counts ?c ?b' (ask n h) = Inr s0"
      "promote_loop (evaluate_counts ?c ?b') ?min (ask n h) s0 = Inr (g1, N', Mo', b')" "c' = min (min N' Mo') (maxDeployCount g1)"
      using assms(2) need some unfolding getVolumeCapacity_def Let_def promote_def ask_fields by (auto simp: bind_res_Inr_iff)
    have D: "maxDeployCount h1 = maxDeployCount h" "maxDeployCount g1 = n"
      using promote_volumes [OF A(2)] promote_volumes [OF B(2)] by simp_all
    have n: "n \<le> N" "n \<le> Mo" "n \<le> maxDeployCount h" using assms(4) A(3) D(1) by simp_all
    have bounds: "?b \<le> MaxInt" "?b' \<le> ?b" "n \<le> ?b'" "?b' = ?b \<or> mono_class ?c = [] \<or> uncoupled ?c"
      using normalBound_le [OF assms(7,8)] n(3) assms(7) by (auto simp: normalBound_def uncoupled_def)
    have req: "valid_reqs (normal_class ?c)" "valid_reqs (mount_class ?c)" "valid_reqs (mono_class ?c)" "mono_ok (mono_class ?c)"
      using assms(6) by (auto simp: requests_ok_def valid_reqs_def classes_sets)
    have low: "lower n r s" if "sched_ok h" "n \<le> maxDeployCount h" "evaluate_counts ?c ?b h = Inr r"
        "evaluate_counts ?c ?b' (ask n h) = Inr s" for h r s
      by (rule evaluate_counts_lower [OF that(1) req bounds(1-3) assms(3) that(2) bounds(4) that(3,4)])
    have "n \<le> fst (N', Mo', b') \<and> n \<le> fst (snd (N', Mo', b'))"
      by (rule promote_loop_lower [where Q = sched_ok, OF A(2) B(2) low [OF assms(5) n(3) A(1) B(1)] assms(5) n(3)])
        (use n sched_ok_open low in auto)
    then show ?thesis using B(3) D(2) by simp
  qed
qed

lemma newHost_ask: "newHost info n = ask n (newHost info m)"
  by (simp add: newHost_def ask_def split: prod.split)

lemma GetVolumeCapacity_reached:
  assumes "GetVolumeCapacity info requests m = Inr c" "GetVolumeCapacity info requests n = Inr c'" "0 \<le> n" "n \<le> c"
    and "node_ok info" "requests_ok requests" "m \<le> MaxInt" "int (length (Volumes (Capacity info))) < MaxInt"
  shows "c' = n"
proof -
  have "int (length (unusedVolumes (newHost info m))) < MaxInt" using newHost_unused [of info m] assms(8) by linarith
  from getVolumeCapacity_reached [OF assms(1) [unfolded GetVolumeCapacity_def]
      assms(2) [unfolded GetVolumeCapacity_def newHost_ask [of info n m]] assms(3,4) newHost_spec(1) [OF assms(5)] assms(6) _ this]
  show ?thesis using assms(7) by simp
qed

end
