(* ===== verification/Workload.thy ===== *)
theory Workload
  imports Node
begin

text \<open>
  \<open>storage/types/workload.go\<close>, \<open>engine.go\<close> and \<open>utils.go\<close>: what a workload holds of a node, the
  request for it, and what the engine is told. \<open>resourcetypes.Decode\<close>, which \<open>Parse\<close> of
  \<open>WorkloadResource\<close> hands its argument to, is a parameter of the plugin. A \<open>RawParams\<close> is a value of
  type \<open>'r\<close>, read through the accessors of the record \<open>RawParams\<close>.
\<close>

record WorkloadResource =
  VolumesRequest :: VolumeBindings
  VolumesLimit :: VolumeBindings
  VolumePlanRequest :: VolumePlan
  VolumePlanLimit :: VolumePlan
  StorageRequest :: i64
  StorageLimit :: i64
  DisksRequest :: Disks
  DisksLimit :: Disks

record WorkloadResourceRequest =
  rVolumesRequest :: VolumeBindings
  rVolumesLimit :: VolumeBindings
  rStorageRequest :: i64
  rStorageLimit :: i64
  storageFolded :: bool

record EngineParams =
  epVolumes :: "string list"
  VolumeChanged :: bool
  epStorage :: i64
  IOPSOptions :: "(string, string) gomap"

section \<open>Parsing a request\<close>

fun firstStringSlice :: "'r RawParams \<Rightarrow> 'r \<Rightarrow> string list \<Rightarrow> string list" where
  "firstStringSlice rp raw [] = []"
| "firstStringSlice rp raw (k # ks) =
     (let res = rawStringSlice rp raw k in if res \<noteq> [] then res else firstStringSlice rp raw ks)"

definition request_Parse :: "'r RawParams \<Rightarrow> 'r \<Rightarrow> WorkloadResourceRequest res" where
  "request_Parse rp raw =
     bind_res (NewVolumeBindings (parseRAM rp) (firstStringSlice rp raw [''volumes-request'', ''volume-request'']))
       (\<lambda>request.
     bind_res (NewVolumeBindings (parseRAM rp)
         (firstStringSlice rp raw [''volumes'', ''volume'', ''volume-limit'', ''volumes-limit'']))
       (\<lambda>limit.
     bind_res (rawSizeInBytes rp raw ''storage-request'') (\<lambda>storageRequest.
     bind_res (rawSizeInBytes rp raw ''storage-limit'') (\<lambda>storageLimit.
     bind_res (if rawIsSet rp raw ''storage'' then
           bind_res (rawSizeInBytes rp raw ''storage'') (\<lambda>storage. Inr (storage, storage))
         else Inr (storageRequest, storageLimit)) (\<lambda>(storageRequest', storageLimit').
       Inr \<lparr>rVolumesRequest = (if limit \<noteq> [] \<and> request = [] then limit else request),
            rVolumesLimit = limit, rStorageRequest = storageRequest', rStorageLimit = storageLimit',
            storageFolded = False\<rparr>)))))"

definition SkipAddStorage :: "WorkloadResourceRequest \<Rightarrow> WorkloadResourceRequest" where
  "SkipAddStorage w = w\<lparr>storageFolded := True\<rparr>"

section \<open>Validating a request\<close>

text \<open>
  \<open>slices.SortFunc(..., compareBindingString)\<close>. The printed form has every field of a binding, so there
  is one sorted list of the bindings and any sorting algorithm finds it (\<open>sort_bindings_determined\<close>).
  Should different bindings print alike, a separator within a name, they keep their order, as in the
  insertion sort Go uses for up to twelve elements.
\<close>

definition sort_bindings :: "VolumeBindings \<Rightarrow> VolumeBindings" where
  "sort_bindings vbs = sort_key (vb_ToString False) vbs"

lemma sort_bindings_determined:
  assumes "mset ws = mset vbs" "sorted (map (vb_ToString False) ws)" "inj_on (vb_ToString False) (set vbs)"
  shows "sort_bindings vbs = ws"
  using sort_determined [OF assms] by (simp add: sort_bindings_def)

definition raise_limit :: "VolumeBinding \<Rightarrow> VolumeBinding \<Rightarrow> VolumeBinding" where
  "raise_limit request limit = limit\<lparr>
     SizeInBytes := (if 0 < SizeInBytes request \<and> 0 < SizeInBytes limit \<and> SizeInBytes limit < SizeInBytes request
       then SizeInBytes request else SizeInBytes limit),
     ReadIOPS := max (ReadIOPS limit) (ReadIOPS request), WriteIOPS := max (WriteIOPS limit) (WriteIOPS request),
     ReadBPS := max (ReadBPS limit) (ReadBPS request), WriteBPS := max (WriteBPS limit) (WriteBPS request)\<rparr>"

text \<open>The loop over the pairs; the two lists have the same length when it runs.\<close>

fun raise_limits :: "VolumeBindings \<Rightarrow> VolumeBindings \<Rightarrow> VolumeBindings res" where
  "raise_limits (request # requests) (limit # limits) =
     (if Source request \<noteq> Source limit \<or> Destination request \<noteq> Destination limit \<or> Flags request \<noteq> Flags limit
      then Inl ErrInvalidVolume
      else bind_res (raise_limits requests limits) (\<lambda>ls. Inr (raise_limit request limit # ls)))"
| "raise_limits _ limits = Inr limits"

definition validateVolumes :: "WorkloadResourceRequest \<Rightarrow> WorkloadResourceRequest res" where
  "validateVolumes w =
     (if length (rVolumesRequest w) \<noteq> length (rVolumesLimit w) then Inl ErrInvalidVolume
      else case vbs_Validate (rVolumesRequest w) of
        Some _ \<Rightarrow> Inl ErrInvalidVolume
      | None \<Rightarrow>
          (case vbs_Validate (rVolumesLimit w) of
             Some _ \<Rightarrow> Inl ErrInvalidVolume
           | None \<Rightarrow>
               let request = sort_bindings (rVolumesRequest w); limit = sort_bindings (rVolumesLimit w)
               in bind_res (raise_limits request limit) (\<lambda>limit'.
                    Inr (w\<lparr>rVolumesRequest := request, rVolumesLimit := limit'\<rparr>))))"

definition validateStorageRequest :: "WorkloadResourceRequest \<Rightarrow> WorkloadResourceRequest res" where
  "validateStorageRequest w =
     (if rStorageLimit w < 0 \<or> rStorageRequest w < 0 then Inl ErrInvalidStorage
      else
        let request = (if rStorageRequest w \<noteq> 0 then rStorageRequest w else rStorageLimit w);
            limit = (if 0 < rStorageLimit w \<and> 0 < request \<and> rStorageLimit w < request then request else rStorageLimit w)
        in if storageFolded w
           then Inr (w\<lparr>rStorageRequest := request, rStorageLimit := limit\<rparr>)
           else Inr (w\<lparr>rStorageRequest := request + TotalSize (rVolumesRequest w),
                       rStorageLimit := limit + TotalSize (rVolumesLimit w), storageFolded := True\<rparr>))"

text \<open>
  \<open>Validate\<close>: both parts run and the first error is kept. When the volumes are invalid the request is
  given up with that error, whatever the storage part does.
\<close>

definition request_Validate :: "WorkloadResourceRequest \<Rightarrow> WorkloadResourceRequest res" where
  "request_Validate w = bind_res (validateVolumes w) validateStorageRequest"

section \<open>What validation establishes\<close>

definition matched :: "VolumeBinding \<Rightarrow> VolumeBinding \<Rightarrow> bool" where
  "matched request limit \<longleftrightarrow> GetMapKey request = GetMapKey limit \<and>
     (0 < SizeInBytes limit \<longrightarrow> SizeInBytes request \<le> SizeInBytes limit) \<and>
     ReadIOPS request \<le> ReadIOPS limit \<and> WriteIOPS request \<le> WriteIOPS limit \<and>
     ReadBPS request \<le> ReadBPS limit \<and> WriteBPS request \<le> WriteBPS limit"

lemma matched_raise_limit:
  "GetMapKey request = GetMapKey limit \<Longrightarrow> matched request (raise_limit request limit)"
  by (auto simp: matched_def raise_limit_def GetMapKey_def)

lemma raise_limits_matched:
  "raise_limits requests limits = Inr limits' \<Longrightarrow> length requests = length limits \<Longrightarrow>
   list_all2 matched requests limits' \<and> map GetMapKey limits' = map GetMapKey limits"
proof (induction requests limits arbitrary: limits' rule: raise_limits.induct)
  case (1 request requests limit limits)
  from "1.prems" obtain ls where
    eq: "GetMapKey request = GetMapKey limit" "raise_limits requests limits = Inr ls" "limits' = raise_limit request limit # ls"
    by (auto simp: GetMapKey_def split: if_splits)
  from "1.IH" [OF _ eq(2)] "1.prems"(2) eq show ?case
    by (auto simp: matched_raise_limit GetMapKey_def split: if_splits) (auto simp: raise_limit_def GetMapKey_def)
qed auto

lemma ValidIO_sort: "vbs_Validate vbs = None \<longleftrightarrow>
   (\<forall>vb \<in> set vbs. (RequireScheduleMonopoly vb \<longrightarrow> 0 < SizeInBytes vb) \<and> ValidIOParameters vb)"
  by (induction vbs) auto

lemma validateVolumes_ok:
  assumes "validateVolumes w = Inr w'"
  shows "list_all2 matched (rVolumesRequest w') (rVolumesLimit w')"
    "mset (rVolumesRequest w') = mset (rVolumesRequest w)" "vbs_Validate (rVolumesRequest w') = None"
    "sorted (map (vb_ToString False) (rVolumesRequest w'))"
    "rStorageRequest w' = rStorageRequest w" "rStorageLimit w' = rStorageLimit w" "storageFolded w' = storageFolded w"
proof -
  let ?q = "sort_bindings (rVolumesRequest w)" and ?l = "sort_bindings (rVolumesLimit w)"
  have "length (rVolumesRequest w) = length (rVolumesLimit w)" "vbs_Validate (rVolumesRequest w) = None"
    using assms by (auto simp: validateVolumes_def split: if_splits option.splits)
  moreover obtain l' where "raise_limits ?q ?l = Inr l'" "w' = w\<lparr>rVolumesRequest := ?q, rVolumesLimit := l'\<rparr>"
    using assms by (auto simp: validateVolumes_def Let_def split: if_splits option.splits)
  ultimately show "list_all2 matched (rVolumesRequest w') (rVolumesLimit w')"
    "mset (rVolumesRequest w') = mset (rVolumesRequest w)" "vbs_Validate (rVolumesRequest w') = None"
    "sorted (map (vb_ToString False) (rVolumesRequest w'))"
    "rStorageRequest w' = rStorageRequest w" "rStorageLimit w' = rStorageLimit w" "storageFolded w' = storageFolded w"
    using raise_limits_matched [of ?q ?l l'] by (simp_all add: sort_bindings_def ValidIO_sort)
qed

end
