(* ===== verification/Storage_Alloc.thy ===== *)
theory Storage_Alloc
  imports Workload Affinity Nodestore Core_Types
begin

text \<open>
  \<open>storage/calculate.go\<close>, \<open>utils.go\<close> and \<open>storage.go\<close>: deploying and reallocating workloads. The
  plugin is its store, the configured maximal deploy count, the orders in which the
  runtime ranges over the maps a realloc builds, and what core supplies: the \<open>RawParams\<close>
  accessors, \<open>Decode\<close> into the two structs that are parsed from JSON, and \<open>utils.AdvancedDivide\<close>.
  \<open>None\<close> is a nil \<open>RawParams\<close>; a response holds the structs whose \<open>AsRawParams\<close> the code returns.
\<close>

record ('w, 'r, 'f) StoragePlugin =
  storageStore :: "('w, NodeResourceInfo) Store"
  MaxDeployCount :: i64
  mapOrder :: order
  params :: "'r option RawParams"
  decodeWorkload :: "'r option \<Rightarrow> WorkloadResource res"
  decodeNode :: "'r option \<Rightarrow> NodeResource res"
  Divide :: "rat \<Rightarrow> rat \<Rightarrow> 'f"

text \<open>\<open>newStore\<close>: the key space and the constructor and validation of the records.\<close>

definition storage_newStore :: "('w, NodeResourceInfo) Store \<Rightarrow> ('w, NodeResourceInfo) Store" where
  "storage_newStore kv = kv\<lparr>keyPrefix := ''/resource/storage/'', newInfo := NewNodeResourceInfo,
     validate := (\<lambda>info. info_Validate (Some (Capacity info)) (Some (Usage info)))\<rparr>"

section \<open>utils.go\<close>

definition toIOPSOptions :: "Disks \<Rightarrow> (string, string) gomap" where
  "toIOPSOptions ds = fold (\<lambda>disk m. mput (Device disk)
     (join_with '':'' [show_i64 (dReadIOPS disk), show_i64 (dWriteIOPS disk), show_i64 (dReadBPS disk),
        show_i64 (dWriteBPS disk)]) m) ds []"

text \<open>
  The loop of \<open>getVolumePlanLimit\<close> over the limits, with the requests at the same positions.
\<close>

fun limit_loop :: "(string \<times> string \<times> string, Volumes) gomap \<Rightarrow> VolumeBindings \<Rightarrow> VolumeBindings \<Rightarrow> VolumePlan res" where
  "limit_loop volumes [] requests = Inr []"
| "limit_loop volumes (binding # limits) requests =
     (let rest = limit_loop volumes limits (tl requests) in
      if \<not> RequireSchedule binding then rest
      else case map_of volumes (GetMapKey binding) of
        None \<Rightarrow> rest
      | Some volumeMap \<Rightarrow>
          (case requests of
             [] \<Rightarrow> Inl ErrPanic
           | request # _ \<Rightarrow> bind_res rest (\<lambda>plan.
               Inr ((binding, [(GetDevice volumeMap,
                 GetSize volumeMap + SizeInBytes binding - SizeInBytes request)]) # plan))))"

definition getVolumePlanLimit :: "VolumeBindings \<Rightarrow> VolumeBindings \<Rightarrow> VolumePlan \<Rightarrow> VolumePlan res" where
  "getVolumePlanLimit volumeRequest volumeLimit volumePlan =
     limit_loop (existing_volumes volumePlan) volumeLimit volumeRequest"

definition add_disk_limit :: "Disks \<Rightarrow> VolumeBinding \<Rightarrow> string \<Rightarrow> Disks \<Rightarrow> Disks" where
  "add_disk_limit ds binding path disksLimit =
     (case GetDiskByPath ds path of
        None \<Rightarrow> disksLimit
      | Some i \<Rightarrow> disks_Add disksLimit [DiskQuota binding (ds ! i)])"

definition getDisksLimit :: "VolumeBindings \<Rightarrow> VolumePlan \<Rightarrow> Disks \<Rightarrow> Disks" where
  "getDisksLimit volumeLimit volumePlanLimit ds =
     (let mounts = fold (\<lambda>binding disksLimit.
            if \<not> RequireIOPS binding \<or> RequireSchedule binding then disksLimit
            else add_disk_limit ds binding (Source binding) disksLimit) volumeLimit []
      in fold (\<lambda>(binding, volumeMap) disksLimit.
            if \<not> RequireIOPS binding then disksLimit
            else add_disk_limit ds binding (GetDevice volumeMap) disksLimit) volumePlanLimit mounts)"

definition fake_binding :: VolumeBinding where
  "fake_binding = empty_binding\<lparr>Source := ''fake-source'', Destination := ''fake-destination'', Flags := ''fake-flags''\<rparr>"

definition plan_volumes :: "VolumePlan \<Rightarrow> Volumes \<Rightarrow> Volumes" where
  "plan_volumes plan volumes = fold (\<lambda>(_, volumeMap) v. vols_Add v volumeMap) plan volumes"

definition getDeltaWorkloadResourceArgs :: "WorkloadResource \<Rightarrow> WorkloadResource \<Rightarrow> WorkloadResource" where
  "getDeltaWorkloadResourceArgs originResource targetWorkloadResource =
     \<lparr>VolumesRequest = [], VolumesLimit = [],
      VolumePlanRequest = [(fake_binding,
        fold (\<lambda>(_, volumeMap) v. vols_Sub v volumeMap) (VolumePlanRequest originResource)
          (plan_volumes (VolumePlanRequest targetWorkloadResource) []))],
      VolumePlanLimit = [],
      StorageRequest = StorageRequest targetWorkloadResource - StorageRequest originResource, StorageLimit = 0,
      DisksRequest = disks_Sub (disks_DeepCopy (DisksRequest targetWorkloadResource)) (DisksRequest originResource),
      DisksLimit = []\<rparr>"

section \<open>doAlloc\<close>

definition storageCapacity :: "NodeResourceInfo \<Rightarrow> WorkloadResourceRequest \<Rightarrow> i64" where
  "storageCapacity info req = quot (Storage (Capacity info) - Storage (Usage info)) (rStorageRequest req)"

text \<open>One round of the loop: what the engine is told and what the workload holds.\<close>

definition alloc_one :: "Disks \<Rightarrow> WorkloadResourceRequest \<Rightarrow> VolumePlan \<Rightarrow> Disks \<Rightarrow>
    (EngineParams \<times> WorkloadResource) res" where
  "alloc_one ds req volumePlan diskPlan =
     bind_res (getVolumePlanLimit (rVolumesRequest req) (rVolumesLimit req) volumePlan) (\<lambda>volumePlanLimit.
       let disksLimit = getDisksLimit (rVolumesLimit req) volumePlanLimit ds
       in Inr (\<lparr>epVolumes = map (vb_ToString True) (ApplyPlan (rVolumesLimit req) volumePlan),
                VolumeChanged = False, epStorage = rStorageLimit req, IOPSOptions = toIOPSOptions disksLimit\<rparr>,
               \<lparr>VolumesRequest = rVolumesRequest req, VolumesLimit = rVolumesLimit req,
                VolumePlanRequest = volumePlan, VolumePlanLimit = volumePlanLimit,
                StorageRequest = rStorageRequest req, StorageLimit = rStorageLimit req,
                DisksRequest = diskPlan, DisksLimit = disksLimit\<rparr>))"

fun alloc_all :: "Disks \<Rightarrow> WorkloadResourceRequest \<Rightarrow> VolumePlan list \<Rightarrow> Disks list \<Rightarrow>
    (EngineParams list \<times> WorkloadResource list) res" where
  "alloc_all ds req [] diskPlans = Inr ([], [])"
| "alloc_all ds req (volumePlan # volumePlans) [] = Inl ErrPanic"
| "alloc_all ds req (volumePlan # volumePlans) (diskPlan # diskPlans) =
     bind_res (alloc_one ds req volumePlan diskPlan) (\<lambda>(engineParam, workloadResource).
     bind_res (alloc_all ds req volumePlans diskPlans) (\<lambda>(enginesParams, workloadsResource).
       Inr (engineParam # enginesParams, workloadResource # workloadsResource)))"

definition storage_plans :: "NodeResourceInfo \<Rightarrow> i64 \<Rightarrow> WorkloadResourceRequest \<Rightarrow>
    (VolumePlan list \<times> Disks list) res" where
  "storage_plans resourceInfo deployCount req =
     (if \<not> NeedSchedule (rVolumesRequest req)
      then Inr (replicate (nat (val deployCount)) [], replicate (nat (val deployCount)) [])
      else bind_res (GetVolumePlans resourceInfo (rVolumesRequest req) (val deployCount))
        (\<lambda>(volumePlans, diskPlans).
          if int (length volumePlans) < val deployCount then Inl ErrInsufficientResource
          else Inr (volumePlans, diskPlans)))"

definition storage_doAlloc :: "NodeResourceInfo \<Rightarrow> i64 \<Rightarrow> WorkloadResourceRequest \<Rightarrow>
    (EngineParams list \<times> WorkloadResource list) res" where
  "storage_doAlloc resourceInfo deployCount req =
     (if 0 < rStorageRequest req \<and> storageCapacity resourceInfo req < deployCount
      then Inl ErrInsufficientResource
      else bind_res (storage_plans resourceInfo deployCount req) (\<lambda>(volumePlans, diskPlans).
        alloc_all (Disks (Capacity resourceInfo)) req volumePlans diskPlans))"

definition storage_CalculateDeploy :: "('w, 'r, 'f) StoragePlugin \<Rightarrow> 'w \<Rightarrow> string \<Rightarrow> i64 \<Rightarrow> 'r option \<Rightarrow>
    (EngineParams list \<times> WorkloadResource list) res" where
  "storage_CalculateDeploy p w nodename deployCount resourceRequest =
     bind_res (request_Parse (params p) resourceRequest) (\<lambda>req0.
     bind_res (request_Validate req0) (\<lambda>req.
     bind_res (GetOrEmpty (storageStore p) w nodename) (\<lambda>nodeResourceInfo.
       storage_doAlloc nodeResourceInfo deployCount req)))"

section \<open>CalculateRealloc\<close>

record ReallocResponse =
  reallocEngineParams :: EngineParams
  reallocDelta :: WorkloadResource
  reallocWorkload :: WorkloadResource

text \<open>The request a realloc validates: what was asked for, merged with what the workload had. Both
  merges range over a map of their own.\<close>

definition realloc_request :: "order \<Rightarrow> WorkloadResourceRequest \<Rightarrow> WorkloadResource \<Rightarrow> WorkloadResourceRequest" where
  "realloc_request ord req originResource = SkipAddStorage
     \<lparr>rVolumesRequest = MergeVolumeBindings (ord 0) (rVolumesRequest req) [VolumesRequest originResource],
      rVolumesLimit = MergeVolumeBindings (ord 1) (rVolumesLimit req) [VolumesLimit originResource],
      rStorageRequest = rStorageRequest req + StorageRequest originResource + TotalSize (rVolumesRequest req),
      rStorageLimit = rStorageLimit req + StorageLimit originResource + TotalSize (rVolumesLimit req),
      storageFolded = False\<rparr>"

text \<open>The bindings the engine gets, and whether they differ from the ones it has.\<close>

definition realloc_engine :: "WorkloadResourceRequest \<Rightarrow> WorkloadResource \<Rightarrow> WorkloadResource \<Rightarrow> VolumePlan \<Rightarrow> EngineParams" where
  "realloc_engine req originResource target volumePlan =
     (let originBindingSet = remdups (map GetMapKey (ApplyPlan (VolumesLimit originResource) (VolumePlanLimit originResource)));
          newBindings = ApplyPlan (rVolumesLimit req) volumePlan
      in \<lparr>epVolumes = map (vb_ToString True) newBindings,
          VolumeChanged = (length newBindings \<noteq> length originBindingSet \<or>
            list_ex (\<lambda>binding. \<not> List.member originBindingSet (GetMapKey binding)) newBindings),
          epStorage = StorageLimit target, IOPSOptions = toIOPSOptions (DisksLimit target)\<rparr>)"

definition realloc_plan :: "order \<Rightarrow> NodeResourceInfo \<Rightarrow> bool \<Rightarrow> WorkloadResourceRequest \<Rightarrow> WorkloadResource \<Rightarrow>
    (VolumePlan \<times> Disks) res" where
  "realloc_plan ord resourceInfo needVolumeReschedule req originResource =
     (if needVolumeReschedule
      then (case GetAffinityPlan ord resourceInfo (rVolumesRequest req) (VolumePlanRequest originResource)
               (VolumesRequest originResource) of
              Inl e \<Rightarrow> Inl (if e = ErrPanic then ErrPanic else ErrInsufficientResource)
            | Inr plans \<Rightarrow> Inr plans)
      else Inr (VolumePlanRequest originResource, DisksRequest originResource))"

definition storage_realloc :: "order \<Rightarrow> NodeResourceInfo \<Rightarrow> WorkloadResourceRequest \<Rightarrow> WorkloadResource \<Rightarrow> ReallocResponse res" where
  "storage_realloc ord resourceInfo req0 originResource =
     bind_res (request_Validate (realloc_request ord req0 originResource)) (\<lambda>req.
       if Storage (Capacity resourceInfo) - Storage (Usage resourceInfo) < rStorageRequest req - StorageRequest originResource
       then Inl ErrInsufficientResource
       else bind_res (realloc_plan ord resourceInfo (NeedSchedule (rVolumesRequest req0)) req originResource)
         (\<lambda>(volumePlan, diskPlan).
           bind_res (getVolumePlanLimit (rVolumesRequest req) (rVolumesLimit req) volumePlan) (\<lambda>volumePlanLimit.
             let target = \<lparr>VolumesRequest = rVolumesRequest req, VolumesLimit = rVolumesLimit req,
                   VolumePlanRequest = volumePlan, VolumePlanLimit = volumePlanLimit,
                   StorageRequest = rStorageRequest req, StorageLimit = rStorageLimit req,
                   DisksRequest = diskPlan,
                   DisksLimit = getDisksLimit (rVolumesLimit req) volumePlanLimit (Disks (Capacity resourceInfo))\<rparr>
             in Inr \<lparr>reallocEngineParams = realloc_engine req originResource target volumePlan,
                     reallocDelta = getDeltaWorkloadResourceArgs originResource target,
                     reallocWorkload = target\<rparr>)))"

definition storage_CalculateRealloc :: "('w, 'r, 'f) StoragePlugin \<Rightarrow> 'w \<Rightarrow> string \<Rightarrow> 'r option \<Rightarrow> 'r option \<Rightarrow>
    ReallocResponse res" where
  "storage_CalculateRealloc p w nodename resource resourceRequest =
     bind_res (request_Parse (params p) resourceRequest) (\<lambda>req.
     bind_res (decodeWorkload p resource) (\<lambda>originResource.
     bind_res (GetOrEmpty (storageStore p) w nodename) (\<lambda>resourceInfo.
       storage_realloc (mapOrder p) resourceInfo req originResource)))"

text \<open>\<open>CalculateRemap\<close> answers with an empty response: nothing of a workload moves.\<close>

definition storage_CalculateRemap :: "string \<Rightarrow> (string, 'r option) gomap \<Rightarrow> (string, EngineParams) gomap res" where
  "storage_CalculateRemap nodename workloads = Inr []"

end
