(* ===== verification/Storage_Node.thy ===== *)
theory Storage_Node
  imports Storage_Alloc
begin

text \<open>
  \<open>storage/node.go\<close> and \<open>metrics.go\<close>: the verbs on nodes. A verb that writes takes the state of the
  cluster and returns the state after it. Counts of Go type \<open>int\<close> are \<open>i64\<close>.
\<close>

section \<open>Adding and removing a node\<close>

text \<open>\<open>StorageTotal * rate / 10\<close> when the engine's info is there and no storage is asked for.\<close>

definition node_storage :: "i64 option \<Rightarrow> i64 \<Rightarrow> i64" where
  "node_storage storageTotal storage =
     (case storageTotal of
        Some tot \<Rightarrow> if storage = 0 then quot (tot * 8) 10 else storage
      | None \<Rightarrow> storage)"

definition storage_AddNode :: "('w, 'r, 'f) StoragePlugin \<Rightarrow> 'w \<Rightarrow> string \<Rightarrow> 'r option \<Rightarrow> i64 option \<Rightarrow>
    'w \<times> NodeResource res" where
  "storage_AddNode p w nodename resource storageTotal =
     (case CheckAbsent (storageStore p) w nodename of
        Some e \<Rightarrow> (w, Inl e)
      | None \<Rightarrow>
          (case req_Parse (params p) resource of
             Inl e \<Rightarrow> (w, Inl e)
           | Inr req \<Rightarrow>
               let info = NewNodeResourceInfo\<lparr>Capacity := \<lparr>Volumes = reqVolumes req, Disks = reqDisks req,
                     Storage = node_storage storageTotal (reqStorage req)\<rparr>\<rparr>
               in (case Put (storageStore p) w nodename info of
                     (w', Inl e) \<Rightarrow> (w', Inl e)
                   | (w', Inr info') \<Rightarrow> (w', Inr (Capacity info')))))"

definition storage_RemoveNode :: "('w, 'r, 'f) StoragePlugin \<Rightarrow> 'w \<Rightarrow> string \<Rightarrow> 'w \<times> goerr option" where
  "storage_RemoveNode p w nodename = Delete (storageStore p) w nodename"

section \<open>Deploy capacity\<close>

text \<open>The count of \<open>doGetNodeDeployCapacity\<close>, with the configured bound.\<close>

definition storage_capacity :: "('w, 'r, 'f) StoragePlugin \<Rightarrow> NodeResourceInfo \<Rightarrow> WorkloadResourceRequest \<Rightarrow> i64 res" where
  "storage_capacity p info req =
     bind_res (if NeedSchedule (rVolumesRequest req)
         then bind_res (GetVolumeCapacity info (rVolumesRequest req) (val (MaxDeployCount p))) (\<lambda>c. Inr (of_val c))
         else Inr (MaxDeployCount p)) (\<lambda>capacity.
       Inr (if 0 < rStorageRequest req then min capacity (storageCapacity info req) else capacity))"

definition storage_doGetNodeDeployCapacity :: "('w, 'r, 'f) StoragePlugin \<Rightarrow> NodeResourceInfo \<Rightarrow>
    WorkloadResourceRequest \<Rightarrow> 'f NodeDeployCapacity res" where
  "storage_doGetNodeDeployCapacity p info req =
     bind_res (storage_capacity p info req) (\<lambda>capacity.
       let capVolumesTotal = Total (Volumes (Capacity info)) in
       if rVolumesRequest req \<noteq> [] \<or> rStorageRequest req = 0
       then Inr \<lparr>deployCapacity = capacity, deployWeight = 1,
              deployUsage = Divide p (float64 (Total (Volumes (Usage info)))) (float64 capVolumesTotal),
              deployRate = Divide p (float64 (TotalSize (rVolumesRequest req))) (float64 capVolumesTotal)\<rparr>
       else Inr \<lparr>deployCapacity = capacity, deployWeight = 1,
              deployUsage = Divide p (float64 (Storage (Usage info))) (float64 (Storage (Capacity info))),
              deployRate = Divide p (float64 (rStorageRequest req)) (float64 (Storage (Capacity info)))\<rparr>)"

text \<open>
  The planners run concurrently, each filling in its own entry; the results are collected in the
  order of the names. A name that is listed twice is planned and counted twice.
\<close>

fun plan_capacities :: "('w, 'r, 'f) StoragePlugin \<Rightarrow> WorkloadResourceRequest \<Rightarrow> (string, NodeResourceInfo) gomap \<Rightarrow>
    string list \<Rightarrow> (string \<times> 'f NodeDeployCapacity) list res" where
  "plan_capacities p req infos [] = Inr []"
| "plan_capacities p req infos (nodename # nodenames) =
     (case map_of infos nodename of
        None \<Rightarrow> Inl ErrPanic
      | Some info \<Rightarrow>
          bind_res (storage_doGetNodeDeployCapacity p info req) (\<lambda>c.
          bind_res (plan_capacities p req infos nodenames) (\<lambda>cs. Inr ((nodename, c) # cs))))"

definition collect_capacities :: "(string \<times> 'f NodeDeployCapacity) list \<Rightarrow> (string, 'f NodeDeployCapacity) gomap \<times> i64" where
  "collect_capacities cs = fold (\<lambda>(nodename, c) (capacityMap, total).
     if deployCapacity c \<le> 0 then (capacityMap, total)
     else (mput nodename c capacityMap, total + deployCapacity c)) cs ([], 0)"

definition storage_GetNodesDeployCapacity :: "('w, 'r, 'f) StoragePlugin \<Rightarrow> 'w \<Rightarrow> string list \<Rightarrow> 'r option \<Rightarrow>
    ((string, 'f NodeDeployCapacity) gomap \<times> i64) res" where
  "storage_GetNodesDeployCapacity p w nodenames resource =
     bind_res (request_Parse (params p) resource) (\<lambda>req0.
     bind_res (request_Validate req0) (\<lambda>req.
     bind_res (GetMulti (storageStore p) w nodenames) (\<lambda>infos.
     bind_res (plan_capacities p req infos nodenames) (\<lambda>cs. Inr (collect_capacities cs)))))"

section \<open>Rewriting capacity and usage\<close>

text \<open>What a workload takes of a node, and adding it to a record or taking it away.\<close>

definition workload_usage :: "WorkloadResource \<Rightarrow> NodeResource" where
  "workload_usage workload = \<lparr>Volumes = plan_volumes (VolumePlanRequest workload) [],
     Disks = DisksRequest workload, Storage = StorageRequest workload\<rparr>"

definition nr_apply :: "bool \<Rightarrow> NodeResource \<Rightarrow> NodeResource \<Rightarrow> NodeResource" where
  "nr_apply incr n resp = (if incr then nr_Add resp n else nr_Sub resp n)"

definition storage_calculateNodeResource :: "NodeResourceRequest option \<Rightarrow> NodeResource option \<Rightarrow>
    NodeResource option \<Rightarrow> WorkloadResource list \<Rightarrow> bool \<Rightarrow> bool \<Rightarrow> NodeResource" where
  "storage_calculateNodeResource req nodeResource origin workloadsResource delta incr =
     (let (resp, incr') = (case origin of
            Some o' \<Rightarrow> if delta then (nr_DeepCopy o', incr) else (empty_resource, True)
          | None \<Rightarrow> (empty_resource, True));
          nodeResource' = (case req of
            Some r \<Rightarrow> Some \<lparr>Volumes = reqVolumes r, Disks = reqDisks r, Storage = reqStorage r\<rparr>
          | None \<Rightarrow> nodeResource)
      in case nodeResource' of
           Some n \<Rightarrow> nr_apply incr' n resp
         | None \<Rightarrow> fold (\<lambda>workload. nr_apply incr' (workload_usage workload)) workloadsResource resp)"

fun parse_workloads :: "('w, 'r, 'f) StoragePlugin \<Rightarrow> 'r option list \<Rightarrow> WorkloadResource list res" where
  "parse_workloads p [] = Inr []"
| "parse_workloads p (r # rs) =
     bind_res (decodeWorkload p r) (\<lambda>x. bind_res (parse_workloads p rs) (\<lambda>xs. Inr (x # xs)))"

definition storage_parseNodeResourceInfos :: "('w, 'r, 'f) StoragePlugin \<Rightarrow> 'r option \<Rightarrow> 'r option \<Rightarrow> 'r option list \<Rightarrow>
    (NodeResourceRequest option \<times> NodeResource option \<times> WorkloadResource list) res" where
  "storage_parseNodeResourceInfos p resource resourceRequest workloadsResource =
     bind_res (if resourceRequest = None then Inr None
               else bind_res (req_Parse (params p) resourceRequest) (\<lambda>r. Inr (Some r))) (\<lambda>req.
     bind_res (if resource = None then Inr None
               else bind_res (decodeNode p resource) (\<lambda>r. Inr (Some r))) (\<lambda>nodeResource.
     bind_res (parse_workloads p workloadsResource) (\<lambda>wrksResource. Inr (req, nodeResource, wrksResource))))"

text \<open>
  The first step of \<open>SetNodeResourceCapacity\<close>: a request with all three keys that decodes as a
  \<open>NodeResource\<close> is a rollback to it; anything else is parsed as a request.
\<close>

definition is_rollback :: "('w, 'r, 'f) StoragePlugin \<Rightarrow> 'r option \<Rightarrow> 'r option \<Rightarrow> bool \<Rightarrow> bool \<Rightarrow> bool" where
  "is_rollback p resource resourceRequest delta incr \<longleftrightarrow> resource = None \<and> \<not> delta \<and> \<not> incr \<and>
     rawIsSet (params p) resourceRequest ''volumes'' \<and> rawIsSet (params p) resourceRequest ''disks'' \<and>
     rawIsSet (params p) resourceRequest ''storage''"

definition capacity_request :: "('w, 'r, 'f) StoragePlugin \<Rightarrow> 'r option \<Rightarrow> 'r option \<Rightarrow> bool \<Rightarrow> bool \<Rightarrow>
    (NodeResourceRequest option \<times> NodeResource option) res" where
  "capacity_request p resource resourceRequest delta incr =
     (let parsed = bind_res (storage_parseNodeResourceInfos p resource resourceRequest [])
            (\<lambda>(req, nodeResource, _). Inr (req, nodeResource))
      in if is_rollback p resource resourceRequest delta incr
         then (case decodeNode p resourceRequest of Inr n \<Rightarrow> Inr (None, Some n) | Inl _ \<Rightarrow> parsed)
         else parsed)"

text \<open>The removal of disks and the merge with what is stored, before the calculation.\<close>

definition edit_capacity :: "('w, 'r, 'f) StoragePlugin \<Rightarrow> 'r option \<Rightarrow> NodeResourceRequest option \<Rightarrow> bool \<Rightarrow>
    NodeResource \<Rightarrow> (NodeResourceRequest option \<times> NodeResource) res" where
  "edit_capacity p resourceRequest req delta capacity =
     (case req of
        None \<Rightarrow> Inr (None, capacity)
      | Some r \<Rightarrow>
          if RMDisks r \<noteq> [] \<and> delta then Inl ErrInvalidEngineArgs
          else
            let capacity' = (if RMDisks r \<noteq> []
                  then capacity\<lparr>Disks := filter (\<lambda>d. \<not> Device d \<in> set (RMDisks r)) (Disks capacity)\<rparr>
                  else capacity)
            in Inr (Some (if delta then r else SkipEmpty (params p) resourceRequest r capacity'), capacity'))"

text \<open>The end of a set verb: put the record, answer with the part before and after.\<close>

definition storage_put_part :: "('w, 'r, 'f) StoragePlugin \<Rightarrow> 'w \<Rightarrow> string \<Rightarrow> NodeResourceInfo \<Rightarrow>
    (NodeResourceInfo \<Rightarrow> NodeResource) \<Rightarrow> NodeResource \<Rightarrow> 'w \<times> (NodeResource \<times> NodeResource) res" where
  "storage_put_part p w nodename info part before =
     (case Put (storageStore p) w nodename info of
        (w', Inl e) \<Rightarrow> (w', Inl e)
      | (w', Inr info') \<Rightarrow> (w', Inr (before, part info')))"

definition storage_SetNodeResourceCapacity :: "('w, 'r, 'f) StoragePlugin \<Rightarrow> 'w \<Rightarrow> string \<Rightarrow> 'r option \<Rightarrow> 'r option \<Rightarrow>
    bool \<Rightarrow> bool \<Rightarrow> 'w \<times> (NodeResource \<times> NodeResource) res" where
  "storage_SetNodeResourceCapacity p w nodename resource resourceRequest delta incr =
     (case bind_res (capacity_request p resource resourceRequest delta incr) (\<lambda>(req, nodeResource).
           bind_res (GetOrEmpty (storageStore p) w nodename) (\<lambda>info.
           bind_res (edit_capacity p resourceRequest req delta (Capacity info)) (\<lambda>(req', capacity).
             let c = storage_calculateNodeResource req' nodeResource (Some capacity) [] delta incr
             in Inr (info\<lparr>Capacity := (if delta then RemoveEmpty c else c)\<rparr>, nr_DeepCopy (Capacity info))))) of
        Inl e \<Rightarrow> (w, Inl e)
      | Inr (info, before) \<Rightarrow> storage_put_part p w nodename info Capacity before)"

definition storage_SetNodeResourceUsage :: "('w, 'r, 'f) StoragePlugin \<Rightarrow> 'w \<Rightarrow> string \<Rightarrow> 'r option \<Rightarrow> 'r option \<Rightarrow>
    'r option list \<Rightarrow> bool \<Rightarrow> bool \<Rightarrow> 'w \<times> (NodeResource \<times> NodeResource) res" where
  "storage_SetNodeResourceUsage p w nodename resource resourceRequest workloadsResource delta incr =
     (case bind_res (storage_parseNodeResourceInfos p resource resourceRequest workloadsResource)
             (\<lambda>(req, nodeResource, wrksResource).
           bind_res (GetOrEmpty (storageStore p) w nodename) (\<lambda>info.
             Inr (info\<lparr>Usage := storage_calculateNodeResource req nodeResource (Some (Usage info)) wrksResource delta incr\<rparr>,
                  nr_DeepCopy (Usage info)))) of
        Inl e \<Rightarrow> (w, Inl e)
      | Inr (info, before) \<Rightarrow> storage_put_part p w nodename info Usage before)"

definition storage_SetNodeResourceInfo :: "('w, 'r, 'f) StoragePlugin \<Rightarrow> 'w \<Rightarrow> string \<Rightarrow> 'r option \<Rightarrow> 'r option \<Rightarrow>
    'w \<times> goerr option" where
  "storage_SetNodeResourceInfo p w nodename capacity usage =
     (case bind_res (decodeNode p capacity) (\<lambda>c. bind_res (decodeNode p usage) (\<lambda>u.
             Inr \<lparr>Capacity = c\<lparr>Storage := Storage c + Total (Volumes c)\<rparr>, Usage = u\<rparr>)) of
        Inl e \<Rightarrow> (w, Some e)
      | Inr info \<Rightarrow>
          (case Put (storageStore p) w nodename info of
             (w', Inl e) \<Rightarrow> (w', Some e)
           | (w', Inr _) \<Rightarrow> (w', None)))"

section \<open>Reading and repairing\<close>

text \<open>\<open>workloadsUsage\<close>: the sums over the workloads, disks without their mounts.\<close>

definition add_workload :: "WorkloadResource \<Rightarrow> NodeResource \<Rightarrow> NodeResource" where
  "add_workload workload usage = \<lparr>Volumes = plan_volumes (VolumePlanRequest workload) (Volumes usage),
     Disks = disks_Add (Disks usage) (RemoveMounts (DisksRequest workload)),
     Storage = Storage usage + StorageRequest workload\<rparr>"

definition usage_of :: "WorkloadResource list \<Rightarrow> NodeResource" where
  "usage_of workloads = fold add_workload workloads empty_resource"

text \<open>\<open>maps.Copy(maps.Clone(usage.volumes), stored)\<close>: the keys of both.\<close>

definition volume_diffs :: "Volumes \<Rightarrow> Volumes \<Rightarrow> string list" where
  "volume_diffs stored computed =
     concat (map (\<lambda>(volume, _).
       if mget stored volume \<noteq> mget computed volume
       then [''node.Volumes['' @ volume @ ''] != sum(workload.Volumes['' @ volume @ '']): '' @
             show_i64 (mget stored volume) @ '' != '' @ show_i64 (mget computed volume)]
       else []) (fold (\<lambda>(k, v). mput k v) stored computed))"

text \<open>
  The loop over the stored disks. The computed disk gets the stored mounts, in place when the
  workloads use the device.
\<close>

fun disk_diffs :: "Disks \<Rightarrow> Disks \<Rightarrow> string list \<times> Disks" where
  "disk_diffs [] computed = ([], computed)"
| "disk_diffs (disk # stored) computed =
     (let (d, computed') = (case GetDiskByDevice computed (Device disk) of
            Some i \<Rightarrow> ((computed ! i)\<lparr>Mounts := Mounts disk\<rparr>,
                       computed[i := (computed ! i)\<lparr>Mounts := Mounts disk\<rparr>])
          | None \<Rightarrow> (\<lparr>Device = Device disk, Mounts = Mounts disk, dReadIOPS = 0, dWriteIOPS = 0,
                      dReadBPS = 0, dWriteBPS = 0\<rparr>, computed));
          (dfs, computed'') = disk_diffs stored computed'
      in ((if disk_String d \<noteq> disk_String disk
           then [''node.Disks['' @ Device disk @ ''] != sum(workload.Disks['' @ Device disk @ '']): '' @
                 disk_String disk @ '' != '' @ disk_String d]
           else []) @ dfs, computed''))"

definition storage_diffs :: "NodeResource \<Rightarrow> NodeResource \<Rightarrow> string list \<times> NodeResource" where
  "storage_diffs stored usage =
     (let (ds, disks') = disk_diffs (Disks stored) (Disks usage)
      in ((if Storage stored \<noteq> Storage usage
           then [''node.Storage != sum(workload.Storage): '' @ show_i64 (Storage stored) @ '' != '' @ show_i64 (Storage usage)]
           else []) @ volume_diffs (Volumes stored) (Volumes usage) @ ds, usage\<lparr>Disks := disks'\<rparr>))"

definition storage_getNodeResourceInfo :: "('w, 'r, 'f) StoragePlugin \<Rightarrow> 'w \<Rightarrow> string \<Rightarrow> 'r option list \<Rightarrow>
    (NodeResourceInfo \<times> NodeResource \<times> string list) res" where
  "storage_getNodeResourceInfo p w nodename workloadsResource =
     bind_res (Get (storageStore p) w nodename) (\<lambda>info.
     bind_res (parse_workloads p workloadsResource) (\<lambda>workloads.
       let (dfs, usage) = storage_diffs (Usage info) (usage_of workloads)
       in Inr (info, usage, dfs)))"

record InfoResponse =
  respCapacity :: NodeResource
  respUsage :: NodeResource
  respDiffs :: "string list"

definition info_response :: "NodeResourceInfo \<Rightarrow> string list \<Rightarrow> InfoResponse" where
  "info_response info dfs = \<lparr>respCapacity = Capacity info, respUsage = Usage info, respDiffs = dfs\<rparr>"

definition storage_GetNodeResourceInfo :: "('w, 'r, 'f) StoragePlugin \<Rightarrow> 'w \<Rightarrow> string \<Rightarrow> 'r option list \<Rightarrow> InfoResponse res" where
  "storage_GetNodeResourceInfo p w nodename workloadsResource =
     bind_res (storage_getNodeResourceInfo p w nodename workloadsResource) (\<lambda>(info, _, dfs).
       Inr (info_response info dfs))"

definition storage_FixNodeResource :: "('w, 'r, 'f) StoragePlugin \<Rightarrow> 'w \<Rightarrow> string \<Rightarrow> 'r option list \<Rightarrow> 'w \<times> InfoResponse res" where
  "storage_FixNodeResource p w nodename workloadsResource =
     (case storage_getNodeResourceInfo p w nodename workloadsResource of
        Inl e \<Rightarrow> (w, Inl e)
      | Inr (info, usage, dfs) \<Rightarrow>
          if dfs = [] then (w, Inr (info_response info dfs))
          else (case Put (storageStore p) w nodename (info\<lparr>Usage := usage\<rparr>) of
                  (w', Inl e) \<Rightarrow> (w', Inl e)
                | (w', Inr info') \<Rightarrow> (w', Inr (info_response info' dfs))))"

definition storage_GetNodesResourceInfo :: "('w, 'r, 'f) StoragePlugin \<Rightarrow> 'w \<Rightarrow> string list \<Rightarrow>
    (string, NodeResource \<times> NodeResource) gomap res" where
  "storage_GetNodesResourceInfo p w nodenames =
     bind_res (GetMulti (storageStore p) w nodenames) (\<lambda>infos.
       Inr (map (\<lambda>(nodename, info). (nodename, (Capacity info, Usage info))) infos))"

definition storage_GetMostIdleNode :: "string list \<Rightarrow> (string \<times> i64) res" where
  "storage_GetMostIdleNode nodenames =
     (case nodenames of [] \<Rightarrow> Inl ErrEmptyNodeName | nodename # _ \<Rightarrow> Inr (nodename, 1))"

section \<open>Metrics\<close>

definition storage_metric :: "NodeRef \<Rightarrow> string \<Rightarrow> string \<Rightarrow> i64 \<Rightarrow> Metrics" where
  "storage_metric node name suffix n = \<lparr>mName = name, mLabels = [Podname node, Nodename node], mValue = show_i64 n,
     mKey = ''core.node.'' @ replace_char (Nodename node) CHR ''.'' ''_'' @ suffix\<rparr>"

fun storage_metrics :: "(string, NodeResourceInfo) gomap \<Rightarrow> NodeRef list \<Rightarrow> Metrics list res" where
  "storage_metrics infos [] = Inr []"
| "storage_metrics infos (node # nodes) =
     (case map_of infos (Nodename node) of
        None \<Rightarrow> Inl ErrPanic
      | Some info \<Rightarrow> bind_res (storage_metrics infos nodes) (\<lambda>metrics.
          Inr ([storage_metric node ''storage_used'' ''.storage.used'' (Storage (Usage info)),
                storage_metric node ''storage_capacity'' ''.storage.capacity'' (Storage (Capacity info))] @ metrics)))"

definition storage_GetMetrics :: "('w, 'r, 'f) StoragePlugin \<Rightarrow> 'w \<Rightarrow> NodeRef list \<Rightarrow> Metrics list res" where
  "storage_GetMetrics p w nodes =
     bind_res (GetMulti (storageStore p) w (map Nodename nodes)) (\<lambda>infos. storage_metrics infos nodes)"

definition storage_GetMetricsDescription :: "(string \<times> string \<times> string \<times> string list) list" where
  "storage_GetMetricsDescription =
     [(''storage_used'', ''node used storage.'', ''gauge'', [''podname'', ''nodename'']),
      (''storage_capacity'', ''node available storage.'', ''gauge'', [''podname'', ''nodename''])]"

end
