(* ===== verification/Node_Props.thy ===== *)
theory Node_Props
  imports Node Disk_Props
begin

text \<open>
  The resource record of a storage node as a ledger: \<open>Add\<close> and \<open>Sub\<close> add and subtract sizes per
  volume, quotas per disk and the storage total. \<open>Validate\<close> keeps usage within capacity.
\<close>

section \<open>Volumes\<close>

lemma vols_Add_simps: "vols_Add v [] = v" "vols_Add v ((k, n) # w) = vols_Add (mput k (mget v k + n) v) w"
  by (simp_all add: vols_Add_def)

lemma vols_Sub_simps: "vols_Sub v [] = v" "vols_Sub v ((k, n) # w) = vols_Sub (mput k (mget v k - n) v) w"
  by (simp_all add: vols_Sub_def)

lemma mget_notin: "k \<notin> fst ` set m \<Longrightarrow> mget m k = 0"
  by (simp add: mget_def map_of_eq_None_iff [symmetric])

lemma wf_vols_Add [simp]: "wf_map v \<Longrightarrow> wf_map (vols_Add v w)"
  by (induction w arbitrary: v) (auto simp: vols_Add_simps)

lemma wf_vols_Sub [simp]: "wf_map v \<Longrightarrow> wf_map (vols_Sub v w)"
  by (induction w arbitrary: v) (auto simp: vols_Sub_simps)

lemma mget_vols_Add: "wf_map w \<Longrightarrow> mget (vols_Add v w) k = mget v k + mget w k"
  by (induction w arbitrary: v) (auto simp: vols_Add_simps mget_notin)

lemma mget_vols_Sub: "wf_map w \<Longrightarrow> mget (vols_Sub v w) k = mget v k - mget w k"
  by (induction w arbitrary: v) (auto simp: vols_Sub_simps mget_notin)

interpretation volume_ledger: ledger vols_Add vols_Sub mget wf_map
  by unfold_locales (simp_all add: mget_vols_Add mget_vols_Sub)

section \<open>Node resources\<close>

text \<open>The kinds of thing a node resource counts.\<close>

datatype item = VolumeSize string | DiskQuotaOf string quota_kind | StorageSize

fun nr_amount :: "NodeResource \<Rightarrow> item \<Rightarrow> i64" where
  "nr_amount n (VolumeSize device) = mget (Volumes n) device"
| "nr_amount n (DiskQuotaOf device k) = disks_amount (Disks n) (device, k)"
| "nr_amount n StorageSize = Storage n"

definition wf_resource :: "NodeResource \<Rightarrow> bool" where
  "wf_resource n \<longleftrightarrow> wf_map (Volumes n) \<and> wf_disks (Disks n)"

interpretation node_ledger: ledger nr_Add nr_Sub nr_amount wf_resource
proof
  fix r s :: NodeResource and k :: item
  assume "wf_resource r" "wf_resource s"
  then have wf: "wf_map (Volumes r)" "wf_map (Volumes s)" "wf_disks (Disks r)" "wf_disks (Disks s)"
    by (simp_all add: wf_resource_def)
  show "nr_amount (nr_Add r s) k = nr_amount r k + nr_amount s k"
    using wf by (cases k) (simp_all add: nr_Add_def volume_ledger.amount_add disk_ledger.amount_add)
  show "nr_amount (nr_Sub r s) k = nr_amount r k - nr_amount s k"
    using wf by (cases k) (simp_all add: nr_Sub_def volume_ledger.amount_sub disk_ledger.amount_sub)
  show "wf_resource (nr_Add r s)" "wf_resource (nr_Sub r s)"
    using wf by (simp_all add: wf_resource_def nr_Add_def nr_Sub_def disk_ledger.wf_add disk_ledger.wf_sub)
qed

lemma wf_empty_resource [simp]: "wf_resource empty_resource" "nr_amount empty_resource k = 0"
  by (simp add: wf_resource_def empty_resource_def wf_disks_def) (cases k; simp add: empty_resource_def)

lemma nr_DeepCopy_id [simp]: "nr_DeepCopy n = n"
  by (simp add: nr_DeepCopy_def disks_DeepCopy_def)

section \<open>Validation\<close>

lemma validateVolume_None:
  "validateVolume capacity usage = None \<longleftrightarrow>
    (\<forall>(k, v) \<in> set capacity. 0 \<le> v \<and> (case map_of usage k of Some u \<Rightarrow> 0 \<le> u \<and> u \<le> v | None \<Rightarrow> True))"
  by (induction capacity usage rule: validateVolume.induct) (auto split: option.splits)

lemma validateVolume_mget:
  assumes "validateVolume capacity usage = None" "wf_map capacity" "device \<in> fst ` set capacity"
  shows "0 \<le> mget usage device \<and> mget usage device \<le> mget capacity device"
proof -
  obtain v where v: "(device, v) \<in> set capacity" using assms(3) by auto
  then have "mget capacity device = v" by (rule mget_mem [OF assms(2)])
  moreover have "0 \<le> v" "case map_of usage device of Some u \<Rightarrow> 0 \<le> u \<and> u \<le> v | None \<Rightarrow> True"
    using assms(1) v unfolding validateVolume_None by fast+
  ultimately show ?thesis by (simp add: mget_def split: option.splits)
qed

text \<open>What the loop over the capacity disks leaves of the usage: devices and quotas as they were.\<close>

definition quotas_of_disk :: "Disk \<Rightarrow> string \<times> (quota_kind \<Rightarrow> i64)" where
  "quotas_of_disk d = (Device d, quota d)"

lemma quotas_mounts: "quotas_of_disk (d\<lparr>Mounts := m\<rparr>) = quotas_of_disk d"
  by (simp add: quotas_of_disk_def fun_eq_iff all_quota_kind)

lemma check_capacity_disks_keeps:
  "check_capacity_disks capacity usage = Inr usage' \<Longrightarrow> map quotas_of_disk usage' = map quotas_of_disk usage"
proof (induction capacity usage arbitrary: usage' rule: check_capacity_disks.induct)
  case (2 disk capacity usage)
  show ?case
  proof (cases "GetDiskByDevice usage (Device disk)")
    case (Some i)
    let ?u = "usage[i := (usage ! i)\<lparr>Mounts := Mounts disk\<rparr>]"
    have "map quotas_of_disk ?u = map quotas_of_disk usage"
      using GetDiskByDevice_SomeD [OF Some] by (simp add: map_update quotas_mounts list_update_same_conv)
    moreover have "map quotas_of_disk usage' = map quotas_of_disk ?u"
      using 2 Some by (auto simp: Let_def split: if_splits)
    ultimately show ?thesis by simp
  qed (use 2 in \<open>auto split: if_splits\<close>)
qed simp

lemma disks_amount_quotas:
  "map quotas_of_disk ds = map quotas_of_disk ds' \<Longrightarrow> disks_amount ds dk = disks_amount ds' dk"
proof (induction ds arbitrary: ds')
  case (Cons d ds)
  then obtain e es where "ds' = e # es" "quotas_of_disk d = quotas_of_disk e" "map quotas_of_disk ds = map quotas_of_disk es"
    by (cases ds') auto
  moreover from this have "disks_amount ds dk = disks_amount es dk" by (intro Cons.IH)
  ultimately show ?case by (cases dk) (auto simp: quotas_of_disk_def)
qed simp

lemma map_Device_quotas: "map quotas_of_disk ds = map quotas_of_disk ds' \<Longrightarrow> map Device ds = map Device ds'"
proof -
  assume "map quotas_of_disk ds = map quotas_of_disk ds'"
  then have "map fst (map quotas_of_disk ds) = map fst (map quotas_of_disk ds')" by (rule arg_cong)
  then show ?thesis by (simp add: quotas_of_disk_def comp_def)
qed

lemma quota_negative_iff: "quota_negative d \<longleftrightarrow> (\<exists>k. quota d k < 0)"
  using all_quota_kind [of "\<lambda>k. \<not> quota d k < 0"] by (auto simp: quota_negative_def)

lemma quota_exceeds_iff: "quota_exceeds u d \<longleftrightarrow> (\<exists>k. quota d k < quota u k)"
  using all_quota_kind [of "\<lambda>k. \<not> quota d k < quota u k"] by (auto simp: quota_exceeds_def)

lemma quota_nonzero_iff: "quota_nonzero d \<longleftrightarrow> (\<exists>k. quota d k \<noteq> 0)"
  using all_quota_kind [of "\<lambda>k. quota d k = 0"] by (auto simp: quota_nonzero_def)

lemma check_capacity_disks_bounds:
  "check_capacity_disks capacity usage = Inr usage' \<Longrightarrow> disk \<in> set capacity \<Longrightarrow>
   0 \<le> disks_amount usage (Device disk, k) \<and> disks_amount usage (Device disk, k) \<le> quota disk k \<and> 0 \<le> quota disk k"
proof (induction capacity usage arbitrary: usage' rule: check_capacity_disks.induct)
  case (2 d capacity usage)
  have nn: "\<not> quota_negative d" using 2(3) by (auto split: if_splits)
  show ?case
  proof (cases "GetDiskByDevice usage (Device d)")
    case None
    have "check_capacity_disks capacity usage = Inr usage'" using 2(3) nn None by simp
    moreover have "disks_amount usage (Device d, k) = 0" using None by (simp add: disks_amount_def)
    moreover have "0 \<le> quota d k" using nn by (simp add: quota_negative_iff not_less)
    ultimately show ?thesis using 2(1) [OF nn None] 2(4) by auto
  next
    case (Some i)
    let ?u = "usage[i := (usage ! i)\<lparr>Mounts := Mounts d\<rparr>]"
    have run: "check_capacity_disks capacity ?u = Inr usage'" "\<not> quota_negative (usage ! i)" "\<not> quota_exceeds (usage ! i) d"
      using 2(3) Some nn by (auto simp: Let_def split: if_splits)
    have "map quotas_of_disk ?u = map quotas_of_disk usage"
      using GetDiskByDevice_SomeD [OF Some] by (simp add: map_update quotas_mounts list_update_same_conv)
    then have "disks_amount ?u (Device disk, k) = disks_amount usage (Device disk, k)" by (rule disks_amount_quotas)
    moreover have "disks_amount usage (Device d, k) = quota (usage ! i) k" using Some by (simp add: disks_amount_def)
    ultimately show ?thesis
      using 2(2) [OF nn Some refl _ _ run(1)] run(2,3) nn 2(4)
      by (auto simp: quota_negative_iff quota_exceeds_iff not_less)
  qed
qed simp

lemma disks_amount_mset: "wf_disks ds \<Longrightarrow> mset ds = mset ds' \<Longrightarrow> disks_amount ds dk = disks_amount ds' dk"
proof -
  assume wf: "wf_disks ds" and ms: "mset ds = mset ds'"
  have wf': "wf_disks ds'"
    using wf mset_eq_imp_distinct_iff [of "map Device ds" "map Device ds'"] ms by (simp add: wf_disks_def)
  obtain dev k where dk: "dk = (dev, k)" by fastforce
  show ?thesis
  proof (cases "dev \<in> Device ` set ds")
    case True
    then obtain d where d: "d \<in> set ds" "dev = Device d" by blast
    then have "d \<in> set ds'" using ms by (metis set_mset_mset)
    then show ?thesis using disks_amount_member [OF wf d(1)] disks_amount_member [OF wf'] d(2) dk by simp
  next
    case False
    then have "dev \<notin> Device ` set ds'" using ms by (metis set_mset_mset)
    with False show ?thesis by (simp add: dk disks_amount_absent)
  qed
qed

lemma sort_disks_facts: "mset (sort_disks ds) = mset ds" "wf_disks ds \<Longrightarrow> wf_disks (sort_disks ds)"
  "wf_disks ds \<Longrightarrow> disks_amount (sort_disks ds) dk = disks_amount ds dk"
proof -
  show ms: "mset (sort_disks ds) = mset ds" by (simp add: sort_disks_def)
  show wf: "wf_disks ds \<Longrightarrow> wf_disks (sort_disks ds)"
    using mset_eq_imp_distinct_iff [of "map Device (sort_disks ds)" "map Device ds"] ms by (simp add: wf_disks_def)
  show "wf_disks ds \<Longrightarrow> disks_amount (sort_disks ds) dk = disks_amount ds dk"
    using disks_amount_mset [OF wf ms] .
qed

lemma disks_amount_filter:
  "wf_disks ds \<Longrightarrow> disks_amount (filter (\<lambda>d. P (Device d)) ds) (dev, k) = (if P dev then disks_amount ds (dev, k) else 0)"
  by (induction ds) (auto simp: wf_disks_def disks_amount_absent)

lemma validateDisks_bounds:
  assumes "validateDisks capacity usage = Inr usage'" "wf_disks capacity" "wf_disks usage"
  shows "wf_disks usage'" "disks_amount usage' dk = disks_amount usage dk"
    "0 \<le> disks_amount usage' dk" "disks_amount usage' dk \<le> disks_amount capacity dk"
proof -
  let ?P = "\<lambda>dev. GetDiskByDevice capacity dev \<noteq> None"
  obtain u where u: "check_capacity_disks capacity usage = Inr u"
    "\<not> list_ex (\<lambda>disk. GetDiskByDevice capacity (Device disk) = None \<and> quota_nonzero disk) u"
    "usage' = filter (\<lambda>disk. ?P (Device disk)) u"
    using assms(1) by (auto simp: validateDisks_def bind_res_Inr_iff split: if_splits)
  have ks: "map quotas_of_disk u = map quotas_of_disk usage" by (rule check_capacity_disks_keeps [OF u(1)])
  have wf: "wf_disks u" using map_Device_quotas [OF ks] assms(3) by (simp add: wf_disks_def)
  then show "wf_disks usage'" by (simp add: u(3) wf_disks_def distinct_map_filter)
  obtain dev k where dk: "dk = (dev, k)" by fastforce
  have am: "disks_amount u dk = disks_amount usage dk" by (rule disks_amount_quotas [OF ks])
  have zero: "disks_amount u dk = 0" if "\<not> ?P dev"
  proof (cases "dev \<in> Device ` set u")
    case True
    then obtain d where d: "d \<in> set u" "dev = Device d" by blast
    then have "quota d k = 0" using u(2) that by (auto simp: list_ex_iff quota_nonzero_iff)
    moreover have "disks_amount u (Device d, k) = quota d k" by (rule disks_amount_member [OF wf d(1)])
    ultimately show ?thesis using d dk by simp
  qed (simp add: dk disks_amount_absent)
  show eq: "disks_amount usage' dk = disks_amount usage dk"
    using zero am unfolding u(3) dk disks_amount_filter [OF wf, of ?P dev k] by auto
  have "0 \<le> disks_amount usage' dk \<and> disks_amount usage' dk \<le> disks_amount capacity dk"
  proof (cases "?P dev")
    case True
    then obtain i where i: "GetDiskByDevice capacity dev = Some i" by blast
    then have d: "capacity ! i \<in> set capacity" "dev = Device (capacity ! i)" "disks_amount capacity dk = quota (capacity ! i) k"
      using GetDiskByDevice_SomeD [OF i] by (auto simp: dk disks_amount_def)
    from check_capacity_disks_bounds [OF u(1) d(1), of k] show ?thesis using d(2,3) eq by (simp add: dk)
  next
    case False
    then have "dev \<notin> Device ` set capacity" by (simp add: GetDiskByDevice_None_iff)
    with False zero am eq show ?thesis by (simp add: dk disks_amount_absent)
  qed
  then show "0 \<le> disks_amount usage' dk" "disks_amount usage' dk \<le> disks_amount capacity dk" by simp_all
qed

section \<open>Capacity bounds usage\<close>

text \<open>
  Usage within capacity: every disk quota, and every volume the capacity has, is used at most as
  far as it goes; no amount is negative. A volume only the usage knows, and the storage total of
  the usage against that of the capacity, are not compared by the code.
\<close>

definition info_ok :: "NodeResourceInfo \<Rightarrow> bool" where
  "info_ok info \<longleftrightarrow> wf_resource (Capacity info) \<and> wf_resource (Usage info) \<and>
     (\<forall>device k. 0 \<le> disks_amount (Disks (Usage info)) (device, k) \<and>
        disks_amount (Disks (Usage info)) (device, k) \<le> disks_amount (Disks (Capacity info)) (device, k)) \<and>
     (\<forall>device \<in> fst ` set (Volumes (Capacity info)).
        0 \<le> mget (Volumes (Usage info)) device \<and>
        mget (Volumes (Usage info)) device \<le> mget (Volumes (Capacity info)) device) \<and>
     0 \<le> Storage (Capacity info) \<and> 0 \<le> Storage (Usage info)"

lemma info_Validate_parts:
  assumes "info_Validate (Some c) (Some u) = Inr info"
  obtains ds where "validateDisks (sort_disks (Disks c)) (sort_disks (Disks u)) = Inr ds"
    "validateVolume (Volumes c) (Volumes u) = None" "validateStorage c u = None"
    "info = \<lparr>Capacity = c\<lparr>Disks := sort_disks (Disks c)\<rparr>, Usage = u\<lparr>Disks := ds\<rparr>\<rparr>"
  using assms that
  by (auto simp: info_Validate_def Let_def validateStorage_def split: option.splits sum.splits if_splits)

lemma info_Validate_establishes:
  assumes "info_Validate (Some c) (Some u) = Inr info" "wf_resource c" "wf_resource u"
  shows "info_ok info" "nr_amount (Capacity info) i = nr_amount c i" "nr_amount (Usage info) i = nr_amount u i"
proof -
  from assms(1) obtain ds where d: "validateDisks (sort_disks (Disks c)) (sort_disks (Disks u)) = Inr ds"
    "validateVolume (Volumes c) (Volumes u) = None" "validateStorage c u = None"
    "info = \<lparr>Capacity = c\<lparr>Disks := sort_disks (Disks c)\<rparr>, Usage = u\<lparr>Disks := ds\<rparr>\<rparr>"
    by (rule info_Validate_parts)
  have wf: "wf_map (Volumes c)" "wf_map (Volumes u)" "wf_disks (Disks c)" "wf_disks (Disks u)"
    using assms(2,3) by (simp_all add: wf_resource_def)
  note b = validateDisks_bounds [OF d(1) sort_disks_facts(2) [OF wf(3)] sort_disks_facts(2) [OF wf(4)]]
  show "info_ok info"
    using b sort_disks_facts wf validateVolume_mget [OF d(2) wf(1)] d(3)
    by (auto simp: info_ok_def d(4) wf_resource_def validateStorage_def not_less split: if_splits)
  show "nr_amount (Capacity info) i = nr_amount c i" "nr_amount (Usage info) i = nr_amount u i"
    using b(2) sort_disks_facts(3) wf by (cases i; simp add: d(4))+
qed

section \<open>Validation is a normal form\<close>

text \<open>The loop over the capacity disks in one step: a check of each, and the mounts they give.\<close>

definition set_mounts :: "Disks \<Rightarrow> Disk \<Rightarrow> Disk" where
  "set_mounts capacity d =
     (case GetDiskByDevice capacity (Device d) of Some i \<Rightarrow> d\<lparr>Mounts := Mounts (capacity ! i)\<rparr> | None \<Rightarrow> d)"

definition disk_within :: "Disks \<Rightarrow> Disk \<Rightarrow> bool" where
  "disk_within usage disk \<longleftrightarrow>
     (\<forall>k. 0 \<le> quota disk k \<and> 0 \<le> disks_amount usage (Device disk, k) \<and> disks_amount usage (Device disk, k) \<le> quota disk k)"

lemma update_is_map:
  assumes "wf_disks ds" "GetDiskByDevice ds dev = Some i"
  shows "ds[i := f (ds ! i)] = map (\<lambda>d. if Device d = dev then f d else d) ds"
proof (rule nth_equalityI)
  fix j assume j: "j < length (ds[i := f (ds ! i)])"
  have i: "i < length ds" "Device (ds ! i) = dev" using GetDiskByDevice_SomeD [OF assms(2)] by auto
  have "Device (ds ! j) = dev \<longleftrightarrow> j = i"
    using assms(1) i j nth_eq_iff_index_eq [of "map Device ds" j i] by (simp add: wf_disks_def)
  with i j show "ds[i := f (ds ! i)] ! j = map (\<lambda>d. if Device d = dev then f d else d) ds ! j" by auto
qed simp

lemma set_mounts_Cons:
  assumes "Device disk \<notin> Device ` set capacity"
  shows "set_mounts (disk # capacity) d =
    set_mounts capacity (if Device d = Device disk then d\<lparr>Mounts := Mounts disk\<rparr> else d)"
proof -
  have none: "GetDiskByDevice capacity (Device disk) = None" using assms by (simp add: GetDiskByDevice_None_iff)
  have "GetDiskByDevice (disk # capacity) dev =
      (if Device disk = dev then Some 0 else map_option Suc (GetDiskByDevice capacity dev))" for dev
    by (simp add: GetDiskByDevice_def)
  then show ?thesis
    using none by (cases "Device d = Device disk") (auto simp: set_mounts_def split: option.splits)
qed

lemma set_mounts_facts [simp]: "Device (set_mounts capacity d) = Device d"
  "quotas_of_disk (set_mounts capacity d) = quotas_of_disk d"
  "set_mounts capacity (set_mounts capacity d) = set_mounts capacity d"
  by (auto simp: set_mounts_def quotas_mounts split: option.splits)

lemma check_capacity_disks_eq:
  "wf_disks capacity \<Longrightarrow> wf_disks usage \<Longrightarrow> check_capacity_disks capacity usage =
     (if \<forall>disk \<in> set capacity. disk_within usage disk then Inr (map (set_mounts capacity) usage) else Inl ErrInvalidDisk)"
proof (induction capacity usage rule: check_capacity_disks.induct)
  case (1 usage)
  have "set_mounts [] d = d" for d by (simp add: set_mounts_def GetDiskByDevice_def)
  then show ?case by (simp add: map_idI)
next
  case (2 disk capacity usage)
  have cap: "wf_disks capacity" "Device disk \<notin> Device ` set capacity"
    using "2.prems"(1) by (auto simp: wf_disks_def)
  show ?case
  proof (cases "quota_negative disk")
    case True
    then have "\<not> disk_within usage disk" by (auto simp: disk_within_def quota_negative_iff not_le)
    then show ?thesis using True by simp
  next
    case nn: False
    show ?thesis
    proof (cases "GetDiskByDevice usage (Device disk)")
      case None
      then have ok: "disk_within usage disk"
        using nn by (simp add: disk_within_def quota_negative_iff disks_amount_def not_less)
      have "set_mounts (disk # capacity) d = set_mounts capacity d" if "d \<in> set usage" for d
      proof -
        have "Device d \<noteq> Device disk" using that None by (metis GetDiskByDevice_None_iff imageI)
        then show ?thesis by (simp add: set_mounts_Cons [OF cap(2)])
      qed
      then have "map (set_mounts (disk # capacity)) usage = map (set_mounts capacity) usage" by simp
      then show ?thesis using "2.IH"(1) [OF nn None cap(1) "2.prems"(2)] nn None ok by simp
    next
      case (Some i)
      let ?u = "usage[i := (usage ! i)\<lparr>Mounts := Mounts disk\<rparr>]"
      have u: "?u = map (\<lambda>d. if Device d = Device disk then d\<lparr>Mounts := Mounts disk\<rparr> else d) usage"
        by (rule update_is_map [OF "2.prems"(2) Some])
      have ks: "map quotas_of_disk ?u = map quotas_of_disk usage" unfolding u by (simp add: quotas_mounts)
      have wf: "wf_disks ?u" using map_Device_quotas [OF ks] "2.prems"(2) unfolding wf_disks_def by metis
      have am: "disk_within ?u d = disk_within usage d" for d
        by (simp add: disk_within_def disks_amount_quotas [OF ks])
      have "disk_within usage disk \<longleftrightarrow> \<not> quota_negative (usage ! i) \<and> \<not> quota_exceeds (usage ! i) disk"
        using nn Some by (auto simp: disk_within_def quota_negative_iff quota_exceeds_iff disks_amount_def not_less)
      moreover have "map (set_mounts capacity) ?u = map (set_mounts (disk # capacity)) usage"
        unfolding u by (simp add: set_mounts_Cons [OF cap(2)])
      ultimately show ?thesis
        using "2.IH"(2) [OF nn Some refl _ _ cap(1) wf] nn Some am by (auto simp: Let_def)
    qed
  qed
qed

lemma validateDisks_eq:
  assumes "wf_disks capacity" "wf_disks usage"
  shows "validateDisks capacity usage =
    (if (\<forall>disk \<in> set capacity. disk_within usage disk) \<and>
        (\<forall>disk \<in> set usage. GetDiskByDevice capacity (Device disk) = None \<longrightarrow> \<not> quota_nonzero disk)
     then Inr (map (set_mounts capacity) (filter (\<lambda>disk. GetDiskByDevice capacity (Device disk) \<noteq> None) usage))
     else Inl ErrInvalidDisk)"
proof -
  have nz: "quota_nonzero (set_mounts capacity d) = quota_nonzero d" for d
    by (auto simp: set_mounts_def quota_nonzero_def split: option.splits)
  have "filter (\<lambda>disk. GetDiskByDevice capacity (Device disk) \<noteq> None) (map (set_mounts capacity) usage) =
      map (set_mounts capacity) (filter (\<lambda>disk. GetDiskByDevice capacity (Device disk) \<noteq> None) usage)"
    by (simp add: filter_map comp_def)
  then show ?thesis
    by (auto simp: validateDisks_def check_capacity_disks_eq [OF assms] list_ex_iff nz)
qed

lemma sort_disks_id: "sorted (map Device ds) \<Longrightarrow> sort_disks ds = ds"
  by (simp add: sort_disks_def sort_key_id)

lemma info_Validate_idem:
  assumes "info_Validate (Some c) (Some u) = Inr info" "wf_resource c" "wf_resource u"
  shows "info_Validate (Some (Capacity info)) (Some (Usage info)) = Inr info"
proof -
  from assms(1) obtain ds where d: "validateDisks (sort_disks (Disks c)) (sort_disks (Disks u)) = Inr ds"
    "validateVolume (Volumes c) (Volumes u) = None" "validateStorage c u = None"
    "info = \<lparr>Capacity = c\<lparr>Disks := sort_disks (Disks c)\<rparr>, Usage = u\<lparr>Disks := ds\<rparr>\<rparr>"
    by (rule info_Validate_parts)
  let ?c = "sort_disks (Disks c)" and ?u = "sort_disks (Disks u)"
  have wf: "wf_disks ?c" "wf_disks ?u" using assms(2,3) sort_disks_facts(2) by (simp_all add: wf_resource_def)
  have ds: "ds = map (set_mounts ?c) (filter (\<lambda>disk. GetDiskByDevice ?c (Device disk) \<noteq> None) ?u)"
    and ok: "\<forall>disk \<in> set ?c. disk_within ?u disk"
    using d(1) by (simp_all add: validateDisks_eq [OF wf] split: if_splits)
  note b = validateDisks_bounds [OF d(1) wf]
  have "sorted (map Device ?u)" "sorted (map Device ?c)" by (simp_all add: sort_disks_def)
  then have srt: "sort_disks ds = ds" "sort_disks ?c = ?c"
    by (intro sort_disks_id; simp add: ds comp_def sorted_filter)+
  have "disk_within ds = disk_within ?u" by (simp add: fun_eq_iff disk_within_def b(2))
  moreover have "GetDiskByDevice ?c (Device disk) \<noteq> None" if "disk \<in> set ds" for disk using that by (auto simp: ds)
  ultimately have "validateDisks ?c ds = Inr (map (set_mounts ?c) ds)"
    using ok by (simp add: validateDisks_eq [OF wf(1) b(1)])
  also have "map (set_mounts ?c) ds = ds" by (simp add: ds)
  finally have "validateDisks ?c ds = Inr ds" .
  moreover have "\<not> Storage c < 0" "\<not> Storage u < 0"
    using d(3) by (auto simp: validateStorage_def split: if_splits)
  ultimately show ?thesis using d(2) srt by (simp add: info_Validate_def d(4) validateStorage_def errors_join_def Let_def)
qed

text \<open>Usage within capacity is all that \<open>Validate\<close> asks for.\<close>

lemma disks_ok_within:
  assumes "wf_disks capacity" "wf_disks usage"
    and "\<forall>device k. 0 \<le> disks_amount usage (device, k) \<and> disks_amount usage (device, k) \<le> disks_amount capacity (device, k)"
  shows "\<exists>ds. validateDisks capacity usage = Inr ds"
proof -
  have "disk_within usage d" if "d \<in> set capacity" for d
    using assms(3) disks_amount_member [OF assms(1) that] order_trans unfolding disk_within_def by metis
  moreover have "\<not> quota_nonzero d" if d: "d \<in> set usage" and none: "GetDiskByDevice capacity (Device d) = None" for d
  proof -
    have "disks_amount capacity (Device d, k) = 0" for k
      using none by (simp add: disks_amount_absent GetDiskByDevice_None_iff)
    then have "quota d k = 0" for k using assms(3) disks_amount_member [OF assms(2) d] by (metis order_antisym)
    then show ?thesis by (simp add: quota_nonzero_iff)
  qed
  ultimately show ?thesis by (simp add: validateDisks_eq [OF assms(1,2)])
qed

lemma info_ok_accepted:
  assumes "info_ok \<lparr>Capacity = c, Usage = u\<rparr>"
  shows "\<exists>info. info_Validate (Some c) (Some u) = Inr info"
proof -
  have wf: "wf_disks (Disks c)" "wf_disks (Disks u)" "wf_map (Volumes c)"
    using assms by (simp_all add: info_ok_def wf_resource_def)
  have "\<exists>ds. validateDisks (sort_disks (Disks c)) (sort_disks (Disks u)) = Inr ds"
    by (rule disks_ok_within) (use assms wf sort_disks_facts in \<open>simp_all add: info_ok_def\<close>)
  moreover have "0 \<le> v \<and> (case map_of (Volumes u) k of Some x \<Rightarrow> 0 \<le> x \<and> x \<le> v | None \<Rightarrow> True)"
    if "(k, v) \<in> set (Volumes c)" for k v
  proof -
    have "k \<in> fst ` set (Volumes c)" using that by force
    then have "0 \<le> mget (Volumes u) k \<and> mget (Volumes u) k \<le> mget (Volumes c) k"
      using assms unfolding info_ok_def by auto
    then show ?thesis
      using mget_mem [OF wf(3) that] by (auto simp: mget_def split: option.splits)
  qed
  then have "validateVolume (Volumes c) (Volumes u) = None" by (auto simp: validateVolume_None)
  moreover have "\<not> Storage c < 0" "\<not> Storage u < 0" using assms by (simp_all add: info_ok_def not_less)
  ultimately show ?thesis
    by (auto simp: info_Validate_def validateStorage_def errors_join_def Let_def)
qed

lemma info_ok_revalidates:
  "info_ok info \<Longrightarrow> \<exists>info'. info_Validate (Some (Capacity info)) (Some (Usage info)) = Inr info'"
  by (cases info) (simp add: info_ok_accepted)

lemma info_Validate_accepts:
  assumes "info_Validate (Some c) (Some u) = Inr info" "wf_resource c" "wf_resource u"
  shows "info_ok \<lparr>Capacity = c, Usage = u\<rparr>"
proof -
  obtain ds where d: "info = \<lparr>Capacity = c\<lparr>Disks := sort_disks (Disks c)\<rparr>, Usage = u\<lparr>Disks := ds\<rparr>\<rparr>"
    using assms(1) by (rule info_Validate_parts)
  note e = info_Validate_establishes [OF assms]
  have am: "disks_amount (Disks (Capacity info)) (dev, k) = disks_amount (Disks c) (dev, k)"
    "disks_amount (Disks (Usage info)) (dev, k) = disks_amount (Disks u) (dev, k)" for dev k
    using e(2,3) [of "DiskQuotaOf dev k"] by simp_all
  show ?thesis using e(1) assms(2,3) am unfolding info_ok_def by (simp add: d)
qed

text \<open>
  C19: \<open>NodeResourceInfo.Validate\<close> accepts exactly the records within capacity: no quota and no
  volume of the capacity is used beyond what it has, and nothing is negative. It changes no amount of
  capacity or usage, and a record it has normalised it accepts again and leaves alone.
\<close>

theorem info_Validate_normal_form:
  assumes "wf_resource c" "wf_resource u"
  shows "case info_Validate (Some c) (Some u) of
      Inl _ \<Rightarrow> \<not> info_ok \<lparr>Capacity = c, Usage = u\<rparr>
    | Inr info \<Rightarrow> info_ok \<lparr>Capacity = c, Usage = u\<rparr> \<and> info_ok info \<and>
        (\<forall>i. nr_amount (Capacity info) i = nr_amount c i \<and> nr_amount (Usage info) i = nr_amount u i) \<and>
        info_Validate (Some (Capacity info)) (Some (Usage info)) = Inr info"
proof (cases "info_Validate (Some c) (Some u)")
  case (Inl e)
  then show ?thesis using info_ok_accepted [of c u] by auto
next
  case (Inr info)
  then show ?thesis
    using info_Validate_establishes [OF Inr assms] info_Validate_idem [OF Inr assms]
      info_Validate_accepts [OF Inr assms] by simp
qed

theorem info_Validate_normal_form_witness:
  "\<exists>info. info_Validate
      (Some \<lparr>Volumes = [(''/a'', 10)], Disks = [\<lparr>Device = ''sdb'', Mounts = [''/b''], dReadIOPS = 5, dWriteIOPS = 5,
          dReadBPS = 5, dWriteBPS = 5\<rparr>], Storage = 10\<rparr>)
      (Some \<lparr>Volumes = [(''/a'', 3)], Disks = [\<lparr>Device = ''sdb'', Mounts = [], dReadIOPS = 5, dWriteIOPS = 0,
          dReadBPS = 0, dWriteBPS = 0\<rparr>], Storage = 3\<rparr>) = Inr info \<and> info_ok info"
proof -
  let ?c = "\<lparr>Volumes = [(''/a'', 10)], Disks = [\<lparr>Device = ''sdb'', Mounts = [''/b''], dReadIOPS = 5, dWriteIOPS = 5,
          dReadBPS = 5, dWriteBPS = 5\<rparr>], Storage = 10\<rparr>"
  let ?u = "\<lparr>Volumes = [(''/a'', 3)], Disks = [\<lparr>Device = ''sdb'', Mounts = [], dReadIOPS = 5, dWriteIOPS = 0,
          dReadBPS = 0, dWriteBPS = 0\<rparr>], Storage = 3\<rparr>"
  have "case info_Validate (Some ?c) (Some ?u) of Inr _ \<Rightarrow> True | Inl _ \<Rightarrow> False" by code_simp
  then obtain info where run: "info_Validate (Some ?c) (Some ?u) = Inr info" by (auto split: sum.splits)
  have "wf_resource ?c" "wf_resource ?u" by code_simp+
  from info_Validate_normal_form [OF this] run show ?thesis by simp
qed

end
