(* ===== verification/Deploy_Safety.thy ===== *)
theory Deploy_Safety
  imports Plan_Safety Storage_Node Node_Props Samples
begin

text \<open>
  Deploying end to end: the workloads \<open>CalculateDeploy\<close> hands out, recorded as usage by
  \<open>SetNodeResourceUsage\<close>, leave the node within its capacity.
\<close>

section \<open>What workloads add to usage\<close>

lemma plan_volumes_simps [simp]: "plan_volumes [] v = v"
  "plan_volumes ((vb, vm) # p) v = plan_volumes p (vols_Add v vm)"
  by (simp_all add: plan_volumes_def)

lemma plan_volumes_facts:
  "single p \<Longrightarrow> wf_map v \<Longrightarrow>
   wf_map (plan_volumes p v) \<and> mget (plan_volumes p v) d = mget v d + plan_use p d"
proof (induction p arbitrary: v)
  case (Cons e p)
  obtain vb dev s where e: "e = (vb, [(dev, s)])" using Cons.prems(1) by (cases e) auto
  have v: "vols_Add v [(dev, s)] = mput dev (mget v dev + s) v" by (simp add: vols_Add_def)
  have wf: "wf_map (mput dev (mget v dev + s) v)" by (rule wf_map_put [OF Cons.prems(2)])
  then show ?case
    using Cons.IH [OF _ wf] Cons.prems by (auto simp: e v GetDevice_def GetSize_def)
qed simp

lemma workload_usage_amounts:
  assumes "single (VolumePlanRequest w)" "wf_disks (DisksRequest w)"
  shows "wf_resource (workload_usage w)"
    "nr_amount (workload_usage w) (VolumeSize d) = plan_use (VolumePlanRequest w) d"
    "nr_amount (workload_usage w) (DiskQuotaOf d k) = disks_amount (DisksRequest w) (d, k)"
    "nr_amount (workload_usage w) StorageSize = StorageRequest w"
  using assms plan_volumes_facts [OF assms(1), of "[]"] by (simp_all add: workload_usage_def wf_resource_def)

lemma nr_apply_eq: "nr_apply True n = (\<lambda>r. nr_Add r n)" "nr_apply False n = (\<lambda>r. nr_Sub r n)"
  by (simp_all add: nr_apply_def fun_eq_iff)

lemma record_usage:
  "storage_calculateNodeResource None None (Some u) ws True True = fold (\<lambda>s r. nr_Add r s) (map workload_usage ws) u"
  "storage_calculateNodeResource None None (Some u) ws True False = fold (\<lambda>s r. nr_Sub r s) (map workload_usage ws) u"
  by (simp_all add: storage_calculateNodeResource_def nr_apply_eq fold_map comp_def)

lemma sum_list_of_int: "sum_list (map f xs) = (of_int (sum_list (map (\<lambda>x. val (f x)) xs)) :: i64)"
  by (induction xs) simp_all

section \<open>The workloads of an allocation\<close>

lemma alloc_all_spec:
  "alloc_all ds req vps dps = Inr (eps, ws) \<Longrightarrow>
   map VolumePlanRequest ws = vps \<and> length vps \<le> length dps \<and> map DisksRequest ws = take (length vps) dps \<and>
   (\<forall>w \<in> set ws. StorageRequest w = rStorageRequest req \<and> VolumesRequest w = rVolumesRequest req) \<and>
   length eps = length ws"
proof (induction ds req vps dps arbitrary: eps ws rule: alloc_all.induct)
  case (3 ds req vp vps dp dps)
  then obtain e w es ws' where one: "alloc_one ds req vp dp = Inr (e, w)" "alloc_all ds req vps dps = Inr (es, ws')"
    "eps = e # es" "ws = w # ws'"
    by (auto simp: bind_res_Inr_iff)
  have "VolumePlanRequest w = vp" "DisksRequest w = dp" "StorageRequest w = rStorageRequest req"
    "VolumesRequest w = rVolumesRequest req"
    using one(1) by (auto simp: alloc_one_def bind_res_Inr_iff Let_def)
  with 3(1) [OF one(2)] one show ?case by simp
qed auto

lemma storage_doAlloc_spec:
  assumes "storage_doAlloc info n req = Inr (eps, ws)" "node_ok info" "requests_ok (rVolumesRequest req)"
    and "int (length (Volumes (Capacity info))) < MaxInt"
  shows "length ws = nat (val n)" "length eps = length ws"
    "\<forall>w \<in> set ws. single (VolumePlanRequest w) \<and> wf_disks (DisksRequest w) \<and> StorageRequest w = rStorageRequest req \<and>
       VolumesRequest w = rVolumesRequest req \<and> 0 \<le> val (plan_use (VolumePlanRequest w) d) \<and> 0 \<le> val (disks_amount (DisksRequest w) dk)"
    "0 \<le> given (map VolumePlanRequest ws) d"
    "0 < given (map VolumePlanRequest ws) d \<Longrightarrow> d \<in> fst ` set (Volumes (Capacity info)) \<and>
       given (map VolumePlanRequest ws) d \<le> val (mget (Volumes (Capacity info)) d - mget (Volumes (Usage info)) d)"
    "0 \<le> quota_given (map DisksRequest ws) dk"
    "0 < quota_given (map DisksRequest ws) dk \<Longrightarrow> quota_given (map DisksRequest ws) dk
       \<le> val (disks_amount (Disks (Capacity info)) dk - disks_amount (Disks (Usage info)) dk)"
proof -
  obtain vps dps where plans: "storage_plans info n req = Inr (vps, dps)"
    and all: "alloc_all (Disks (Capacity info)) req vps dps = Inr (eps, ws)"
    using assms(1) by (auto simp: storage_doAlloc_def bind_res_Inr_iff split: if_splits)
  note sp = alloc_all_spec [OF all]
  have max: "val n \<le> MaxInt" using val_less [of n] by (simp add: MaxInt_def)
  have facts: "length vps = nat (val n) \<and> length dps = length vps \<and> (\<forall>p \<in> set vps. single p \<and> 0 \<le> val (plan_use p d)) \<and>
      (\<forall>q \<in> set dps. wf_disks q \<and> 0 \<le> val (disks_amount q dk)) \<and> 0 \<le> given vps d \<and> (0 < given vps d \<longrightarrow> d \<in> fst ` set (Volumes (Capacity info)) \<and>
         given vps d \<le> val (mget (Volumes (Capacity info)) d - mget (Volumes (Usage info)) d)) \<and>
      0 \<le> quota_given dps dk \<and> (0 < quota_given dps dk \<longrightarrow>
         quota_given dps dk \<le> val (disks_amount (Disks (Capacity info)) dk - disks_amount (Disks (Usage info)) dk))"
  proof (cases "NeedSchedule (rVolumesRequest req)")
    case False
    then have "vps = replicate (nat (val n)) []" "dps = replicate (nat (val n)) []"
      using plans by (auto simp: storage_plans_def)
    then show ?thesis by auto
  next
    case True
    then have run: "GetVolumePlans info (rVolumesRequest req) (val n) = Inr (vps, dps)" "\<not> int (length vps) < val n"
      using plans by (auto simp: storage_plans_def bind_res_Inr_iff split: if_splits)
    note acc = GetVolumePlans_accounts [OF run(1) assms(2,3) max assms(4)]
    have "length dps = length vps"
      using GetVolumePlans_counts [OF run(1)] assms(4) by simp
    then show ?thesis using acc run(2) by auto
  qed
  have w: "map VolumePlanRequest ws = vps" "map DisksRequest ws = dps" using sp facts by simp_all
  show "length ws = nat (val n)" using facts w(1) by (metis length_map)
  show "length eps = length ws" using sp by blast
  have "single (VolumePlanRequest x) \<and> wf_disks (DisksRequest x) \<and> 0 \<le> val (plan_use (VolumePlanRequest x) d) \<and>
      0 \<le> val (disks_amount (DisksRequest x) dk)" if "x \<in> set ws" for x
    using that facts w by (metis image_eqI list.set_map)
  with sp show "\<forall>w \<in> set ws. single (VolumePlanRequest w) \<and> wf_disks (DisksRequest w) \<and>
      StorageRequest w = rStorageRequest req \<and> VolumesRequest w = rVolumesRequest req \<and>
      0 \<le> val (plan_use (VolumePlanRequest w) d) \<and> 0 \<le> val (disks_amount (DisksRequest w) dk)" by blast
  show "0 \<le> given (map VolumePlanRequest ws) d"
    "0 < given (map VolumePlanRequest ws) d \<Longrightarrow> d \<in> fst ` set (Volumes (Capacity info)) \<and>
       given (map VolumePlanRequest ws) d \<le> val (mget (Volumes (Capacity info)) d - mget (Volumes (Usage info)) d)"
    "0 \<le> quota_given (map DisksRequest ws) dk"
    "0 < quota_given (map DisksRequest ws) dk \<Longrightarrow> quota_given (map DisksRequest ws) dk
       \<le> val (disks_amount (Disks (Capacity info)) dk - disks_amount (Disks (Usage info)) dk)"
    unfolding w using facts by blast+
qed

section \<open>Recording them keeps the node within capacity\<close>

lemma add_given:
  assumes "0 \<le> u" "u \<le> c" "0 \<le> G" "0 < G \<Longrightarrow> G \<le> val (c - u)"
  shows "0 \<le> u + of_int G \<and> u + of_int G \<le> c \<and> val (u + of_int G) = val u + G"
proof (cases "G = 0")
  case False
  then have G: "0 < G" "G \<le> val c - val u" using assms by (simp_all add: val_diff_le)
  then have r: "in_range (val u + G)" "in_range G"
    using val_less [of c] assms(1) unfolding in_range_def i64_le_iff by simp_all
  then have "val (u + of_int G) = val u + G" by (simp add: val_add val_of_int)
  with G assms(1) show ?thesis by (simp add: i64_le_iff)
qed (use assms in simp)

lemma storage_room:
  assumes "\<not> storageCapacity info req < n" "0 < rStorageRequest req" "0 < val n"
    and "0 \<le> Storage (Capacity info)" "0 \<le> Storage (Usage info)"
  shows "val n * val (rStorageRequest req) \<le> val (Storage (Capacity info) - Storage (Usage info))"
proof -
  let ?a = "Storage (Capacity info) - Storage (Usage info)" and ?r = "rStorageRequest req"
  have n: "val n \<le> tdiv (val ?a) (val ?r)"
    using assms(1,2) by (simp add: storageCapacity_def val_quot_pos i64_le_iff not_less)
  have r: "0 < val ?r" using assms(2) by (simp add: i64_less_iff)
  have "0 \<le> val ?a"
  proof (rule ccontr)
    assume "\<not> 0 \<le> val ?a"
    then have "tdiv (val ?a) (val ?r) \<le> 0"
      using r by (simp add: tdiv_neg pos_imp_zdiv_nonneg_iff)
    with n assms(3) show False by linarith
  qed
  with n r show ?thesis by (simp add: tdiv_pos le_div_iff_mult_le)
qed

definition deployed :: "NodeResourceInfo \<Rightarrow> WorkloadResource list \<Rightarrow> NodeResourceInfo" where
  "deployed info ws = info\<lparr>Usage := storage_calculateNodeResource None None (Some (Usage info)) ws True True\<rparr>"

text \<open>A record within capacity, amount by amount. Volumes the capacity does not have are not covered.\<close>

definition covered :: "NodeResource \<Rightarrow> item \<Rightarrow> bool" where
  "covered c i \<longleftrightarrow> (\<forall>d. i = VolumeSize d \<longrightarrow> d \<in> fst ` set (Volumes c))"

lemma within_iff:
  "info_ok info \<and> Storage (Usage info) \<le> Storage (Capacity info) \<longleftrightarrow>
     wf_resource (Capacity info) \<and> wf_resource (Usage info) \<and>
     (\<forall>i. covered (Capacity info) i \<longrightarrow> 0 \<le> nr_amount (Usage info) i \<and> nr_amount (Usage info) i \<le> nr_amount (Capacity info) i)"
  (is "?l \<longleftrightarrow> ?wf \<and> ?wf' \<and> (\<forall>i. ?in i)")
proof
  assume l: ?l
  have "?in i" for i
    using l unfolding info_ok_def covered_def by (cases i) auto
  with l show "?wf \<and> ?wf' \<and> (\<forall>i. ?in i)" by (simp add: info_ok_def)
next
  assume r: "?wf \<and> ?wf' \<and> (\<forall>i. ?in i)"
  then have "?in (VolumeSize d)" "?in (DiskQuotaOf d k)" "?in StorageSize" for d k by blast+
  with r show ?l by (auto simp: info_ok_def covered_def intro: order_trans)
qed

text \<open>What workloads hold of an amount, all together.\<close>

definition held_by :: "WorkloadResource list \<Rightarrow> item \<Rightarrow> int" where
  "held_by ws i = sum_list (map (\<lambda>w. val (nr_amount (workload_usage w) i)) ws)"

lemma held_by_simps [simp]: "held_by [] i = 0" "held_by (w # ws) i = val (nr_amount (workload_usage w) i) + held_by ws i"
  "held_by (ws @ ws') i = held_by ws i + held_by ws' i"
  by (simp_all add: held_by_def)

lemma deployed_amounts:
  assumes "\<forall>w \<in> set ws. single (VolumePlanRequest w) \<and> wf_disks (DisksRequest w)" "wf_resource (Usage info)"
  shows "wf_resource (Usage (deployed info ws))"
    "nr_amount (Usage (deployed info ws)) i = nr_amount (Usage info) i + of_int (held_by ws i)"
proof -
  have wfs: "\<forall>s \<in> set (map workload_usage ws). wf_resource s"
    using assms(1) workload_usage_amounts(1) by auto
  show "wf_resource (Usage (deployed info ws))"
    by (simp add: deployed_def record_usage node_ledger.wf_fold_add [OF assms(2) wfs])
  show "nr_amount (Usage (deployed info ws)) i = nr_amount (Usage info) i + of_int (held_by ws i)"
    using node_ledger.amount_fold_add [OF assms(2) wfs, of i]
    by (simp add: deployed_def record_usage held_by_def comp_def sum_list_of_int [of "\<lambda>w. nr_amount (workload_usage w) i"])
qed

lemma alloc_held_by:
  assumes "storage_doAlloc info n req = Inr (eps, ws)" "info_ok info" "requests_ok (rVolumesRequest req)"
    and "int (length (Volumes (Capacity info))) < MaxInt" "0 \<le> rStorageRequest req" "w \<in> set ws"
  shows "0 \<le> val (nr_amount (workload_usage w) i)"
proof -
  have "node_ok info" using assms(2) by (simp add: info_ok_def wf_resource_def node_ok_def)
  note al = storage_doAlloc_spec(3) [OF assms(1) this assms(3,4)]
  have "single (VolumePlanRequest w)" "wf_disks (DisksRequest w)" using al assms(6) by blast+
  note am = workload_usage_amounts [OF this]
  show ?thesis
  proof (cases i)
    case (VolumeSize d)
    then show ?thesis using al [of d] assms(6) am(2) by simp
  next
    case (DiskQuotaOf d k)
    then show ?thesis using al [of _ "(d, k)"] assms(6) am(3) by simp
  next
    case StorageSize
    then show ?thesis using al assms(5,6) am(4) by (simp add: i64_le_iff)
  qed
qed

lemma alloc_room:
  assumes "storage_doAlloc info n req = Inr (eps, ws)" "info_ok info" "requests_ok (rVolumesRequest req)"
    and "int (length (Volumes (Capacity info))) < MaxInt" "0 \<le> rStorageRequest req" "0 < held_by ws i"
  shows "covered (Capacity info) i \<and> held_by ws i \<le> val (nr_amount (Capacity info) i - nr_amount (Usage info) i)"
proof -
  have "node_ok info" using assms(2) by (simp add: info_ok_def wf_resource_def node_ok_def)
  note al = storage_doAlloc_spec [OF assms(1) this assms(3,4)]
  have ws: "single (VolumePlanRequest w)" "wf_disks (DisksRequest w)" "StorageRequest w = rStorageRequest req"
    if "w \<in> set ws" for w using al(3) that by blast+
  have held: "held_by ws i = sum_list (map (\<lambda>w. val (f w)) ws)"
    if "\<And>w. w \<in> set ws \<Longrightarrow> nr_amount (workload_usage w) i = f w" for f
    unfolding held_by_def by (intro arg_cong [of _ _ sum_list] map_cong refl) (simp add: that)
  show ?thesis
  proof (cases i)
    case (VolumeSize d)
    have "held_by ws i = given (map VolumePlanRequest ws) d"
      using held [of "\<lambda>w. plan_use (VolumePlanRequest w) d"] workload_usage_amounts(2) ws VolumeSize
      by (simp add: given_def comp_def)
    then show ?thesis using al(5) assms(6) VolumeSize by (simp add: covered_def)
  next
    case (DiskQuotaOf d k)
    have "held_by ws i = quota_given (map DisksRequest ws) (d, k)"
      using held [of "\<lambda>w. disks_amount (DisksRequest w) (d, k)"] workload_usage_amounts(3) ws DiskQuotaOf
      by (simp add: quota_given_def comp_def)
    then show ?thesis using al(7) assms(6) DiskQuotaOf by (simp add: covered_def)
  next
    case StorageSize
    have h: "held_by ws i = int (length ws) * val (rStorageRequest req)"
      using held [of "\<lambda>w. rStorageRequest req"] workload_usage_amounts(4) ws StorageSize by (simp add: sum_list_triv)
    have "0 \<le> val (rStorageRequest req)" using assms(5) by (simp add: i64_le_iff)
    then have "0 < val (rStorageRequest req)" "length ws \<noteq> 0" using assms(6) h by (auto simp: zero_less_mult_iff)
    then have "0 < rStorageRequest req" "0 < val n" using al(1) by (simp_all add: i64_less_iff)
    moreover have "\<not> storageCapacity info req < n"
      using assms(1) calculation by (auto simp: storage_doAlloc_def split: if_splits)
    ultimately show ?thesis
      using storage_room [of info req n] assms(2) al(1) h StorageSize by (simp add: info_ok_def covered_def)
  qed
qed

lemma deploy_keeps_info_ok:
  assumes "storage_doAlloc info n req = Inr (eps, ws)" "info_ok info" "requests_ok (rVolumesRequest req)"
    and "int (length (Volumes (Capacity info))) < MaxInt" "0 \<le> rStorageRequest req"
    and "Storage (Usage info) \<le> Storage (Capacity info)"
  shows "info_ok (deployed info ws)" "Storage (Usage (deployed info ws)) \<le> Storage (Capacity (deployed info ws))"
    "length ws = nat (val n)"
    "val (nr_amount (Usage (deployed info ws)) i) = val (nr_amount (Usage info) i) + held_by ws i"
proof -
  have wf: "wf_resource (Capacity info)" "wf_resource (Usage info)" "node_ok info"
    using assms(2) by (simp_all add: info_ok_def wf_resource_def node_ok_def)
  note al = storage_doAlloc_spec [OF assms(1) wf(3) assms(3,4)]
  show "length ws = nat (val n)" by (rule al(1))
  note am = deployed_amounts [OF _ wf(2), of ws]
  have single: "\<forall>w \<in> set ws. single (VolumePlanRequest w) \<and> wf_disks (DisksRequest w)" using al(3) by blast
  have nn: "0 \<le> held_by ws i" for i
    unfolding held_by_def using alloc_held_by [OF assms(1-5)] by (intro sum_list_nonneg) auto
  have sum: "0 \<le> nr_amount (Usage info) i + of_int (held_by ws i) \<and>
      nr_amount (Usage info) i + of_int (held_by ws i) \<le> nr_amount (Capacity info) i \<and>
      val (nr_amount (Usage info) i + of_int (held_by ws i)) = val (nr_amount (Usage info) i) + held_by ws i"
    if "covered (Capacity info) i" for i
    using within_iff [of info] assms(2,6) that alloc_room [OF assms(1-5)] by (intro add_given nn) auto
  show "val (nr_amount (Usage (deployed info ws)) i) = val (nr_amount (Usage info) i) + held_by ws i"
  proof (cases "covered (Capacity info) i")
    case False
    then have "held_by ws i = 0" using alloc_room [OF assms(1-5), of i] nn [of i] by (cases "held_by ws i = 0") auto
    then show ?thesis using am(2) [OF single, of i] by simp
  qed (use sum am(2) [OF single] in simp)
  have "info_ok (deployed info ws) \<and> Storage (Usage (deployed info ws)) \<le> Storage (Capacity (deployed info ws))"
    unfolding within_iff using wf sum am [OF single] by (simp add: deployed_def)
  then show "info_ok (deployed info ws)" "Storage (Usage (deployed info ws)) \<le> Storage (Capacity (deployed info ws))" by simp_all
qed

text \<open>
  C6: Deploying keeps a node within capacity. When \<open>doAlloc\<close> serves \<open>deployCount\<close> workloads from a node
  whose usage is within capacity, there are exactly that many of them, and the usage that
  \<open>calculateNodeResource\<close> computes by adding them all is within capacity again: every volume, every
  disk quota and the storage total. \<open>Validate\<close> accepts the record.
\<close>

theorem deploy_keeps_capacity:
  assumes "storage_doAlloc info n req = Inr (eps, ws)" "info_ok info" "requests_ok (rVolumesRequest req)"
    and "int (length (Volumes (Capacity info))) < MaxInt" "0 \<le> rStorageRequest req"
    and "Storage (Usage info) \<le> Storage (Capacity info)"
  shows "length ws = nat (val n) \<and> info_ok (deployed info ws) \<and>
    Storage (Usage (deployed info ws)) \<le> Storage (Capacity (deployed info ws)) \<and>
    (\<exists>info'. info_Validate (Some (Capacity info)) (Some (Usage (deployed info ws))) = Inr info')"
  using deploy_keeps_info_ok(1-3) [OF assms] info_ok_revalidates [of "deployed info ws"]
  by (simp add: deployed_def)

definition sample_request :: WorkloadResourceRequest where
  "sample_request = \<lparr>rVolumesRequest = [sample_normal, sample_mono], rVolumesLimit = [sample_normal, sample_mono],
     rStorageRequest = 40, rStorageLimit = 40, storageFolded = True\<rparr>"

theorem deploy_keeps_capacity_witness:
  "\<exists>eps ws. storage_doAlloc sample_info 2 sample_request = Inr (eps, ws) \<and> length ws = 2 \<and>
    info_ok (deployed sample_info ws)"
proof -
  let ?r = "storage_doAlloc sample_info 2 sample_request"
  have "(case ?r of Inr _ \<Rightarrow> True | Inl _ \<Rightarrow> False)" by code_simp
  then obtain eps ws where r: "?r = Inr (eps, ws)" by (auto split: sum.splits)
  have "info_ok \<lparr>Capacity = Capacity sample_info, Usage = Usage sample_info\<rparr>"
    by (rule info_Validate_accepts [of _ _ "projr (info_Validate (Some (Capacity sample_info)) (Some (Usage sample_info)))"])
      code_simp+
  then have "info_ok sample_info" by (simp add: sample_info_def)
  moreover have "requests_ok (rVolumesRequest sample_request)" "int (length (Volumes (Capacity sample_info))) < MaxInt"
    "0 \<le> rStorageRequest sample_request" "Storage (Usage sample_info) \<le> Storage (Capacity sample_info)" by code_simp+
  ultimately show ?thesis using r deploy_keeps_capacity [OF r] by auto
qed

end
