(* ===== verification/Sample_Plugin.thy ===== *)
theory Sample_Plugin
  imports Storage_Node Samples Store_Props
begin

text \<open>
  A plugin on which the theorems about the verbs are evaluated: an etcd that is a map from keys to
  values, a codec for the records of a finite table (its code for a record is the position there, in
  unary), and raw parameters that are a workload, a node resource or a list of keys and strings.
\<close>

section \<open>Raw parameters\<close>

datatype raw = RawWorkload WorkloadResource | RawNode NodeResource | RawKeys "(string \<times> string list) list"

fun raw_slice :: "raw option \<Rightarrow> string \<Rightarrow> string list" where
  "raw_slice (Some (RawKeys m)) k = (case map_of m k of Some ss \<Rightarrow> ss | None \<Rightarrow> [])"
| "raw_slice _ k = []"

fun raw_is_set :: "raw option \<Rightarrow> string \<Rightarrow> bool" where
  "raw_is_set (Some (RawKeys m)) k = (map_of m k \<noteq> None)"
| "raw_is_set (Some _) k = True"
| "raw_is_set None k = False"

definition sample_params :: "raw option RawParams" where
  "sample_params = \<lparr>parseRAM = ParseInt, rawStringSlice = raw_slice,
     rawSizeInBytes = (\<lambda>r k. case raw_slice r k of [] \<Rightarrow> Inr 0 | s # _ \<Rightarrow> ParseInt s),
     rawIsSet = raw_is_set, rawString = (\<lambda>r k. case raw_slice r k of [] \<Rightarrow> [] | s # _ \<Rightarrow> s)\<rparr>"

definition sample_plugin :: "NodeResourceInfo list \<Rightarrow> ((string, string) gomap, raw, rat) StoragePlugin" where
  "sample_plugin infos = \<lparr>storageStore = storage_newStore (table_store infos NewNodeResourceInfo), MaxDeployCount = 100, mapOrder = (\<lambda>_. 0),
     params = sample_params,
     decodeWorkload = (\<lambda>r. case r of Some (RawWorkload x) \<Rightarrow> Inr x | _ \<Rightarrow> Inl (ErrExternal ''decode'')),
     decodeNode = (\<lambda>r. case r of Some (RawNode n) \<Rightarrow> Inr n | None \<Rightarrow> Inr empty_resource | _ \<Rightarrow> Inl (ErrExternal ''decode'')),
     Divide = (\<lambda>a b. if b = 0 then 0 else a / b)\<rparr>"

text \<open>Two nodes: the first has the sample record.\<close>

definition sample_cluster :: "(string, string) gomap" where
  "sample_cluster = [(''/resource/storage/n1'', []), (''/resource/storage/n2'', ''1'')]"

end
