(* ===== verification/Storage_Verbs.thy ===== *)
theory Storage_Verbs
  imports Deploy_Safety Sample_Plugin
begin

text \<open>
  The verbs of the storage plugin composed through the store: what one call writes the next one
  reads. \<open>storage_on p c\<close> says what the verbs rely on, with \<open>c\<close> the contents of a cluster state.
\<close>

definition storage_on :: "('w, 'r, 'f) StoragePlugin \<Rightarrow> ('w \<Rightarrow> string \<Rightarrow> string option) \<Rightarrow> bool" where
  "storage_on p c \<longleftrightarrow> (\<exists>kv. storageStore p = storage_newStore kv) \<and> etcd_ok (storageStore p) c \<and>
     codec_ok (storageStore p) \<and> reads_ok (storageStore p)"

section \<open>Putting a record\<close>

lemma storage_Put:
  assumes "storage_on p c" "Put (storageStore p) w n info = (w', Inr info')"
  shows "info_Validate (Some (Capacity info)) (Some (Usage info)) = Inr info'" "Get (storageStore p) w' n = Inr info'"
proof -
  show "info_Validate (Some (Capacity info)) (Some (Usage info)) = Inr info'"
    using assms by (auto simp: storage_on_def storage_newStore_def elim!: Put_Inr_E)
  obtain r where "kvGet (storageStore p) w' (key (storageStore p) n) = Inr r"
    using assms(1) unfolding storage_on_def reads_ok_def by blast
  then show "Get (storageStore p) w' n = Inr info'"
    using assms by (intro Get_after_Put [of _ c]) (auto simp: storage_on_def)
qed

lemma storage_Put_amounts:
  assumes "storage_on p c" "Put (storageStore p) w n info = (w', Inr info')"
    and "wf_resource (Capacity info)" "wf_resource (Usage info)"
  shows "info_ok info'" "nr_amount (Capacity info') i = nr_amount (Capacity info) i"
    "nr_amount (Usage info') i = nr_amount (Usage info) i"
  using info_Validate_establishes [OF storage_Put(1) [OF assms(1,2)] assms(3,4)] by simp_all

section \<open>Usage\<close>

lemma wf_workload_usage: "wf_disks (DisksRequest x) \<Longrightarrow> wf_resource (workload_usage x)"
proof -
  have "wf_map (plan_volumes vp v)" if "wf_map v" for vp v
    using that by (induction vp arbitrary: v) auto
  then show "wf_disks (DisksRequest x) \<Longrightarrow> wf_resource (workload_usage x)"
    by (simp add: wf_resource_def workload_usage_def)
qed

lemma SetNodeResourceUsage_workloads:
  assumes on: "storage_on p c" and run: "storage_SetNodeResourceUsage p w n None None rs True incr = (w', Inr (before, now))"
    and ws: "parse_workloads p rs = Inr ws" "\<forall>x \<in> set ws. wf_disks (DisksRequest x)"
    and info: "GetOrEmpty (storageStore p) w n = Inr info" "wf_resource (Capacity info)" "wf_resource (Usage info)"
  shows "before = Usage info"
    "\<exists>info'. Get (storageStore p) w' n = Inr info' \<and> now = Usage info' \<and> info_ok info' \<and>
       (\<forall>i. nr_amount (Capacity info') i = nr_amount (Capacity info) i) \<and>
       (\<forall>i. nr_amount now i =
          nr_amount (fold (\<lambda>s r. if incr then nr_Add r s else nr_Sub r s) (map workload_usage ws) (Usage info)) i)"
proof -
  let ?u = "fold (\<lambda>s r. if incr then nr_Add r s else nr_Sub r s) (map workload_usage ws) (Usage info)"
  have u: "storage_calculateNodeResource None None (Some (Usage info)) ws True incr = ?u"
    by (cases incr) (simp_all add: record_usage)
  have put: "storage_put_part p w n (info\<lparr>Usage := ?u\<rparr>) Usage (Usage info) = (w', Inr (before, now))"
    using run ws(1) info(1) by (simp add: storage_SetNodeResourceUsage_def storage_parseNodeResourceInfos_def u)
  then obtain info' where put': "Put (storageStore p) w n (info\<lparr>Usage := ?u\<rparr>) = (w', Inr info')" "now = Usage info'"
    and before: "before = Usage info"
    by (auto simp: storage_put_part_def split: prod.splits sum.splits)
  show "before = Usage info" by (rule before)
  have wf: "\<forall>s \<in> set (map workload_usage ws). wf_resource s" using ws(2) wf_workload_usage by auto
  then have "wf_resource ?u"
    using node_ledger.wf_fold_add [OF info(3) wf] node_ledger.wf_fold_sub [OF info(3) wf] by (cases incr) simp_all
  then show "\<exists>info'. Get (storageStore p) w' n = Inr info' \<and> now = Usage info' \<and> info_ok info' \<and>
       (\<forall>i. nr_amount (Capacity info') i = nr_amount (Capacity info) i) \<and> (\<forall>i. nr_amount now i = nr_amount ?u i)"
    using storage_Put(2) [OF on put'(1)] storage_Put_amounts [OF on put'(1)] put'(2) info(2) by auto
qed

text \<open>
  C21: Usage round trip. When workloads are added to the usage of a node and then taken away again,
  in whatever order, the usage of every volume, every disk quota and the storage total is what it was
  before the first call, and so is every amount of the capacity.
\<close>

theorem usage_incr_decr_restores:
  assumes "storage_on p c" "GetOrEmpty (storageStore p) w n = Inr info"
    and "wf_resource (Capacity info)" "wf_resource (Usage info)"
    and "parse_workloads p rs = Inr ws" "parse_workloads p rs' = Inr ws'" "mset ws = mset ws'"
    and "\<forall>x \<in> set ws. wf_disks (DisksRequest x)"
    and "storage_SetNodeResourceUsage p w n None None rs True True = (w1, Inr (before, mid))"
    and "storage_SetNodeResourceUsage p w1 n None None rs' True False = (w2, Inr (mid', now))"
  shows "mid' = mid \<and> (\<forall>i. nr_amount now i = nr_amount before i) \<and>
    (\<exists>info2. Get (storageStore p) w2 n = Inr info2 \<and> Usage info2 = now \<and>
       (\<forall>i. nr_amount (Capacity info2) i = nr_amount (Capacity info) i))"
proof -
  have wfs: "\<forall>x \<in> set ws'. wf_disks (DisksRequest x)" using assms(7,8) by (metis set_mset_mset)
  note one = SetNodeResourceUsage_workloads [OF assms(1,9,5,8,2,3,4)]
  obtain info1 where i1: "Get (storageStore p) w1 n = Inr info1" "mid = Usage info1" "info_ok info1"
    "\<And>i. nr_amount (Capacity info1) i = nr_amount (Capacity info) i"
    "\<And>i. nr_amount mid i = nr_amount (fold (\<lambda>s r. nr_Add r s) (map workload_usage ws) (Usage info)) i"
    using one(2) by auto
  have wf1: "wf_resource (Capacity info1)" "wf_resource (Usage info1)" using i1(3) by (simp_all add: info_ok_def)
  note two = SetNodeResourceUsage_workloads [OF assms(1,10,6) wfs Get_GetOrEmpty [OF i1(1)] wf1]
  obtain info2 where i2: "Get (storageStore p) w2 n = Inr info2" "now = Usage info2"
    "\<And>i. nr_amount (Capacity info2) i = nr_amount (Capacity info1) i"
    "\<And>i. nr_amount now i = nr_amount (fold (\<lambda>s r. nr_Sub r s) (map workload_usage ws') (Usage info1)) i"
    using two(2) by auto
  have wf: "\<forall>s \<in> set (map workload_usage ws). wf_resource s" "\<forall>s \<in> set (map workload_usage ws'). wf_resource s"
    using assms(8) wfs wf_workload_usage by auto
  have ms: "mset (map workload_usage ws) = mset (map workload_usage ws')" using assms(7) by simp
  have "nr_amount now i = nr_amount (Usage info) i" for i
    using i2(4) [of i] i1(2) i1(5) [of i] sum_list_mset_eq [OF ms, of "\<lambda>s. nr_amount s i"]
      node_ledger.amount_fold_sub [OF wf1(2) wf(2), of i] node_ledger.amount_fold_add [OF assms(4) wf(1), of i]
    by simp
  then show ?thesis using one(1) two(1) i1(2,4) i2 by simp
qed

text \<open>A small node, a workload on it, and the records that storing and removing it leaves.\<close>

definition small_info :: "i64 \<Rightarrow> Disks \<Rightarrow> NodeResourceInfo" where
  "small_info used disks_used = \<lparr>Capacity = \<lparr>Volumes = [(''/v'', 100)], Disks = [sample_disk], Storage = 100\<rparr>,
     Usage = \<lparr>Volumes = [(''/v'', used)], Disks = disks_used, Storage = used\<rparr>\<rparr>"

definition small_workload :: WorkloadResource where
  "small_workload = \<lparr>VolumesRequest = [sample_normal], VolumesLimit = [sample_normal],
     VolumePlanRequest = [(sample_normal, [(''/v'', 30)])], VolumePlanLimit = [], StorageRequest = 30, StorageLimit = 30,
     DisksRequest = [DiskQuota sample_normal sample_disk], DisksLimit = []\<rparr>"

definition usage_table :: "NodeResourceInfo list" where
  "usage_table = [small_info 0 [], small_info 30 [DiskQuota sample_normal sample_disk],
     small_info 0 [DiskQuota empty_binding sample_disk]]"

lemma sample_plugin_on: "storage_on (sample_plugin infos) map_of"
  using table_store_ok by (auto simp: storage_on_def sample_plugin_def storage_newStore_def)

theorem usage_incr_decr_restores_witness:
  "\<exists>w1 w2 before mid now. storage_SetNodeResourceUsage (sample_plugin usage_table) sample_cluster ''n1'' None None
       [Some (RawWorkload small_workload)] True True = (w1, Inr (before, mid)) \<and>
     storage_SetNodeResourceUsage (sample_plugin usage_table) w1 ''n1'' None None
       [Some (RawWorkload small_workload)] True False = (w2, Inr (mid, now)) \<and>
     Storage mid = 30 \<and> (\<forall>i. nr_amount now i = nr_amount before i)"
proof -
  let ?p = "sample_plugin usage_table" and ?rs = "[Some (RawWorkload small_workload)]"
  let ?one = "storage_SetNodeResourceUsage ?p sample_cluster ''n1'' None None ?rs True True"
  let ?two = "storage_SetNodeResourceUsage ?p (fst ?one) ''n1'' None None ?rs True False"
  have "case snd ?one of Inr (_, mid) \<Rightarrow> Storage mid = 30 | Inl _ \<Rightarrow> False" by code_simp
  then obtain w1 before mid where one: "?one = (w1, Inr (before, mid))" "Storage mid = 30"
    by (cases ?one) (auto split: sum.splits)
  have "case snd ?two of Inr _ \<Rightarrow> True | Inl _ \<Rightarrow> False" by code_simp
  then obtain w2 mid' now where two: "storage_SetNodeResourceUsage ?p w1 ''n1'' None None ?rs True False = (w2, Inr (mid', now))"
    using one(1) by (cases ?two) (auto split: sum.splits)
  have info: "GetOrEmpty (storageStore ?p) sample_cluster ''n1'' = Inr (small_info 0 [])" by code_simp
  have ok: "wf_resource (Capacity (small_info 0 []))" "wf_resource (Usage (small_info 0 []))" "wf_disks (DisksRequest small_workload)"
    by code_simp+
  have rs: "parse_workloads ?p ?rs = Inr [small_workload]" by (simp add: sample_plugin_def)
  show ?thesis
    using usage_incr_decr_restores [OF sample_plugin_on info ok(1,2) rs rs refl _ one(1) two] ok(3) one two by auto
qed

end
