(* ===== verification/Text_Props.thy ===== *)
theory Text_Props
  imports Disk_Props Volume
begin

text \<open>
  What the plugins print they can read back: numbers, disks, volume bindings and the JSON form of
  volume plans.
\<close>

section \<open>Numbers\<close>

lemma parse_digits_append:
  "parse_digits a (s @ t) = (case parse_digits a s of None \<Rightarrow> None | Some b \<Rightarrow> parse_digits b t)"
  by (induction s arbitrary: a) (auto split: option.splits)

lemma digit_val_char: "d < 10 \<Longrightarrow> digit_val (digit_char d) = Some d"
  by (simp add: digit_val_def of_char_digit)

lemma parse_digits_show: "\<exists>b. parse_digits a (show_nat n) = Some b \<and> (a = 0 \<longrightarrow> b = n)"
proof (induction n rule: show_nat.induct)
  case (1 n)
  show ?case
  proof (cases "n < 10")
    case True
    then show ?thesis by (simp add: show_nat.simps [of n] digit_val_char)
  next
    case False
    from "1.IH" [OF this] obtain b where "parse_digits a (show_nat (n div 10)) = Some b" "a = 0 \<longrightarrow> b = n div 10" by blast
    with False show ?thesis
      by (simp add: show_nat.simps [of n] parse_digits_append digit_val_char)
  qed
qed

lemma show_nat_nonempty [simp]: "show_nat n \<noteq> []"
  by (subst show_nat.simps) simp

lemma parse_show_nat: "parse_nat (show_nat n) = Some n"
  using parse_digits_show [of 0 n] by (auto simp: parse_nat_def)

lemma show_nat_hd: "show_nat n = c # s \<Longrightarrow> c \<noteq> CHR ''-'' \<and> c \<noteq> CHR ''+''"
  using show_nat_digits [of c n] by auto

lemma ParseInt_show [simp]: "ParseInt (show_i64 a) = Inr a"
proof (cases "a < 0")
  case True
  then have "val a < 0" by (simp add: i64_less_iff)
  then show ?thesis using True by (simp add: ParseInt_def show_i64_def parse_show_nat)
next
  case False
  then have "0 \<le> val a" by (simp add: i64_less_iff)
  moreover obtain c s where cs: "show_nat (nat (val a)) = c # s" by (meson list.exhaust show_nat_nonempty)
  ultimately show ?thesis
    using False show_nat_hd [OF cs] parse_show_nat [of "nat (val a)"] by (simp add: ParseInt_def show_i64_def)
qed

lemma show_i64_inject [simp]: "show_i64 a = show_i64 b \<longleftrightarrow> a = b"
  by (metis ParseInt_show sum.inject(2))

section \<open>Disks\<close>

definition no_char :: "char \<Rightarrow> string \<Rightarrow> bool" where
  "no_char c s \<longleftrightarrow> c \<notin> set s"

definition printable_disk :: "Disk \<Rightarrow> bool" where
  "printable_disk d \<longleftrightarrow> no_char CHR '':'' (Device d) \<and> Mounts d \<noteq> [] \<and>
     list_all (\<lambda>m. no_char CHR '':'' m \<and> no_char CHR '','' m) (Mounts d)"

lemma set_join_with: "set (join_with sep ps) \<subseteq> set sep \<union> \<Union> (set ` set ps)"
  by (induction sep ps rule: join_with.induct) auto

text \<open>
  C32: Reading a printed disk gives the disk back, when its device and its mount points (one at least)
  hold no separator. What is relied on of core's \<open>ParseRAMInHuman\<close> is that it reads a plain number of
  bytes as that number.
\<close>

theorem disk_print_parse:
  assumes "printable_disk d" "\<And>a. ram (show_i64 a) = Inr a"
  shows "disk_Parse ram (disk_String d) = Inr d"
proof -
  have "CHR '':'' \<notin> set (join_with '','' (Mounts d))"
    using assms(1) set_join_with [of "'',''" "Mounts d"]
    by (auto simp: printable_disk_def no_char_def list_all_iff)
  then have parts: "split_at CHR '':'' (disk_String d) = [Device d, join_with '','' (Mounts d), show_i64 (dReadIOPS d),
     show_i64 (dWriteIOPS d), show_i64 (dReadBPS d), show_i64 (dWriteBPS d)]"
    unfolding disk_String_def using assms(1) by (intro split_at_join) (auto simp: printable_disk_def no_char_def)
  have "split_at CHR '','' (join_with '','' (Mounts d)) = Mounts d"
    using assms(1) by (intro split_at_join) (auto simp: printable_disk_def no_char_def list_all_iff)
  then show ?thesis by (simp add: disk_Parse_def parts assms(2))
qed

theorem disk_print_parse_witness:
  "disk_Parse ParseInt (disk_String \<lparr>Device = ''sda'', Mounts = [''/'', ''/data''], dReadIOPS = 10, dWriteIOPS = - 3,
      dReadBPS = 0, dWriteBPS = 1073741824\<rparr>) =
    Inr \<lparr>Device = ''sda'', Mounts = [''/'', ''/data''], dReadIOPS = 10, dWriteIOPS = - 3, dReadBPS = 0, dWriteBPS = 1073741824\<rparr>"
  by (rule disk_print_parse) (simp_all add: printable_disk_def no_char_def)

text \<open>Two disks with the same device and mounts print alike only when their quotas agree.\<close>

lemma disk_String_quotas:
  assumes "disk_String d = disk_String e" "Device d = Device e" "Mounts d = Mounts e"
  shows "d = e"
proof -
  let ?q = "\<lambda>d. [show_i64 (dReadIOPS d), show_i64 (dWriteIOPS d), show_i64 (dReadBPS d), show_i64 (dWriteBPS d)]"
  have "split_at CHR '':'' (join_with '':'' (?q d)) = split_at CHR '':'' (join_with '':'' (?q e))"
    using assms by (simp add: disk_String_def)
  moreover have "split_at CHR '':'' (join_with '':'' (?q d)) = ?q d" for d by (intro split_at_join) auto
  ultimately have "?q d = ?q e" by metis
  then show ?thesis using assms(2,3) by (cases d, cases e) simp
qed

section \<open>Volume bindings\<close>

text \<open>
  Flags with an \<open>o\<close> say \<open>only\<close>: there is one, for one of \<open>r\<close> and \<open>w\<close>. They are kept sorted and printed
  with the \<open>o\<close> after the letter it belongs to.
\<close>

definition plain_mode :: "string \<Rightarrow> bool" where
  "plain_mode flags \<longleftrightarrow> no_char CHR ''o'' flags \<or>
     count_char flags CHR ''o'' = 1 \<and> count_char flags CHR ''r'' + count_char flags CHR ''w'' = 1"

definition printable_binding :: "VolumeBinding \<Rightarrow> bool" where
  "printable_binding vb \<longleftrightarrow> no_char CHR '':'' (Source vb) \<and> no_char CHR '':'' (Destination vb) \<and> no_char CHR '':'' (Flags vb) \<and>
     Destination vb \<noteq> [] \<and> Flags vb \<noteq> [] \<and> plain_mode (Flags vb) \<and> ascii (Flags vb) \<and> sorted (Flags vb)"

lemma sorted_singletons: "sorted fs \<Longrightarrow> sorted (map (\<lambda>c. [c]) fs)" for fs :: string
  by (induction fs) (auto simp: le_less)

lemma parse_flags_permuted:
  assumes "mset s = mset flags" "flags \<noteq> []" "ascii flags" "sorted flags"
  shows "parse_flags s = flags"
proof -
  have "ascii s" using assms(3) mset_eq_setD [OF assms(1)] by (simp add: ascii_def list_all_iff)
  moreover have "sort (map (\<lambda>c. [c]) s) = map (\<lambda>c. [c]) flags"
    by (rule properties_for_sort) (simp_all add: assms(1) sorted_singletons [OF assms(4)])
  ultimately show ?thesis using assms(2) by (simp add: parse_flags_def explode_ascii Let_def)
qed

lemma print_flags_mset:
  assumes "plain_mode flags"
  shows "mset (print_flags False flags) = mset flags"
proof -
  let ?g = "\<lambda>s. replace_char (replace_char (replace_char s CHR ''o'' []) CHR ''r'' ''ro'') CHR ''w'' ''wo''"
  have "mset (?g s) + replicate_mset (count_char s CHR ''o'') CHR ''o'' =
      mset s + replicate_mset (count_char s CHR ''r'' + count_char s CHR ''w'') CHR ''o''" for s
    by (induction s) (simp_all add: replace_char_def count_char_def)
  from this [of flags] show ?thesis
    using assms by (auto simp: print_flags_def plain_mode_def no_char_def contains_char_def)
qed

lemma NewVolumeBinding_print:
  assumes "printable_binding vb" "\<And>a. ram (show_i64 a) = Inr a"
  shows "NewVolumeBinding ram (vb_ToString False vb) = Inr vb"
proof -
  have flags: "mset (print_flags False (Flags vb)) = mset (Flags vb)"
    using assms(1) by (intro print_flags_mset) (simp add: printable_binding_def)
  have parts: "split_at CHR '':'' (vb_ToString False vb) = [Source vb, Destination vb, print_flags False (Flags vb), show_i64 (SizeInBytes vb),
     show_i64 (ReadIOPS vb), show_i64 (WriteIOPS vb), show_i64 (ReadBPS vb), show_i64 (WriteBPS vb)]"
    unfolding vb_ToString_def using assms(1) mset_eq_setD [OF flags]
    by (simp only: not_False_eq_True simp_thms if_True, intro split_at_join) (auto simp: printable_binding_def no_char_def)
  have "parse_flags (print_flags False (Flags vb)) = Flags vb"
    using assms(1) by (intro parse_flags_permuted [OF flags]) (simp_all add: printable_binding_def)
  then show ?thesis
    using assms(1)
    by (simp add: NewVolumeBinding_def parts pad_parts_def assms(2) vb_Validate_def printable_binding_def)
qed

text \<open>
  With an \<open>o\<close> and both \<open>r\<close> and \<open>w\<close> the printed form spells it out after each of them, and reading that
  back gives other flags, hence another map key.
\<close>

lemma flags_with_o_change:
  "NewVolumeBinding ParseInt (vb_ToString False
      (empty_binding\<lparr>Source := ''AUTO'', Destination := ''/a'', Flags := ''orw''\<rparr>)) =
    Inr (empty_binding\<lparr>Source := ''AUTO'', Destination := ''/a'', Flags := ''oorw''\<rparr>)"
  by code_simp

section \<open>The JSON form of a plan\<close>

lemma mput_fresh: "k \<notin> fst ` set m \<Longrightarrow> mput k v m = m @ [(k, v)]"
  unfolding mput_def by (induction m) auto

definition json_entry :: "VolumeBinding \<times> Volumes \<Rightarrow> string \<times> Volumes" where
  "json_entry = (\<lambda>(vb, vm). (vb_ToString False vb, vm))"

lemma plan_MarshalJSON_map:
  assumes "distinct (map (\<lambda>e. vb_ToString False (fst e)) p)"
  shows "plan_MarshalJSON p = map json_entry p"
proof -
  have "fold (\<lambda>(vb, vmap) m. mput (vb_ToString False vb) vmap m) p acc = acc @ map json_entry p"
    if "distinct (map (\<lambda>e. vb_ToString False (fst e)) p)"
      "fst ` set acc \<inter> (\<lambda>e. vb_ToString False (fst e)) ` set p = {}" for acc
    using that
  proof (induction p arbitrary: acc)
    case (Cons e p)
    then show ?case
      using Cons.IH [of "acc @ [json_entry e]"]
      by (cases e) (auto simp: mput_fresh json_entry_def)
  qed simp
  from this [OF assms, of "[]"] show ?thesis by (simp add: plan_MarshalJSON_def)
qed

lemma plan_UnmarshalJSON_map:
  "\<forall>e \<in> set q. NewVolumeBinding ram (vb_ToString False (fst e)) = Inr (fst e) \<Longrightarrow> set m \<subseteq> json_entry ` set q \<Longrightarrow>
   plan_UnmarshalJSON ram p m = Inr (p @ map (\<lambda>(s, vm). (projr (NewVolumeBinding ram s), vm)) m)"
proof (induction ram p m rule: plan_UnmarshalJSON.induct)
  case (2 ram p volume vmap m)
  then obtain vb where "NewVolumeBinding ram volume = Inr vb" by (force simp: json_entry_def)
  with 2 show ?case by simp
qed simp

text \<open>
  C31: The JSON round trip of a volume plan: whatever the order in which the decoder meets the keys, the
  plan it builds has the entries of the plan that was written, when the bindings are different ones
  and printable: a destination, no separator within the parts, flags sorted as \<open>NewVolumeBinding\<close>
  leaves them, and an \<open>o\<close> only as in \<open>ro\<close> or \<open>wo\<close>.
\<close>

theorem plan_json_roundtrip:
  assumes "\<forall>e \<in> set plan. printable_binding (fst e)" "distinct (map fst plan)" "\<And>a. ram (show_i64 a) = Inr a"
    and "same_map m (plan_MarshalJSON plan)" "wf_map m"
  shows "\<exists>plan'. plan_UnmarshalJSON ram [] m = Inr plan' \<and> mset plan' = mset plan"
proof -
  have parse: "NewVolumeBinding ram (vb_ToString False (fst e)) = Inr (fst e)" if "e \<in> set plan" for e
    using assms(1,3) that by (intro NewVolumeBinding_print) auto
  then have "inj_on (vb_ToString False) (fst ` set plan)" by (intro inj_onI) (metis imageE sum.inject(2))
  then have dist: "distinct (map (\<lambda>e. vb_ToString False (fst e)) plan)"
    using assms(2) by (auto simp: distinct_map inj_on_def)
  note json = plan_MarshalJSON_map [OF dist]
  have "wf_map (map json_entry plan)"
    using dist by (simp add: wf_map_def json_entry_def comp_def case_prod_unfold)
  then have ms: "mset m = mset (map json_entry plan)"
    using assms(4,5) by (simp add: json same_map_mset)
  then have sub: "set m \<subseteq> json_entry ` set plan" by (metis order_refl set_map set_mset_mset)
  let ?g = "\<lambda>(s, vm). (projr (NewVolumeBinding ram s), vm)"
  have "mset (map ?g m) = mset (map (?g \<circ> json_entry) plan)"
    using arg_cong [OF ms, of "image_mset ?g"] by (simp add: multiset.map_comp)
  also have "(?g \<circ> json_entry) e = e" if "e \<in> set plan" for e
    using parse [OF that] by (cases e) (simp add: json_entry_def)
  then have "map (?g \<circ> json_entry) plan = plan" by (intro map_idI)
  finally show ?thesis using plan_UnmarshalJSON_map [OF _ sub, of ram "[]"] parse by simp
qed

theorem plan_json_roundtrip_witness:
  "\<exists>plan'. plan_UnmarshalJSON ParseInt [] (rev (plan_MarshalJSON
      [(empty_binding\<lparr>Source := ''AUTO'', Destination := ''/a'', Flags := ''or''\<rparr>, [(''/v'', 10)]),
       (empty_binding\<lparr>Source := ''AUTO'', Destination := ''/b'', Flags := ''mrw''\<rparr>, [(''/w'', 20)])])) = Inr plan' \<and>
    length plan' = 2"
proof -
  let ?plan = "[(empty_binding\<lparr>Source := ''AUTO'', Destination := ''/a'', Flags := ''or''\<rparr>, [(''/v'', 10 :: i64)]),
       (empty_binding\<lparr>Source := ''AUTO'', Destination := ''/b'', Flags := ''mrw''\<rparr>, [(''/w'', 20)])]"
  have pr: "\<forall>e \<in> set ?plan. printable_binding (fst e)" "distinct (map fst ?plan)" by code_simp+
  have "distinct (map fst (plan_MarshalJSON ?plan))" by code_simp
  then have m: "same_map (rev (plan_MarshalJSON ?plan)) (plan_MarshalJSON ?plan)" "wf_map (rev (plan_MarshalJSON ?plan))"
    by (simp_all add: same_map_def wf_map_def rev_map [symmetric] map_of_inject_set)
  obtain plan' where "plan_UnmarshalJSON ParseInt [] (rev (plan_MarshalJSON ?plan)) = Inr plan'" "mset plan' = mset ?plan"
    using plan_json_roundtrip [OF pr ParseInt_show m] by blast
  then show ?thesis using mset_eq_length [of plan' ?plan] by auto
qed

end
