(* ===== verification/Storage_Fix.thy ===== *)
theory Storage_Fix
  imports Storage_Verbs Text_Props
begin

text \<open>
  Comparing the stored usage of a node with the sums over its workloads, and repairing it.
\<close>

section \<open>The sums over the workloads\<close>

definition wf_workload :: "WorkloadResource \<Rightarrow> bool" where
  "wf_workload x \<longleftrightarrow> wf_disks (DisksRequest x) \<and> list_all (\<lambda>(_, vm). wf_map vm) (VolumePlanRequest x)"

lemma plan_volumes_mget:
  "list_all (\<lambda>(_, vm). wf_map vm) plan \<Longrightarrow> mget (plan_volumes plan v) d = mget v d + mget (plan_volumes plan []) d"
proof (induction plan arbitrary: v)
  case (Cons e plan)
  obtain vb vm where e: "e = (vb, vm)" "wf_map vm" using Cons.prems by (cases e) auto
  show ?case
    using Cons.IH [of "vols_Add v vm"] Cons.IH [of "vols_Add [] vm"] Cons.prems
    by (simp add: e mget_vols_Add add.assoc)
qed simp

lemma RemoveMounts_facts: "wf_disks ds \<Longrightarrow> wf_disks (RemoveMounts ds)"
  "disks_amount (RemoveMounts ds) dk = disks_amount ds dk"
proof -
  have "map quotas_of_disk (RemoveMounts ds) = map quotas_of_disk ds"
    by (simp add: RemoveMounts_def disks_DeepCopy_def quotas_mounts comp_def)
  then show "disks_amount (RemoveMounts ds) dk = disks_amount ds dk" "wf_disks ds \<Longrightarrow> wf_disks (RemoveMounts ds)"
    using disks_amount_quotas map_Device_quotas unfolding wf_disks_def by metis+
qed

lemma add_workload_amounts:
  assumes "wf_workload x" "wf_resource u"
  shows "wf_resource (add_workload x u)" "nr_amount (add_workload x u) i = nr_amount u i + nr_amount (workload_usage x) i"
proof -
  have x: "wf_disks (RemoveMounts (DisksRequest x))" "wf_resource (workload_usage x)"
    using assms(1) RemoveMounts_facts(1) wf_workload_usage by (auto simp: wf_workload_def)
  have u: "wf_disks (Disks u)" "wf_map (Volumes u)" using assms(2) by (simp_all add: wf_resource_def)
  have "wf_map (plan_volumes vp v)" if "wf_map v" for vp v
    using that by (induction vp arbitrary: v) auto
  then show "wf_resource (add_workload x u)"
    using x u by (simp add: wf_resource_def add_workload_def disk_ledger.wf_add)
  show "nr_amount (add_workload x u) i = nr_amount u i + nr_amount (workload_usage x) i"
    using assms(1) u(1) x(1) plan_volumes_mget [of "VolumePlanRequest x" "Volumes u"]
    by (cases i) (simp_all add: add_workload_def workload_usage_def wf_workload_def disk_ledger.amount_add RemoveMounts_facts(2))
qed

lemma usage_of_amounts:
  assumes "\<forall>x \<in> set ws. wf_workload x"
  shows "wf_resource (usage_of ws)" "nr_amount (usage_of ws) i = sum_list (map (\<lambda>x. nr_amount (workload_usage x) i) ws)"
proof -
  have "wf_resource (fold add_workload ws u) \<and>
      nr_amount (fold add_workload ws u) i = nr_amount u i + sum_list (map (\<lambda>x. nr_amount (workload_usage x) i) ws)"
    if "wf_resource u" for u
    using assms that by (induction ws arbitrary: u) (simp_all add: add_workload_amounts add.assoc)
  from this [of empty_resource]
  show "wf_resource (usage_of ws)" "nr_amount (usage_of ws) i = sum_list (map (\<lambda>x. nr_amount (workload_usage x) i) ws)"
    by (simp_all add: usage_of_def)
qed

section \<open>Differences\<close>

lemma volume_diffs_empty: "volume_diffs stored computed = [] \<longleftrightarrow> (\<forall>v. mget stored v = mget computed v)"
proof -
  let ?m = "fold (\<lambda>(k, v). mput k v) stored computed"
  have keys: "fst ` set (fold (\<lambda>(k, v). mput k v) stored m) = fst ` set stored \<union> fst ` set m" for m :: Volumes
  proof (induction stored arbitrary: m)
    case (Cons e stored)
    obtain k v where "e = (k, v)" by fastforce
    moreover have "fst ` set (mput k v m) = insert k (fst ` set m)" by (simp flip: dom_map_of_conv_image_fst)
    ultimately show ?case using Cons.IH by auto
  qed simp
  have "volume_diffs stored computed = [] \<longleftrightarrow> (\<forall>v \<in> fst ` set ?m. mget stored v = mget computed v)"
    by (auto simp: volume_diffs_def split_def split: if_splits)
  also have "\<dots> \<longleftrightarrow> (\<forall>v. mget stored v = mget computed v)"
    using keys mget_notin by (metis UnI1 UnI2)
  finally show ?thesis .
qed

lemma disk_diffs_keeps: "map quotas_of_disk (snd (disk_diffs stored computed)) = map quotas_of_disk computed"
proof (induction stored computed rule: disk_diffs.induct)
  case (2 disk stored computed)
  show ?case
  proof (cases "GetDiskByDevice computed (Device disk)")
    case (Some i)
    let ?c = "computed[i := (computed ! i)\<lparr>Mounts := Mounts disk\<rparr>]"
    have "map quotas_of_disk ?c = map quotas_of_disk computed"
      using GetDiskByDevice_SomeD [OF Some] by (simp add: map_update quotas_mounts list_update_same_conv)
    with 2 Some show ?thesis by (simp add: split_def Let_def)
  qed (use 2 in \<open>simp add: split_def Let_def\<close>)
qed simp

lemma disk_diffs_empty:
  "fst (disk_diffs stored computed) = [] \<longleftrightarrow>
    (\<forall>d \<in> set stored. \<forall>k. quota d k = disks_amount computed (Device d, k))"
proof (induction stored computed rule: disk_diffs.induct)
  case (2 disk stored computed)
  show ?case
  proof (cases "GetDiskByDevice computed (Device disk)")
    case None
    let ?d = "\<lparr>Device = Device disk, Mounts = Mounts disk, dReadIOPS = 0, dWriteIOPS = 0, dReadBPS = 0, dWriteBPS = 0\<rparr>"
    have "disk_String ?d = disk_String disk \<longleftrightarrow> ?d = disk" using disk_String_quotas [of ?d disk] by auto
    also have "\<dots> \<longleftrightarrow> (\<forall>k. quota disk k = 0)" by (cases disk) (auto simp: all_quota_kind)
    finally show ?thesis using 2 None by (auto simp: split_def Let_def disks_amount_def)
  next
    case (Some i)
    let ?d = "(computed ! i)\<lparr>Mounts := Mounts disk\<rparr>"
    let ?c = "computed[i := ?d]"
    have i: "Device (computed ! i) = Device disk" "i < length computed" using GetDiskByDevice_SomeD [OF Some] by auto
    have "map quotas_of_disk ?c = map quotas_of_disk computed"
      using i by (simp add: map_update quotas_mounts list_update_same_conv)
    then have am: "disks_amount ?c dk = disks_amount computed dk" for dk by (rule disks_amount_quotas)
    have "disk_String ?d = disk_String disk \<longleftrightarrow> ?d = disk" using disk_String_quotas [of ?d disk] i by auto
    also have "\<dots> \<longleftrightarrow> (\<forall>k. quota disk k = quota (computed ! i) k)"
      using i by (cases disk, cases "computed ! i") (auto simp: all_quota_kind)
    finally show ?thesis using 2 Some am by (auto simp: split_def Let_def disks_amount_def)
  qed
qed simp

lemma storage_diffs_empty:
  "fst (storage_diffs stored usage) = [] \<longleftrightarrow>
     Storage stored = Storage usage \<and> (\<forall>v. mget (Volumes stored) v = mget (Volumes usage) v) \<and>
     (\<forall>d \<in> set (Disks stored). \<forall>k. quota d k = disks_amount (Disks usage) (Device d, k))"
  by (auto simp: storage_diffs_def split_def Let_def volume_diffs_empty disk_diffs_empty)

text \<open>
  The comparison as the code makes it: the loop over the disks is one over those the stored usage lists, so
  what the workloads take of a disk that is not listed is not compared (\<open>absent_disk_not_reported\<close>).
\<close>

lemma no_diffs_compared:
  assumes "Get (storageStore p) w n = Inr info" "parse_workloads p rs = Inr ws" "\<forall>x \<in> set ws. wf_workload x"
  shows "map_sum id respDiffs (storage_GetNodeResourceInfo p w n rs) = Inr [] \<longleftrightarrow>
    Storage (Usage info) = sum_list (map StorageRequest ws) \<and>
    (\<forall>v. mget (Volumes (Usage info)) v = sum_list (map (\<lambda>x. mget (plan_volumes (VolumePlanRequest x) []) v) ws)) \<and>
    (\<forall>d \<in> set (Disks (Usage info)). \<forall>k. quota d k = sum_list (map (\<lambda>x. disks_amount (DisksRequest x) (Device d, k)) ws))"
proof -
  note sums = usage_of_amounts(2) [OF assms(3)]
  have "map_sum id respDiffs (storage_GetNodeResourceInfo p w n rs) = Inr [] \<longleftrightarrow>
      fst (storage_diffs (Usage info) (usage_of ws)) = []"
    using assms(1,2)
    by (simp add: storage_GetNodeResourceInfo_def storage_getNodeResourceInfo_def split_def Let_def info_response_def)
  then show ?thesis
    using sums [of StorageSize] sums [of "VolumeSize v" for v] sums [of "DiskQuotaOf dev k" for dev k]
    by (simp add: storage_diffs_empty workload_usage_def)
qed

lemma absent_disk_not_reported:
  assumes "Get (storageStore p) w n = Inr info" "parse_workloads p rs = Inr ws" "\<forall>x \<in> set ws. wf_workload x"
    and "Storage (Usage info) = sum_list (map StorageRequest ws)" "Disks (Usage info) = []"
    and "\<forall>v. mget (Volumes (Usage info)) v = sum_list (map (\<lambda>x. mget (plan_volumes (VolumePlanRequest x) []) v) ws)"
  shows "map_sum id respDiffs (storage_GetNodeResourceInfo p w n rs) = Inr []"
  using no_diffs_compared [OF assms(1-3)] assms(4-6) by simp

text \<open>The stored usage has an entry for every disk its workloads take quota of.\<close>

definition lists_disks :: "NodeResource \<Rightarrow> WorkloadResource list \<Rightarrow> bool" where
  "lists_disks usage ws \<longleftrightarrow> (\<forall>x \<in> set ws. Device ` set (DisksRequest x) \<subseteq> Device ` set (Disks usage))"

lemma compared_amounts:
  assumes "wf_resource usage" "lists_disks usage ws"
  shows "Storage usage = sum_list (map StorageRequest ws) \<and>
    (\<forall>v. mget (Volumes usage) v = sum_list (map (\<lambda>x. mget (plan_volumes (VolumePlanRequest x) []) v) ws)) \<and>
    (\<forall>d \<in> set (Disks usage). \<forall>k. quota d k = sum_list (map (\<lambda>x. disks_amount (DisksRequest x) (Device d, k)) ws)) \<longleftrightarrow>
    (\<forall>i. nr_amount usage i = sum_list (map (\<lambda>x. nr_amount (workload_usage x) i) ws))" (is "?S \<and> ?V \<and> ?D \<longleftrightarrow> ?all")
proof -
  have listed: "?D \<longleftrightarrow> (\<forall>dev k. disks_amount (Disks usage) (dev, k) = sum_list (map (\<lambda>x. disks_amount (DisksRequest x) (dev, k)) ws))"
  proof (intro iffI allI ballI)
    fix dev k assume D: ?D
    show "disks_amount (Disks usage) (dev, k) = sum_list (map (\<lambda>x. disks_amount (DisksRequest x) (dev, k)) ws)"
    proof (cases "dev \<in> Device ` set (Disks usage)")
      case True
      then obtain d where "d \<in> set (Disks usage)" "dev = Device d" by blast
      with D assms(1) disks_amount_member show ?thesis by (simp add: wf_resource_def)
    next
      case False
      then have "disks_amount (DisksRequest x) (dev, k) = 0" if "x \<in> set ws" for x
        using assms(2) that by (intro disks_amount_absent) (auto simp: lists_disks_def)
      then have "map (\<lambda>x. disks_amount (DisksRequest x) (dev, k)) ws = map (\<lambda>_. 0) ws" by simp
      from arg_cong [OF this, of sum_list] show ?thesis using False by (simp add: disks_amount_absent)
    qed
  next
    fix d k assume "\<forall>dev k. disks_amount (Disks usage) (dev, k) = sum_list (map (\<lambda>x. disks_amount (DisksRequest x) (dev, k)) ws)"
      and "d \<in> set (Disks usage)"
    then show "quota d k = sum_list (map (\<lambda>x. disks_amount (DisksRequest x) (Device d, k)) ws)"
      using disks_amount_member [of "Disks usage" d k] assms(1) by (simp add: wf_resource_def)
  qed
  have "?all \<longleftrightarrow> ?S \<and> ?V \<and> (\<forall>dev k. disks_amount (Disks usage) (dev, k) = sum_list (map (\<lambda>x. disks_amount (DisksRequest x) (dev, k)) ws))"
    (is "_ \<longleftrightarrow> ?parts")
  proof
    assume A: ?all
    show ?parts
      using spec [OF A, of StorageSize] spec [OF A, of "VolumeSize v" for v] spec [OF A, of "DiskQuotaOf dev k" for dev k]
      by (simp add: workload_usage_def)
  next
    assume ?parts
    then show ?all by (intro allI, case_tac i) (simp_all add: workload_usage_def)
  qed
  then show ?thesis using listed by blast
qed

text \<open>
  C16: What \<open>GetNodeResourceInfo\<close> compares. When the stored usage has an entry for every disk the workloads
  take quota of, no difference is reported exactly when every stored amount is the sum of what the
  workloads take of it: the storage total, the size of every volume and the four quotas of every disk.
\<close>

theorem no_diffs_iff:
  assumes "Get (storageStore p) w n = Inr info" "parse_workloads p rs = Inr ws" "\<forall>x \<in> set ws. wf_workload x"
    and "wf_resource (Usage info)" "lists_disks (Usage info) ws"
  shows "map_sum id respDiffs (storage_GetNodeResourceInfo p w n rs) = Inr [] \<longleftrightarrow>
    (\<forall>i. nr_amount (Usage info) i = sum_list (map (\<lambda>x. nr_amount (workload_usage x) i) ws))"
  unfolding no_diffs_compared [OF assms(1-3)] by (rule compared_amounts [OF assms(4,5)])

theorem no_diffs_iff_witness:
  "map_sum id respDiffs (storage_GetNodeResourceInfo (sample_plugin usage_table)
      [(''/resource/storage/n1'', ''1'')] ''n1'' [Some (RawWorkload small_workload)]) = Inr []"
proof -
  let ?p = "sample_plugin usage_table" and ?w = "[(''/resource/storage/n1'', ''1'')]"
  let ?info = "small_info 30 [DiskQuota sample_normal sample_disk]"
  have g: "Get (storageStore ?p) ?w ''n1'' = Inr ?info" by code_simp
  have ws: "parse_workloads ?p [Some (RawWorkload small_workload)] = Inr [small_workload]"
    by (simp add: sample_plugin_def)
  have wf: "\<forall>x \<in> set [small_workload]. wf_workload x" "wf_resource (Usage ?info)" "lists_disks (Usage ?info) [small_workload]"
    by code_simp+
  have "nr_amount (Usage ?info) i = sum_list (map (\<lambda>x. nr_amount (workload_usage x) i) [small_workload])" for i
    by (cases i) (simp_all add: small_info_def small_workload_def workload_usage_def plan_volumes_def vols_Add_def mput_def
        disks_amount_def GetDiskByDevice_def all_quota_kind DiskQuota_def sample_defs)
  then show ?thesis unfolding no_diffs_iff [OF g ws wf] by blast
qed

section \<open>Repairing\<close>

lemma FixNodeResource_consistent:
  assumes "storage_on p c" "Get (storageStore p) w n = Inr info" "wf_resource (Capacity info)"
    and "parse_workloads p rs = Inr ws" "\<forall>x \<in> set ws. wf_workload x"
    and "storage_FixNodeResource p w n rs = (w', Inr resp)"
  shows "\<exists>info'. Get (storageStore p) w' n = Inr info' \<and> respUsage resp = Usage info' \<and>
     fst (storage_diffs (Usage info') (usage_of ws)) = [] \<and>
     (respDiffs resp \<noteq> [] \<or> wf_resource (Usage info) \<and> lists_disks (Usage info) ws \<longrightarrow>
       (\<forall>i. nr_amount (Usage info') i = nr_amount (usage_of ws) i))"
proof -
  let ?d = "storage_diffs (Usage info) (usage_of ws)"
  have get: "storage_getNodeResourceInfo p w n rs = Inr (info, snd ?d, fst ?d)"
    using assms(2,4) by (simp add: storage_getNodeResourceInfo_def split_def Let_def)
  show ?thesis
  proof (cases "fst ?d = []")
    case True
    have "nr_amount (Usage info) i = nr_amount (usage_of ws) i" if "wf_resource (Usage info)" "lists_disks (Usage info) ws" for i
    proof -
      have "map_sum id respDiffs (storage_GetNodeResourceInfo p w n rs) = Inr []"
        using True get by (simp add: storage_GetNodeResourceInfo_def info_response_def)
      then show ?thesis
        unfolding no_diffs_compared [OF assms(2,4,5)] compared_amounts [OF that] usage_of_amounts(2) [OF assms(5)] by blast
    qed
    then show ?thesis using True get assms(2,6) by (auto simp: storage_FixNodeResource_def info_response_def)
  next
    case False
    then obtain info' where put: "Put (storageStore p) w n (info\<lparr>Usage := snd ?d\<rparr>) = (w', Inr info')"
      "resp = info_response info' (fst ?d)"
      using get assms(6) by (auto simp: storage_FixNodeResource_def split: prod.splits sum.splits)
    let ?ds = "snd (disk_diffs (Disks (Usage info)) (Disks (usage_of ws)))"
    have u: "snd ?d = (usage_of ws)\<lparr>Disks := ?ds\<rparr>" by (simp add: storage_diffs_def split_def Let_def)
    note ks = disk_diffs_keeps [of "Disks (Usage info)" "Disks (usage_of ws)"]
    have wf: "wf_resource (usage_of ws)" by (rule usage_of_amounts(1) [OF assms(5)])
    then have wfu: "wf_resource (snd ?d)"
      using map_Device_quotas [OF ks] unfolding u wf_resource_def wf_disks_def by simp
    have am: "nr_amount (snd ?d) i = nr_amount (usage_of ws) i" for i
      unfolding u using disks_amount_quotas [OF ks] by (cases i) simp_all
    have usage: "nr_amount (Usage info') i = nr_amount (usage_of ws) i" for i
      using storage_Put_amounts(3) [OF assms(1) put(1), of i] assms(3) wfu am by simp
    have "wf_resource (Usage info')"
      using storage_Put_amounts(1) [OF assms(1) put(1)] assms(3) wfu by (simp add: info_ok_def)
    then have "quota d k = disks_amount (Disks (Usage info')) (Device d, k)" if "d \<in> set (Disks (Usage info'))" for d k
      using that disks_amount_member by (simp add: wf_resource_def)
    then have "fst (storage_diffs (Usage info') (usage_of ws)) = []"
      using usage [of StorageSize] usage [of "VolumeSize v" for v] usage [of "DiskQuotaOf dev k" for dev k]
      by (simp add: storage_diffs_empty)
    then show ?thesis using storage_Put(2) [OF assms(1) put(1)] usage put(2) by (auto simp: info_response_def)
  qed
qed

text \<open>
  C15: Repairing works. After a successful \<open>FixNodeResource\<close>, asking for the node's info with the same
  workloads reports no difference. Every amount of the stored usage is then the sum of what the workloads
  take, provided that \<open>FixNodeResource\<close> found something to repair (it leaves the record alone otherwise)
  or that the stored usage listed the disks the workloads take quota of.
\<close>

theorem fix_then_no_diffs:
  assumes "storage_on p c" "Get (storageStore p) w n = Inr info" "wf_resource (Capacity info)"
    and "parse_workloads p rs = Inr ws" "\<forall>x \<in> set ws. wf_workload x"
    and "storage_FixNodeResource p w n rs = (w', Inr resp)"
  shows "\<exists>resp'. storage_GetNodeResourceInfo p w' n rs = Inr resp' \<and> respDiffs resp' = [] \<and>
    respUsage resp' = respUsage resp \<and>
    (respDiffs resp \<noteq> [] \<or> wf_resource (Usage info) \<and> lists_disks (Usage info) ws \<longrightarrow>
      (\<forall>i. nr_amount (respUsage resp) i = sum_list (map (\<lambda>x. nr_amount (workload_usage x) i) ws)))"
  using FixNodeResource_consistent [OF assms] usage_of_amounts(2) [OF assms(5)] assms(4)
  by (auto simp: storage_GetNodeResourceInfo_def storage_getNodeResourceInfo_def split_def Let_def info_response_def)

theorem fix_then_no_diffs_witness:
  "\<exists>w' resp resp'. storage_FixNodeResource (sample_plugin usage_table) sample_cluster ''n1''
       [Some (RawWorkload small_workload)] = (w', Inr resp) \<and> respDiffs resp \<noteq> [] \<and>
     storage_GetNodeResourceInfo (sample_plugin usage_table) w' ''n1'' [Some (RawWorkload small_workload)] = Inr resp' \<and>
     respDiffs resp' = []"
proof -
  let ?p = "sample_plugin usage_table" and ?rs = "[Some (RawWorkload small_workload)]"
  let ?fix = "storage_FixNodeResource ?p sample_cluster ''n1'' ?rs"
  have "case snd ?fix of Inr resp \<Rightarrow> respDiffs resp \<noteq> [] | Inl _ \<Rightarrow> False" by code_simp
  then obtain w' resp where run: "?fix = (w', Inr resp)" "respDiffs resp \<noteq> []"
    by (cases ?fix) (auto split: sum.splits)
  have g: "Get (storageStore ?p) sample_cluster ''n1'' = Inr (small_info 0 [])" by code_simp
  have ws: "parse_workloads ?p ?rs = Inr [small_workload]" by (simp add: sample_plugin_def)
  have wf: "wf_resource (Capacity (small_info 0 []))" "\<forall>x \<in> set [small_workload]. wf_workload x" by code_simp+
  show ?thesis using fix_then_no_diffs [OF sample_plugin_on g wf(1) ws wf(2) run(1)] run by blast
qed

end
