(* ===== verification/Storage_Realloc.thy ===== *)
theory Storage_Realloc
  imports Capacity_Reached Storage_Fix
begin

text \<open>
  Deploying against the reported capacity, what validation makes of a request, and what a realloc
  does to the usage of its node.
\<close>

section \<open>Deploying and the reported capacity\<close>

lemma limit_loop_total: "length limits \<le> length requests \<Longrightarrow> \<exists>p. limit_loop volumes limits requests = Inr p"
proof (induction volumes limits requests rule: limit_loop.induct)
  case (2 volumes binding limits requests)
  then obtain r rs where requests: "requests = r # rs" by (cases requests) auto
  with 2 obtain p where "limit_loop volumes limits (tl requests) = Inr p" by auto
  then show ?case by (simp add: requests Let_def split: option.split)
qed simp

lemma alloc_all_total:
  "length (rVolumesLimit req) \<le> length (rVolumesRequest req) \<Longrightarrow> length vps \<le> length dps \<Longrightarrow>
   \<exists>r. alloc_all ds req vps dps = Inr r"
proof (induction ds req vps dps rule: alloc_all.induct)
  case (3 ds req vp vps dp dps)
  obtain p where "getVolumePlanLimit (rVolumesRequest req) (rVolumesLimit req) vp = Inr p"
    using limit_loop_total [OF 3(2)] by (auto simp: getVolumePlanLimit_def)
  then obtain e w where one: "alloc_one ds req vp dp = Inr (e, w)" by (simp add: alloc_one_def Let_def)
  with 3 obtain es ws where "alloc_all ds req vps dps = Inr (es, ws)" by fastforce
  with one show ?case by simp
qed auto

text \<open>How many workloads the bindings alone allow when \<open>n\<close> are asked for, and what becomes of the plans.\<close>

definition volume_count :: "NodeResourceInfo \<Rightarrow> WorkloadResourceRequest \<Rightarrow> i64 \<Rightarrow> i64 \<Rightarrow> bool" where
  "volume_count info req n c \<longleftrightarrow>
     (if NeedSchedule (rVolumesRequest req) then GetVolumeCapacity info (rVolumesRequest req) (val n) = Inr (val c) else c = n)"

lemma storage_plans_counted:
  assumes "node_ok info" "requests_ok (rVolumesRequest req)" "0 \<le> n" "int (length (Volumes (Capacity info))) < MaxInt"
  shows "\<exists>c. volume_count info req n c \<and> 0 \<le> c \<and> c \<le> n \<and>
    (if c = n then \<exists>vps dps. storage_plans info n req = Inr (vps, dps) \<and> length dps = length vps
     else storage_plans info n req = Inl ErrInsufficientResource)"
proof (cases "NeedSchedule (rVolumesRequest req)")
  case True
  have n: "0 \<le> val n" "val n \<le> MaxInt" using assms(3) val_less [of n] by (simp_all add: i64_le_iff MaxInt_def)
  obtain vps dps where r: "GetVolumePlans info (rVolumesRequest req) (val n) = Inr (vps, dps)" "length dps = length vps"
    "GetVolumeCapacity info (rVolumesRequest req) (val n) = Inr (int (length vps))" "int (length vps) \<le> val n"
    using GetVolumePlans_total [OF assms(1,2) n assms(4)] by blast
  let ?c = "of_val (int (length vps)) :: i64"
  have v: "val ?c = int (length vps)"
    using r(4) n(2) by (intro val_of_val) (simp add: in_range_def MaxInt_def)
  then have "volume_count info req n ?c" "0 \<le> ?c" "?c \<le> n" "?c = n \<longleftrightarrow> \<not> int (length vps) < val n"
    using True r(3,4) by (simp_all add: i64_le_iff i64_eq_iff volume_count_def)
  with True r(1,2) show ?thesis by (intro exI [of _ ?c]) (simp add: storage_plans_def)
qed (use assms(3) in \<open>simp add: volume_count_def storage_plans_def\<close>)

lemma storage_doAlloc_counted:
  assumes "node_ok info" "requests_ok (rVolumesRequest req)" "length (rVolumesLimit req) = length (rVolumesRequest req)"
    and "0 \<le> n" "int (length (Volumes (Capacity info))) < MaxInt"
  shows "\<exists>c. volume_count info req n c \<and> 0 \<le> c \<and> c \<le> n \<and>
    (if c = n \<and> \<not> (0 < rStorageRequest req \<and> storageCapacity info req < n)
     then \<exists>plans. storage_doAlloc info n req = Inr plans
     else storage_doAlloc info n req = Inl ErrInsufficientResource)"
proof -
  obtain c where c: "volume_count info req n c" "0 \<le> c" "c \<le> n"
    "if c = n then \<exists>vps dps. storage_plans info n req = Inr (vps, dps) \<and> length dps = length vps
     else storage_plans info n req = Inl ErrInsufficientResource"
    using storage_plans_counted [OF assms(1,2,4,5)] by blast
  have "\<exists>plans. storage_doAlloc info n req = Inr plans"
    if eq: "c = n" and room: "\<not> (0 < rStorageRequest req \<and> storageCapacity info req < n)"
  proof -
    obtain vps dps where "storage_plans info n req = Inr (vps, dps)" "length dps = length vps"
      using c(4) eq by auto
    then show ?thesis
      using alloc_all_total [of req vps dps] assms(3) room by (auto simp: storage_doAlloc_def)
  qed
  moreover have "storage_doAlloc info n req = Inl ErrInsufficientResource"
    if "\<not> (c = n \<and> \<not> (0 < rStorageRequest req \<and> storageCapacity info req < n))"
    using c(4) that by (auto simp: storage_doAlloc_def)
  ultimately show ?thesis using c(1-3) by (intro exI [of _ c]) simp
qed

lemma volume_count_reached:
  assumes "volume_count info req m c" "volume_count info req n c'" "0 \<le> n" "n \<le> c" "node_ok info"
    and "requests_ok (rVolumesRequest req)" "int (length (Volumes (Capacity info))) < MaxInt"
  shows "c' = n"
proof (cases "NeedSchedule (rVolumesRequest req)")
  case True
  have "val m \<le> MaxInt" using val_less [of m] by (simp add: MaxInt_def)
  then have "val c' = val n"
    using GetVolumeCapacity_reached [of info "rVolumesRequest req" "val m" "val c" "val n" "val c'"] assms True
    by (simp add: volume_count_def i64_le_iff)
  then show ?thesis by (simp add: i64_eq_iff)
qed (use assms(2) in \<open>simp add: volume_count_def\<close>)

lemma storage_capacity_counted:
  assumes "volume_count info req (MaxDeployCount p) c"
  shows "\<exists>cap. storage_doGetNodeDeployCapacity p info req = Inr cap \<and>
    deployCapacity cap = (if 0 < rStorageRequest req then min c (storageCapacity info req) else c)"
proof -
  have "storage_capacity p info req = Inr (if 0 < rStorageRequest req then min c (storageCapacity info req) else c)"
    using assms by (auto simp: storage_capacity_def volume_count_def split: if_splits)
  then show ?thesis by (simp add: storage_doGetNodeDeployCapacity_def Let_def)
qed

text \<open>
  C10: The reported capacity can be deployed. The capacity \<open>doGetNodeDeployCapacity\<close> reports, counted with
  the configured \<open>MaxDeployCount\<close>, is at most that bound; \<open>doAlloc\<close> deploys every number of workloads up
  to it; and when it is less than the bound, \<open>doAlloc\<close> answers \<open>ErrInsufficientResource\<close> to the bound.
  (The limits of the request match its bindings, as validation leaves them.)
\<close>

theorem reported_capacity_is_deployable:
  assumes "node_ok info" "requests_ok (rVolumesRequest req)" "length (rVolumesLimit req) = length (rVolumesRequest req)"
    and "0 \<le> MaxDeployCount p" "int (length (Volumes (Capacity info))) < MaxInt"
  shows "\<exists>cap. storage_doGetNodeDeployCapacity p info req = Inr cap \<and> deployCapacity cap \<le> MaxDeployCount p \<and>
    (\<forall>n. 0 \<le> n \<and> n \<le> deployCapacity cap \<longrightarrow> (\<exists>plans. storage_doAlloc info n req = Inr plans)) \<and>
    (deployCapacity cap < MaxDeployCount p \<longrightarrow> storage_doAlloc info (MaxDeployCount p) req = Inl ErrInsufficientResource)"
proof -
  let ?max = "MaxDeployCount p"
  obtain c where c: "volume_count info req ?max c" "0 \<le> c" "c \<le> ?max"
    "if c = ?max \<and> \<not> (0 < rStorageRequest req \<and> storageCapacity info req < ?max)
     then \<exists>plans. storage_doAlloc info ?max req = Inr plans else storage_doAlloc info ?max req = Inl ErrInsufficientResource"
    using storage_doAlloc_counted [OF assms] by blast
  obtain cap where cap: "storage_doGetNodeDeployCapacity p info req = Inr cap"
    "deployCapacity cap = (if 0 < rStorageRequest req then min c (storageCapacity info req) else c)"
    using storage_capacity_counted [OF c(1)] by blast
  have "\<exists>plans. storage_doAlloc info n req = Inr plans" if n: "0 \<le> n" "n \<le> deployCapacity cap" for n
  proof -
    obtain c' where c': "volume_count info req n c'"
      "if c' = n \<and> \<not> (0 < rStorageRequest req \<and> storageCapacity info req < n)
       then \<exists>plans. storage_doAlloc info n req = Inr plans else storage_doAlloc info n req = Inl ErrInsufficientResource"
      using storage_doAlloc_counted [OF assms(1-3) n(1) assms(5)] by blast
    have le: "n \<le> c" "\<not> (0 < rStorageRequest req \<and> storageCapacity info req < n)"
      using n(2) cap(2) by (auto split: if_splits)
    have "c' = n" by (rule volume_count_reached [OF c(1) c'(1) n(1) le(1) assms(1,2,5)])
    with c'(2) le(2) show ?thesis by simp
  qed
  moreover have "deployCapacity cap \<le> ?max" using c(3) cap(2) by (auto simp: min_le_iff_disj)
  moreover have "storage_doAlloc info ?max req = Inl ErrInsufficientResource" if "deployCapacity cap < ?max"
    using c(3,4) cap(2) that by (auto simp: min_def split: if_splits)
  ultimately show ?thesis using cap(1) by blast
qed

theorem reported_capacity_is_deployable_witness:
  "\<exists>cap. storage_doGetNodeDeployCapacity (sample_plugin []) sample_info sample_request = Inr cap \<and> deployCapacity cap = 2 \<and>
    (\<exists>plans. storage_doAlloc sample_info 2 sample_request = Inr plans) \<and>
    storage_doAlloc sample_info 100 sample_request = Inl ErrInsufficientResource"
proof -
  let ?p = "sample_plugin []"
  have ok: "node_ok sample_info" "requests_ok (rVolumesRequest sample_request)"
    "length (rVolumesLimit sample_request) = length (rVolumesRequest sample_request)" "0 \<le> MaxDeployCount ?p"
    "int (length (Volumes (Capacity sample_info))) < MaxInt" by code_simp+
  have "map_sum id deployCapacity (storage_doGetNodeDeployCapacity ?p sample_info sample_request) = Inr 2" by code_simp
  moreover have "MaxDeployCount ?p = 100" by (simp add: sample_plugin_def)
  ultimately show ?thesis using reported_capacity_is_deployable [OF ok] by auto
qed

section \<open>Validation of a request\<close>

lemma validateStorageRequest_spec:
  assumes "validateStorageRequest w = Inr w'"
  shows "rVolumesRequest w' = rVolumesRequest w" "rVolumesLimit w' = rVolumesLimit w" "storageFolded w'"
    "0 \<le> rStorageRequest w" "0 \<le> rStorageLimit w"
    "storageFolded w \<Longrightarrow> 0 \<le> rStorageRequest w' \<and> (0 < rStorageLimit w' \<longrightarrow> rStorageRequest w' \<le> rStorageLimit w')"
  using assms by (auto simp: validateStorageRequest_def Let_def not_less split: if_splits)

text \<open>An absent request is the limit, a limit is raised to the request, and what is not folded yet gets the bindings on top.\<close>

lemma validateStorageRequest_adds:
  assumes "validateStorageRequest w = Inr w'"
  shows "rStorageRequest w' = (if rStorageRequest w = 0 then rStorageLimit w else rStorageRequest w) +
      (if storageFolded w then 0 else TotalSize (rVolumesRequest w'))"
    "rStorageLimit w' = (if rStorageLimit w = 0 then 0 else max (rStorageRequest w) (rStorageLimit w)) +
      (if storageFolded w then 0 else TotalSize (rVolumesLimit w'))"
  using assms by (auto simp: validateStorageRequest_def Let_def not_less max_def split: if_splits)

text \<open>
  C27: What a validated request looks like: its bindings are those asked for, in printing order, each
  with its limit at the same place, with the same source, destination and flags and no smaller (in size,
  when the limit has one, and in the four quotas); a monopoly binding has a positive size and no quota
  is negative. The storage asked for is the request, or the limit where there is none, and its limit is
  raised to the request; the sizes of the bindings have been added to both, once: nothing is added to a
  request that has them folded in already.
\<close>

theorem request_Validate_establishes:
  assumes "request_Validate w = Inr w'"
  shows "mset (rVolumesRequest w') = mset (rVolumesRequest w) \<and> sorted (map (vb_ToString False) (rVolumesRequest w')) \<and>
    list_all2 matched (rVolumesRequest w') (rVolumesLimit w') \<and>
    (\<forall>vb \<in> set (rVolumesRequest w'). (RequireScheduleMonopoly vb \<longrightarrow> 0 < SizeInBytes vb) \<and> ValidIOParameters vb) \<and>
    storageFolded w' \<and> 0 \<le> rStorageRequest w \<and> 0 \<le> rStorageLimit w \<and>
    rStorageRequest w' = (if rStorageRequest w = 0 then rStorageLimit w else rStorageRequest w) +
      (if storageFolded w then 0 else TotalSize (rVolumesRequest w')) \<and>
    rStorageLimit w' = (if rStorageLimit w = 0 then 0 else max (rStorageRequest w) (rStorageLimit w)) +
      (if storageFolded w then 0 else TotalSize (rVolumesLimit w'))"
proof -
  obtain v where v: "validateVolumes w = Inr v" "validateStorageRequest v = Inr w'"
    using assms by (auto simp: request_Validate_def)
  note vs = validateVolumes_ok [OF v(1)] and st = validateStorageRequest_spec [OF v(2)] validateStorageRequest_adds [OF v(2)]
  have same: "rStorageRequest v = rStorageRequest w" "rStorageLimit v = rStorageLimit w" "storageFolded v = storageFolded w"
    using vs by simp_all
  show ?thesis using vs st(1-5) st(7,8) [unfolded same] ValidIO_sort [of "rVolumesRequest v"] by simp
qed

theorem request_Validate_establishes_witness:
  "\<exists>w'. request_Validate (sample_request\<lparr>rVolumesLimit := [sample_mono, sample_normal\<lparr>SizeInBytes := 10\<rparr>],
      storageFolded := False\<rparr>) = Inr w' \<and>
    list_all2 matched (rVolumesRequest w') (rVolumesLimit w') \<and> rStorageRequest w' = 40 + TotalSize (rVolumesRequest w')"
proof -
  let ?w = "sample_request\<lparr>rVolumesLimit := [sample_mono, sample_normal\<lparr>SizeInBytes := 10\<rparr>], storageFolded := False\<rparr>"
  have "case request_Validate ?w of Inr _ \<Rightarrow> True | Inl _ \<Rightarrow> False" by code_simp
  then obtain w' where w': "request_Validate ?w = Inr w'" using Inr_of_case by blast
  have "rStorageRequest ?w = 40" "\<not> storageFolded ?w" by (simp_all add: sample_request_def)
  with w' request_Validate_establishes [OF w'] show ?thesis by auto
qed

section \<open>The delta of a realloc\<close>

lemma vols_fold_sub: "list_all (\<lambda>(_, vm). wf_map vm) plan \<Longrightarrow>
   mget (fold (\<lambda>(_, vm) v. vols_Sub v vm) plan v) d = mget v d - mget (plan_volumes plan []) d"
proof (induction plan arbitrary: v)
  case (Cons e plan)
  obtain vb vm where e: "e = (vb, vm)" "wf_map vm" using Cons.prems by (cases e) auto
  show ?case
    using Cons.IH [of "vols_Sub v vm"] plan_volumes_mget [of plan "vols_Add [] vm" d] Cons.prems
    by (simp add: e mget_vols_Sub mget_vols_Add)
qed simp

lemma wf_plan_volumes: "wf_map v \<Longrightarrow> wf_map (plan_volumes plan v)"
proof (induction plan arbitrary: v)
  case (Cons e plan)
  then show ?case by (cases e) simp
qed simp

lemma wf_fold_vols_Sub: "wf_map v \<Longrightarrow> wf_map (fold (\<lambda>(_, vm) v. vols_Sub v vm) plan v)"
proof (induction plan arbitrary: v)
  case (Cons e plan)
  then show ?case by (cases e) simp
qed simp

lemma delta_amounts:
  assumes "wf_workload old" "wf_workload new"
  shows "nr_amount (workload_usage (getDeltaWorkloadResourceArgs old new)) i =
    nr_amount (workload_usage new) i - nr_amount (workload_usage old) i"
    "wf_workload (getDeltaWorkloadResourceArgs old new)"
proof -
  let ?v = "fold (\<lambda>(_, vm) v. vols_Sub v vm) (VolumePlanRequest old) (plan_volumes (VolumePlanRequest new) [])"
  have wf: "wf_map ?v" by (intro wf_fold_vols_Sub wf_plan_volumes) simp
  have disks: "wf_disks (DisksRequest old)" "wf_disks (DisksRequest new)" using assms by (simp_all add: wf_workload_def)
  show "wf_workload (getDeltaWorkloadResourceArgs old new)"
    using wf disks by (simp add: wf_workload_def getDeltaWorkloadResourceArgs_def disks_DeepCopy_def disk_ledger.wf_sub)
  have "mget ?v d = mget (plan_volumes (VolumePlanRequest new) []) d - mget (plan_volumes (VolumePlanRequest old) []) d" for d
    using assms(1) by (intro vols_fold_sub) (simp add: wf_workload_def)
  then show "nr_amount (workload_usage (getDeltaWorkloadResourceArgs old new)) i =
    nr_amount (workload_usage new) i - nr_amount (workload_usage old) i"
    using disks wf
    by (cases i) (simp_all add: workload_usage_def getDeltaWorkloadResourceArgs_def disks_DeepCopy_def
        disk_ledger.amount_sub mget_vols_Add)
qed

text \<open>
  C14: The delta of a realloc moves the node's usage from the old workload to the new one: adding the
  \<open>DeltaResource\<close> to the usage of a node gives, for every volume, every disk quota and the storage
  total, what taking the old workload away and adding the new one gives.
\<close>

theorem realloc_delta_moves_usage:
  assumes "storage_realloc ord info req old = Inr resp" "wf_workload old" "wf_workload (reallocWorkload resp)" "wf_resource usage"
  shows "nr_amount (storage_calculateNodeResource None None (Some usage) [reallocDelta resp] True True) i =
    nr_amount (nr_Add (nr_Sub usage (workload_usage old)) (workload_usage (reallocWorkload resp))) i"
proof -
  have delta: "reallocDelta resp = getDeltaWorkloadResourceArgs old (reallocWorkload resp)"
    using assms(1) by (auto simp: storage_realloc_def Let_def bind_res_Inr_iff split: if_splits)
  note d = delta_amounts [OF assms(2,3)]
  have wf: "wf_resource (workload_usage x)" if "wf_workload x" for x
    using that wf_workload_usage by (simp add: wf_workload_def)
  show ?thesis
    using node_ledger.amount_add [OF assms(4) wf [OF d(2)], of i] d(1) [of i] node_ledger.wf_sub [OF assms(4) wf [OF assms(2)]]
      node_ledger.amount_sub [OF assms(4) wf [OF assms(2)], of i] wf [OF assms(3)]
    by (simp add: delta record_usage node_ledger.amount_add)
qed

lemma storage_realloc_run:
  assumes "request_Validate (realloc_request ord req0 old) = Inr req"
    and "\<not> Storage (Capacity info) - Storage (Usage info) < rStorageRequest req - StorageRequest old"
    and "realloc_plan ord info (NeedSchedule (rVolumesRequest req0)) req old = Inr (plan, disks)"
    and "getVolumePlanLimit (rVolumesRequest req) (rVolumesLimit req) plan = Inr plim"
  shows "\<exists>resp. storage_realloc ord info req0 old = Inr resp \<and> VolumePlanRequest (reallocWorkload resp) = plan \<and>
    DisksRequest (reallocWorkload resp) = disks \<and> VolumesLimit (reallocWorkload resp) = rVolumesLimit req"
  using assms by (simp add: storage_realloc_def Let_def)

text \<open>
  A workload with one binding of each kind, as \<open>doAlloc\<close> gives it, on a node that runs nothing else; its
  normal binding is to grow by 5.
\<close>

definition sample_old :: WorkloadResource where
  "sample_old = \<lparr>VolumesRequest = [sample_mono, sample_normal], VolumesLimit = [sample_mono, sample_normal],
     VolumePlanRequest = [(sample_mono, [(''/data/1'', 60)]), (sample_normal, [(''/data/0'', 30)])],
     VolumePlanLimit = [(sample_mono, [(''/data/1'', 60)]), (sample_normal, [(''/data/0'', 30)])],
     StorageRequest = 40, StorageLimit = 40, DisksRequest = [], DisksLimit = []\<rparr>"

definition sample_busy :: NodeResourceInfo where
  "sample_busy = \<lparr>Capacity = Capacity sample_info,
     Usage = \<lparr>Volumes = [(''/data/0'', 30), (''/data/1'', 60)], Disks = [], Storage = 40\<rparr>\<rparr>"

definition sample_growth :: WorkloadResourceRequest where
  "sample_growth = \<lparr>rVolumesRequest = [sample_normal\<lparr>SizeInBytes := 5\<rparr>], rVolumesLimit = [sample_normal\<lparr>SizeInBytes := 5\<rparr>],
     rStorageRequest = 0, rStorageLimit = 0, storageFolded = False\<rparr>"

definition sample_grown :: WorkloadResourceRequest where
  "sample_grown = (let vbs = [sample_mono, sample_normal\<lparr>SizeInBytes := 35, ReadIOPS := 20\<rparr>] in
     \<lparr>rVolumesRequest = vbs, rVolumesLimit = vbs, rStorageRequest = 45, rStorageLimit = 45, storageFolded = True\<rparr>)"

lemma sample_realloc:
  "\<exists>resp. storage_realloc (\<lambda>_. 0) sample_busy sample_growth sample_old = Inr resp \<and>
    VolumePlanRequest (reallocWorkload resp) =
      [(sample_normal\<lparr>SizeInBytes := 35, ReadIOPS := 20\<rparr>, [(''/data/0'', 35)]), (sample_mono, [(''/data/1'', 60)])] \<and>
    DisksRequest (reallocWorkload resp) = [sample_disk\<lparr>dReadIOPS := 20, dWriteIOPS := 0, dReadBPS := 0, dWriteBPS := 0\<rparr>] \<and>
    VolumesLimit (reallocWorkload resp) = rVolumesLimit sample_grown"
proof -
  let ?plan = "[(sample_normal\<lparr>SizeInBytes := 35, ReadIOPS := 20\<rparr>, [(''/data/0'', 35)]), (sample_mono, [(''/data/1'', 60)])]"
    and ?disks = "[sample_disk\<lparr>dReadIOPS := 20, dWriteIOPS := 0, dReadBPS := 0, dWriteBPS := 0\<rparr>]"
  have "request_Validate (realloc_request (\<lambda>_. 0) sample_growth sample_old) = Inr sample_grown" by code_simp
  moreover have "\<not> Storage (Capacity sample_busy) - Storage (Usage sample_busy) < rStorageRequest sample_grown - StorageRequest sample_old"
    by code_simp
  moreover have "realloc_plan (\<lambda>_. 0) sample_busy (NeedSchedule (rVolumesRequest sample_growth)) sample_grown sample_old = Inr (?plan, ?disks)"
    by code_simp
  moreover have "case getVolumePlanLimit (rVolumesRequest sample_grown) (rVolumesLimit sample_grown) ?plan of Inr _ \<Rightarrow> True | Inl _ \<Rightarrow> False"
    by code_simp
  then obtain plim where "getVolumePlanLimit (rVolumesRequest sample_grown) (rVolumesLimit sample_grown) ?plan = Inr plim"
    using Inr_of_case by blast
  ultimately show ?thesis by (rule storage_realloc_run)
qed

theorem realloc_delta_moves_usage_witness:
  "\<exists>resp. storage_realloc (\<lambda>_. 0) sample_busy sample_growth sample_old = Inr resp \<and>
    nr_amount (storage_calculateNodeResource None None (Some (Usage sample_busy)) [reallocDelta resp] True True) StorageSize =
    nr_amount (nr_Add (nr_Sub (Usage sample_busy) (workload_usage sample_old)) (workload_usage (reallocWorkload resp))) StorageSize"
proof -
  obtain resp where resp: "storage_realloc (\<lambda>_. 0) sample_busy sample_growth sample_old = Inr resp"
    "VolumePlanRequest (reallocWorkload resp) =
      [(sample_normal\<lparr>SizeInBytes := 35, ReadIOPS := 20\<rparr>, [(''/data/0'', 35)]), (sample_mono, [(''/data/1'', 60)])]"
    "DisksRequest (reallocWorkload resp) = [sample_disk\<lparr>dReadIOPS := 20, dWriteIOPS := 0, dReadBPS := 0, dWriteBPS := 0\<rparr>]"
    using sample_realloc by blast
  have "wf_disks (DisksRequest (reallocWorkload resp))" "list_all (\<lambda>(_, vm). wf_map vm) (VolumePlanRequest (reallocWorkload resp))"
    "wf_workload sample_old" "wf_resource (Usage sample_busy)"
    unfolding resp by code_simp+
  then have "wf_workload (reallocWorkload resp)" "wf_workload sample_old" "wf_resource (Usage sample_busy)"
    by (simp_all add: wf_workload_def)
  then show ?thesis using realloc_delta_moves_usage [OF resp(1)] resp(1) by blast
qed

end
