(* ===== verification/Realloc_Props.thy ===== *)
theory Realloc_Props
  imports Storage_Realloc
begin

text \<open>
  What a realloc asks for and what it tells the engine: merging the bindings asked for into those the
  workload has, and the flag that says whether the workload has to be recreated.
\<close>

section \<open>Merging bindings\<close>

text \<open>What the bindings with one map key ask for together.\<close>

definition asked :: "(VolumeBinding \<Rightarrow> i64) \<Rightarrow> VolumeBindings \<Rightarrow> string \<times> string \<times> string \<Rightarrow> i64" where
  "asked f vbs k = sum_list (map f (filter (\<lambda>vb. GetMapKey vb = k) vbs))"

lemma asked_simps [simp]: "asked f [] k = 0"
  "asked f (vb # vbs) k = (if GetMapKey vb = k then f vb else 0) + asked f vbs k"
  by (simp_all add: asked_def)

lemma asked_absent: "k \<notin> GetMapKey ` set vbs \<Longrightarrow> asked f vbs k = 0"
  by (induction vbs) auto

lemma GetMapKey_AddQuota [simp]: "GetMapKey (AddQuota b c) = GetMapKey b"
  by (simp add: GetMapKey_def AddQuota_def)

lemma merge_into_spec:
  assumes "wf_map m" "\<forall>(k, vb) \<in> set m. GetMapKey vb = k" and f: "\<And>b c. f (AddQuota b c) = f b + f c"
  shows "wf_map (merge_into m vbs) \<and> (\<forall>(k, vb) \<in> set (merge_into m vbs). GetMapKey vb = k) \<and>
    fst ` set (merge_into m vbs) = fst ` set m \<union> GetMapKey ` set vbs \<and>
    (\<forall>k b. map_of (merge_into m vbs) k = Some b \<longrightarrow>
       f b = (case map_of m k of Some b' \<Rightarrow> f b' | None \<Rightarrow> 0) + asked f vbs k)"
  using assms(1,2)
proof (induction m vbs rule: merge_into.induct)
  case (2 m vb vbs)
  have dom: "fst ` set (mput k b m) = insert k (fst ` set m)" for k and b :: VolumeBinding
    by (simp flip: dom_map_of_conv_image_fst)
  have keys: "\<forall>(k, b) \<in> set (mput (GetMapKey vb) b m). GetMapKey b = k" if "GetMapKey b = GetMapKey vb" for b
  proof (intro ballI, clarify)
    fix k b' assume "(k, b') \<in> set (mput (GetMapKey vb) b m)"
    then have "map_of (mput (GetMapKey vb) b m) k = Some b'" by (rule iffD2 [OF wf_map_of_iff [OF wf_map_put [OF "2.prems"(1)]]])
    then show "GetMapKey b' = k" using that "2.prems"(2) by (auto split: if_splits dest: map_of_SomeD)
  qed
  show ?case
  proof (cases "map_of m (GetMapKey vb)")
    case None
    show ?thesis
      using "2.IH"(1) [OF None _ keys [OF refl]] "2.prems"(1) None by (auto simp: dom split: if_splits)
  next
    case (Some b)
    then have b: "GetMapKey b = GetMapKey vb" using "2.prems"(2) by (auto dest: map_of_SomeD)
    then have "GetMapKey (AddQuota b vb) = GetMapKey vb" by simp
    then show ?thesis
      using "2.IH"(2) [OF Some _ keys [of "AddQuota b vb"]] "2.prems"(1) Some
      by (auto simp: dom f add.assoc split: if_splits)
  qed
qed auto

lemma MergeVolumeBindings_spec:
  assumes "\<And>b c. f (AddQuota b c) = f b + f c"
  shows "distinct (map GetMapKey (MergeVolumeBindings k' vbs1 vbs2))"
    "vb \<in> set (MergeVolumeBindings k' vbs1 vbs2) \<Longrightarrow> f vb = asked f (concat vbs2 @ vbs1) (GetMapKey vb)"
    "k \<in> GetMapKey ` set (MergeVolumeBindings k' vbs1 vbs2) \<longleftrightarrow>
       k \<in> GetMapKey ` set (concat vbs2 @ vbs1) \<and> 0 \<le> asked SizeInBytes (concat vbs2 @ vbs1) k"
proof -
  define all where "all = concat vbs2 @ vbs1"
  define m where "m = merge_into [] all"
  have size: "SizeInBytes (AddQuota b c) = SizeInBytes b + SizeInBytes c" for b c by (simp add: AddQuota_def)
  have nil: "wf_map ([] :: (string \<times> string \<times> string, VolumeBinding) gomap)" "\<forall>(k, vb) \<in> set []. GetMapKey vb = k" by simp_all
  note F = merge_into_spec [where f = f, OF nil assms, of all, folded m_def]
    and S = merge_into_spec [where f = SizeInBytes, OF nil size, of all, folded m_def]
  have wf: "wf_map m" and dom: "fst ` set m = GetMapKey ` set all" using F by simp_all
  have key: "GetMapKey vb = k" and val: "f vb = asked f all k" and sizes: "SizeInBytes vb = asked SizeInBytes all k"
    if "(k, vb) \<in> set m" for k vb
  proof -
    have "map_of m k = Some vb" by (rule iffD2 [OF wf_map_of_iff [OF wf] that])
    then show "GetMapKey vb = k" "f vb = asked f all k" "SizeInBytes vb = asked SizeInBytes all k"
      using F S that by (cases k; auto)+
  qed
  have merged: "MergeVolumeBindings k' vbs1 vbs2 = filter (\<lambda>vb. 0 \<le> SizeInBytes vb) (map snd (shuffle k' m))"
    by (simp add: MergeVolumeBindings_def m_def all_def)
  have "map GetMapKey (map snd (shuffle k' m)) = map fst (shuffle k' m)" using key by (auto simp: split_beta)
  moreover have "distinct (map fst (shuffle k' m))" using wf by (simp add: wf_map_def)
  ultimately have "distinct (map GetMapKey (map snd (shuffle k' m)))" by (simp only:)
  then show "distinct (map GetMapKey (MergeVolumeBindings k' vbs1 vbs2))"
    unfolding merged by (rule distinct_map_filter)
  have entry: "vb \<in> set (MergeVolumeBindings k' vbs1 vbs2) \<longleftrightarrow> (GetMapKey vb, vb) \<in> set m \<and> 0 \<le> SizeInBytes vb" for vb
    using key by (force simp: merged)
  show "f vb = asked f (concat vbs2 @ vbs1) (GetMapKey vb)" if "vb \<in> set (MergeVolumeBindings k' vbs1 vbs2)"
    using that val by (simp add: entry all_def)
  show "k \<in> GetMapKey ` set (MergeVolumeBindings k' vbs1 vbs2) \<longleftrightarrow>
       k \<in> GetMapKey ` set (concat vbs2 @ vbs1) \<and> 0 \<le> asked SizeInBytes (concat vbs2 @ vbs1) k"
    unfolding all_def [symmetric] dom [symmetric]
  proof
    assume "k \<in> GetMapKey ` set (MergeVolumeBindings k' vbs1 vbs2)"
    then obtain vb where vb: "(k, vb) \<in> set m" "0 \<le> SizeInBytes vb" using entry by auto
    then show "k \<in> fst ` set m \<and> 0 \<le> asked SizeInBytes all k" using sizes [OF vb(1)] by force
  next
    assume r: "k \<in> fst ` set m \<and> 0 \<le> asked SizeInBytes all k"
    then obtain vb where vb: "(k, vb) \<in> set m" by force
    then have "vb \<in> set (MergeVolumeBindings k' vbs1 vbs2)" using key [OF vb] sizes [OF vb] r by (simp add: entry)
    then show "k \<in> GetMapKey ` set (MergeVolumeBindings k' vbs1 vbs2)" using key [OF vb] by force
  qed
qed

text \<open>
  C22: Merging. \<open>MergeVolumeBindings\<close> gives one binding per (source, destination, flags), whose size and
  quotas are the sums over all bindings with that key in both lists; a key is there exactly when some
  binding has it and the sum of the sizes is not negative.
\<close>

theorem MergeVolumeBindings_sums:
  "distinct (map GetMapKey (MergeVolumeBindings k vbs1 vbs2)) \<and>
   (\<forall>vb \<in> set (MergeVolumeBindings k vbs1 vbs2).
      SizeInBytes vb = asked SizeInBytes (concat vbs2 @ vbs1) (GetMapKey vb) \<and>
      (\<forall>q. bquota vb q = asked (\<lambda>vb. bquota vb q) (concat vbs2 @ vbs1) (GetMapKey vb))) \<and>
   GetMapKey ` set (MergeVolumeBindings k vbs1 vbs2) =
     {key \<in> GetMapKey ` set (concat vbs2 @ vbs1). 0 \<le> asked SizeInBytes (concat vbs2 @ vbs1) key}"
proof -
  have size: "SizeInBytes (AddQuota b c) = SizeInBytes b + SizeInBytes c" for b c by (simp add: AddQuota_def)
  have quotas: "bquota vb q = asked (\<lambda>vb. bquota vb q) (concat vbs2 @ vbs1) (GetMapKey vb)"
    if "vb \<in> set (MergeVolumeBindings k vbs1 vbs2)" for vb q
    using MergeVolumeBindings_spec(2) [where f = "\<lambda>vb. bquota vb q", OF bquota_AddQuota that] .
  have "key \<in> GetMapKey ` set (MergeVolumeBindings k vbs1 vbs2) \<longleftrightarrow>
      key \<in> {key \<in> GetMapKey ` set (concat vbs2 @ vbs1). 0 \<le> asked SizeInBytes (concat vbs2 @ vbs1) key}" for key
    unfolding MergeVolumeBindings_spec(3) [where f = SizeInBytes, OF size] by simp
  then show ?thesis
    using MergeVolumeBindings_spec(1,2) [where f = SizeInBytes, OF size] quotas by blast
qed

theorem MergeVolumeBindings_sums_witness:
  "sample_normal\<lparr>SizeInBytes := 35, ReadIOPS := 20\<rparr> \<in>
     set (MergeVolumeBindings 0 [sample_normal\<lparr>SizeInBytes := 5\<rparr>] [[sample_mono, sample_normal]]) \<and>
   35 = asked SizeInBytes [sample_mono, sample_normal, sample_normal\<lparr>SizeInBytes := 5\<rparr>] (GetMapKey sample_normal)"
proof -
  let ?vb = "sample_normal\<lparr>SizeInBytes := 35, ReadIOPS := 20\<rparr>"
  have "?vb \<in> set (MergeVolumeBindings 0 [sample_normal\<lparr>SizeInBytes := 5\<rparr>] [[sample_mono, sample_normal]])" by code_simp
  moreover from this MergeVolumeBindings_sums [of 0 "[sample_normal\<lparr>SizeInBytes := 5\<rparr>]" "[[sample_mono, sample_normal]]"]
  have "SizeInBytes ?vb = asked SizeInBytes (concat [[sample_mono, sample_normal]] @ [sample_normal\<lparr>SizeInBytes := 5\<rparr>]) (GetMapKey ?vb)"
    by blast
  moreover have "GetMapKey ?vb = GetMapKey sample_normal" by (simp add: GetMapKey_def)
  ultimately show ?thesis by simp
qed

section \<open>Whether the workload is recreated\<close>

lemma realloc_parts:
  assumes "storage_realloc ord info req0 old = Inr resp"
  shows "\<exists>req. request_Validate (realloc_request ord req0 old) = Inr req \<and> VolumesLimit (reallocWorkload resp) = rVolumesLimit req \<and>
    reallocEngineParams resp = realloc_engine req old (reallocWorkload resp) (VolumePlanRequest (reallocWorkload resp))"
  using assms by (auto simp: storage_realloc_def Let_def bind_res_Inr_iff split: if_splits)

text \<open>The bindings a workload runs with.\<close>

definition bound_keys :: "VolumeBindings \<Rightarrow> VolumePlan \<Rightarrow> (string \<times> string \<times> string) set" where
  "bound_keys vbs plan = GetMapKey ` set (ApplyPlan vbs plan)"

text \<open>The code compares keys only.\<close>

lemma realloc_volume_changed:
  assumes "storage_realloc ord info req old = Inr resp"
    and "distinct (map GetMapKey (ApplyPlan (VolumesLimit (reallocWorkload resp)) (VolumePlanRequest (reallocWorkload resp))))"
  shows "epVolumes (reallocEngineParams resp) =
      map (vb_ToString True) (ApplyPlan (VolumesLimit (reallocWorkload resp)) (VolumePlanRequest (reallocWorkload resp))) \<and>
    (VolumeChanged (reallocEngineParams resp) \<longleftrightarrow>
      bound_keys (VolumesLimit (reallocWorkload resp)) (VolumePlanRequest (reallocWorkload resp)) \<noteq>
      bound_keys (VolumesLimit old) (VolumePlanLimit old))"
proof -
  obtain v where v: "VolumesLimit (reallocWorkload resp) = rVolumesLimit v"
    "reallocEngineParams resp = realloc_engine v old (reallocWorkload resp) (VolumePlanRequest (reallocWorkload resp))"
    using realloc_parts [OF assms(1)] by blast
  let ?new = "map GetMapKey (ApplyPlan (rVolumesLimit v) (VolumePlanRequest (reallocWorkload resp)))"
    and ?old = "map GetMapKey (ApplyPlan (VolumesLimit old) (VolumePlanLimit old))"
  have "length ?new \<noteq> length (remdups ?old) \<or> \<not> set ?new \<subseteq> set ?old \<longleftrightarrow> set ?new \<noteq> set ?old"
  proof (cases "set ?new \<subseteq> set ?old")
    case True
    have "length ?new = card (set ?new)" "length (remdups ?old) = card (set ?old)"
      using assms(2) v(1) by (simp_all only: distinct_card length_remdups_card_conv)
    then show ?thesis using True card_subset_eq [OF finite_set True] by auto
  qed auto
  then show ?thesis
    unfolding v by (auto simp: realloc_engine_def bound_keys_def Let_def list_ex_iff image_subset_iff)
qed

text \<open>
  C38: The flag \<open>volume_changed\<close>. The engine gets the bindings of the new workload, on their devices. When
  these have keys of their own, the flag is raised whenever a bind appears, goes away or has another
  device or source, destination or flags than before, and it is never raised for a list of the binds the
  workload runs with. (A list that differs in sizes and quotas only lies between the two: the code does
  not raise the flag then.)
\<close>

theorem realloc_announces_new_binds:
  assumes "storage_realloc ord info req old = Inr resp"
    and "distinct (map GetMapKey (ApplyPlan (VolumesLimit (reallocWorkload resp)) (VolumePlanRequest (reallocWorkload resp))))"
  shows "epVolumes (reallocEngineParams resp) =
      map (vb_ToString True) (ApplyPlan (VolumesLimit (reallocWorkload resp)) (VolumePlanRequest (reallocWorkload resp))) \<and>
    (bound_keys (VolumesLimit (reallocWorkload resp)) (VolumePlanRequest (reallocWorkload resp)) \<noteq>
       bound_keys (VolumesLimit old) (VolumePlanLimit old) \<longrightarrow> VolumeChanged (reallocEngineParams resp)) \<and>
    (set (ApplyPlan (VolumesLimit (reallocWorkload resp)) (VolumePlanRequest (reallocWorkload resp))) =
       set (ApplyPlan (VolumesLimit old) (VolumePlanLimit old)) \<longrightarrow> \<not> VolumeChanged (reallocEngineParams resp))"
  using realloc_volume_changed [OF assms] by (simp add: bound_keys_def)

text \<open>The normal binding of \<open>sample_old\<close> stays as it is and a binding with another mount point is added.\<close>

definition sample_addition :: WorkloadResourceRequest where
  "sample_addition = (let vb = sample_normal\<lparr>Destination := ''/k'', SizeInBytes := 5, ReadIOPS := 0\<rparr> in
     \<lparr>rVolumesRequest = [vb], rVolumesLimit = [vb], rStorageRequest = 0, rStorageLimit = 0, storageFolded = False\<rparr>)"

theorem realloc_announces_new_binds_witness:
  "\<exists>resp. storage_realloc (\<lambda>_. 0) sample_busy sample_addition sample_old = Inr resp \<and> VolumeChanged (reallocEngineParams resp)"
proof -
  have "case storage_realloc (\<lambda>_. 0) sample_busy sample_addition sample_old of Inl _ \<Rightarrow> False
    | Inr resp \<Rightarrow> map GetMapKey (ApplyPlan (VolumesLimit (reallocWorkload resp)) (VolumePlanRequest (reallocWorkload resp))) =
        [(''/data/0'', ''/k'', ''rw''), (''/data/1'', ''/m'', ''mrw''), (''/data/0'', ''/n'', ''rw'')]"
    by code_simp
  then obtain resp where resp: "storage_realloc (\<lambda>_. 0) sample_busy sample_addition sample_old = Inr resp"
    and new: "map GetMapKey (ApplyPlan (VolumesLimit (reallocWorkload resp)) (VolumePlanRequest (reallocWorkload resp))) =
        [(''/data/0'', ''/k'', ''rw''), (''/data/1'', ''/m'', ''mrw''), (''/data/0'', ''/n'', ''rw'')]"
    by (auto split: sum.splits)
  have old: "map GetMapKey (ApplyPlan (VolumesLimit sample_old) (VolumePlanLimit sample_old)) = [(''/data/1'', ''/m'', ''mrw''), (''/data/0'', ''/n'', ''rw'')]"
    by code_simp
  have "bound_keys (VolumesLimit (reallocWorkload resp)) (VolumePlanRequest (reallocWorkload resp)) \<noteq>
      bound_keys (VolumesLimit sample_old) (VolumePlanLimit sample_old)"
    using arg_cong [OF new, of set] arg_cong [OF old, of set] by (auto simp: bound_keys_def dest!: equalityD1)
  moreover have "distinct (map GetMapKey (ApplyPlan (VolumesLimit (reallocWorkload resp)) (VolumePlanRequest (reallocWorkload resp))))"
    unfolding new by simp
  ultimately show ?thesis using realloc_announces_new_binds [OF resp] resp by blast
qed

text \<open>A binding that only grows does not raise the flag, although the list for the engine has its size.\<close>

lemma grown_bind_not_announced:
  "\<exists>resp. storage_realloc (\<lambda>_. 0) sample_busy sample_growth sample_old = Inr resp \<and> \<not> VolumeChanged (reallocEngineParams resp)"
proof -
  let ?vbs = "[sample_mono, sample_normal\<lparr>SizeInBytes := 35, ReadIOPS := 20\<rparr>]"
    and ?plan = "[(sample_normal\<lparr>SizeInBytes := 35, ReadIOPS := 20\<rparr>, [(''/data/0'', 35)]), (sample_mono, [(''/data/1'', 60)])]"
  obtain resp where resp: "storage_realloc (\<lambda>_. 0) sample_busy sample_growth sample_old = Inr resp"
    "VolumePlanRequest (reallocWorkload resp) = ?plan" "VolumesLimit (reallocWorkload resp) = ?vbs"
    using sample_realloc by (auto simp: sample_grown_def Let_def)
  have keys: "map GetMapKey (ApplyPlan ?vbs ?plan) = [(''/data/1'', ''/m'', ''mrw''), (''/data/0'', ''/n'', ''rw'')]"
    "map GetMapKey (ApplyPlan (VolumesLimit sample_old) (VolumePlanLimit sample_old)) = [(''/data/1'', ''/m'', ''mrw''), (''/data/0'', ''/n'', ''rw'')]"
    by code_simp+
  then have "set (map GetMapKey (ApplyPlan ?vbs ?plan)) = set (map GetMapKey (ApplyPlan (VolumesLimit sample_old) (VolumePlanLimit sample_old)))"
    by (simp only:)
  moreover have "distinct (map GetMapKey (ApplyPlan ?vbs ?plan))" unfolding keys by simp
  ultimately show ?thesis
    using realloc_volume_changed [OF resp(1)] resp by (simp add: bound_keys_def)
qed

end
