(* ===== verification/Affinity_Safety.thy ===== *)
theory Affinity_Safety
  imports Affinity_Props
begin

text \<open>
  A realloc hands out no more than the node has free once the old plan of the workload is given back.
\<close>

section \<open>All volumes of a host\<close>

definition allv :: "host \<Rightarrow> volume list" where
  "allv h = usedVolumes h @ unusedVolumes h"

lemma sched_ok_allv: "sched_ok h \<longleftrightarrow> distinct (map vdevice (allv h)) \<and> wf_disks (hdisks h)"
  by (simp only: sched_ok_def allv_def)

lemma vol_of_update:
  "i < length vs \<Longrightarrow> vol_of (vs[i := w]) d = vol_of vs d - vol_of [vs ! i] d + vol_of [w] d"
proof (induction vs arbitrary: i)
  case (Cons v vs)
  then show ?case by (cases i) (simp_all add: algebra_simps)
qed simp

lemma vol_of_replace:
  assumes "index_of (\<lambda>v. vdevice v = dev) vs = Some i" "vdevice w = dev" "distinct (map vdevice vs)"
  shows "vol_of (vs[i := w]) d = (if d = dev then vsize w else vol_of vs d)" "vol_of vs dev = vsize (vs ! i)"
proof -
  have i: "i < length vs" "vdevice (vs ! i) = dev" using index_of_SomeD [OF assms(1)] by simp_all
  then show old: "vol_of vs dev = vsize (vs ! i)" using vol_of_unique [OF assms(3), of "vs ! i"] by simp
  show "vol_of (vs[i := w]) d = (if d = dev then vsize w else vol_of vs d)"
    using old i(2) assms(2) by (auto simp: vol_of_update [OF i(1)])
qed

lemma getVolumeByDevice_cases:
  assumes "getVolumeByDevice dev h = Some v"
  obtains (used) i where "index_of (\<lambda>v. vdevice v = dev) (usedVolumes h) = Some i" "v = usedVolumes h ! i"
      "\<And>w. set_volume dev w h = h\<lparr>usedVolumes := (usedVolumes h)[i := w]\<rparr>"
  | (unused) i where "dev \<notin> vdevice ` set (usedVolumes h)" "index_of (\<lambda>v. vdevice v = dev) (unusedVolumes h) = Some i"
      "v = unusedVolumes h ! i" "\<And>w. set_volume dev w h = h\<lparr>unusedVolumes := (unusedVolumes h)[i := w]\<rparr>"
  using assms by (auto simp: getVolumeByDevice_def set_volume_def split: option.splits)

lemma set_volume_amounts:
  assumes "getVolumeByDevice dev h = Some v" "vdevice w = dev" "distinct (map vdevice (allv h))"
  shows "vol_of (allv (set_volume dev w h)) d = (if d = dev then vsize w else vol_of (allv h) d)"
    "vol_of (allv h) dev = vsize v" "mset (map vdevice (allv (set_volume dev w h))) = mset (map vdevice (allv h))"
    "hdisks (set_volume dev w h) = hdisks h" "dev \<in> vdevice ` set (allv h)"
proof -
  have dist: "distinct (map vdevice (usedVolumes h))" "distinct (map vdevice (unusedVolumes h))"
    "vdevice ` set (usedVolumes h) \<inter> vdevice ` set (unusedVolumes h) = {}"
    using assms(3) by (simp_all add: allv_def)
  have "vol_of (allv (set_volume dev w h)) d = (if d = dev then vsize w else vol_of (allv h) d) \<and>
      vol_of (allv h) dev = vsize v \<and> dev \<in> vdevice ` set (allv h)"
    using assms(1)
  proof (cases rule: getVolumeByDevice_cases)
    case (used i)
    have i: "usedVolumes h ! i \<in> set (usedVolumes h)" "vdevice (usedVolumes h ! i) = dev" using index_of_SomeD [OF used(1)] by simp_all
    then have "dev \<in> vdevice ` set (usedVolumes h)" by blast
    then have "dev \<notin> vdevice ` set (unusedVolumes h)" using dist(3) by blast
    then have "vol_of (unusedVolumes h) dev = 0" by (rule vol_of_absent)
    then show ?thesis
      using vol_of_replace [OF used(1) assms(2) dist(1)] i by (auto simp: allv_def used(2,3))
  next
    case (unused i)
    have i: "unusedVolumes h ! i \<in> set (unusedVolumes h)" "vdevice (unusedVolumes h ! i) = dev" using index_of_SomeD [OF unused(2)] by simp_all
    have "vol_of (usedVolumes h) dev = 0" by (rule vol_of_absent [OF unused(1)])
    then show ?thesis
      using vol_of_replace [OF unused(2) assms(2) dist(2)] i by (auto simp: allv_def unused(3,4))
  qed
  then show "vol_of (allv (set_volume dev w h)) d = (if d = dev then vsize w else vol_of (allv h) d)"
    "vol_of (allv h) dev = vsize v" "dev \<in> vdevice ` set (allv h)" by blast+
  show "mset (map vdevice (allv (set_volume dev w h))) = mset (map vdevice (allv h))"
    using set_volume_keeps [OF assms(2)] by (simp add: keeps_def allv_def)
  show "hdisks (set_volume dev w h) = hdisks h" by (simp add: set_volume_def split: option.splits)
qed

section \<open>Giving back\<close>

text \<open>What a binding holds of the quotas of the disk that backs a path.\<close>

definition quota_at :: "Disks \<Rightarrow> string \<Rightarrow> VolumeBinding \<Rightarrow> string \<times> quota_kind \<Rightarrow> i64" where
  "quota_at ds path r dk = (case GetDiskByPath ds path of
     Some i \<Rightarrow> if RequireIOPS r \<and> Device (ds ! i) = fst dk then bquota r (snd dk) else 0 | None \<Rightarrow> 0)"

definition mounts_quota :: "Disks \<Rightarrow> VolumeBindings \<Rightarrow> string \<times> quota_kind \<Rightarrow> i64" where
  "mounts_quota ds mounts dk = sum_list (map (\<lambda>r. quota_at ds (Source r) r dk) mounts)"

definition plan_quota :: "Disks \<Rightarrow> VolumePlan \<Rightarrow> string \<times> quota_kind \<Rightarrow> i64" where
  "plan_quota ds plan dk = sum_list (map (\<lambda>(r, vm). quota_at ds (GetDevice vm) r dk) plan)"

lemma quota_at_layout:
  assumes "layout_of ds' = layout_of ds"
  shows "quota_at ds' = quota_at ds"
proof -
  have len: "length ds' = length ds" using arg_cong [OF assms, of length] by (simp add: layout_of_def)
  have snds: "map Mounts ds' = map Mounts ds" using arg_cong [OF assms, of "map snd"] by (simp add: layout_of_def comp_def)
  have fsts: "map Device ds' = map Device ds" using arg_cong [OF assms, of "map fst"] by (simp add: layout_of_def comp_def)
  have "Device (ds' ! i) = Device (ds ! i)" if "i < length ds" for i
    using arg_cong [OF fsts, of "\<lambda>xs. xs ! i"] that len by simp
  moreover have "GetDiskByPath ds' path = GetDiskByPath ds path" for path by (rule GetDiskByPath_mounts [OF snds])
  ultimately show ?thesis by (auto simp: quota_at_def fun_eq_iff dest: GetDiskByPath_bound split: option.splits)
qed

lemma quota_increase [simp]: "quota (increaseIOPSQuota req d) k = quota d k + bquota req k"
  by (cases k) (simp_all add: increaseIOPSQuota_def)

lemma give_back_disk:
  assumes "getDiskByPath h path = (Some i, h1)" "cache_ok h" "wf_disks (hdisks h)" "RequireIOPS req"
  shows "disks_amount (hdisks (update_disk i (increaseIOPSQuota req) h1)) dk =
      disks_amount (hdisks h) dk + quota_at (hdisks h) path req dk"
    "layout_of (hdisks (update_disk i (increaseIOPSQuota req) h1)) = layout_of (hdisks h)"
    "wf_disks (hdisks (update_disk i (increaseIOPSQuota req) h1))" "cache_ok (update_disk i (increaseIOPSQuota req) h1)"
    "allv (update_disk i (increaseIOPSQuota req) h1) = allv h"
proof -
  let ?h2 = "update_disk i (increaseIOPSQuota req) h1"
  note dd = getDiskByPath_fields [OF assms(1)]
  have i: "GetDiskByPath (hdisks h) path = Some i" using dd(6) [OF assms(2)] by simp
  then have len: "i < length (hdisks h)" by (rule GetDiskByPath_bound)
  note dev = wf_disks_nth [OF assms(3) len]
  have ds: "hdisks ?h2 = (hdisks h)[i := increaseIOPSQuota req (hdisks h ! i)]" using dd(4) by (simp add: update_disk_def)
  have "disks_amount (hdisks h) (Device (hdisks h ! i), k) = quota (hdisks h ! i) k" for k
    by (simp add: disks_amount_def dev)
  then show "disks_amount (hdisks ?h2) dk = disks_amount (hdisks h) dk + quota_at (hdisks h) path req dk"
    unfolding ds by (cases dk) (auto simp: disks_amount_update [OF dev] quota_at_def i assms(4))
  have fr: "frame h1 ?h2" by (rule frame_update_disk) simp_all
  then show lay: "layout_of (hdisks ?h2) = layout_of (hdisks h)" using dd(4) by (simp add: frame_def layout_def layout_of_def)
  show "wf_disks (hdisks ?h2)" using layout_of_wf [OF lay] assms(3) by simp
  show "cache_ok ?h2" using fr dd(5) [OF assms(2)] by (simp add: frame_def)
  show "allv ?h2 = allv h" using dd(2,3) by (simp add: allv_def update_disk_def)
qed

lemma release_mounts_amounts:
  assumes "release_mounts reqs h = (h', None)" "cache_ok h" "wf_disks (hdisks h)"
  shows "allv h' = allv h \<and> layout_of (hdisks h') = layout_of (hdisks h) \<and> cache_ok h' \<and>
    disks_amount (hdisks h') dk = disks_amount (hdisks h) dk + mounts_quota (hdisks h) reqs dk"
  using assms
proof (induction reqs h rule: release_mounts.induct)
  case (1 h)
  then show ?case by (simp add: mounts_quota_def)
next
  case (2 req reqs h)
  show ?case
  proof (cases "RequireIOPS req")
    case False
    then have "quota_at (hdisks h) (Source req) req dk = 0" by (simp add: quota_at_def split: option.splits)
    with 2(1) [OF False _ 2(4,5)] 2(3) False show ?thesis by (simp add: mounts_quota_def)
  next
    case True
    obtain disk h1 where d: "getDiskByPath h (Source req) = (disk, h1)" by fastforce
    with 2(3) True obtain i where i: "disk = Some i" by (cases disk) auto
    note g = give_back_disk [OF d [unfolded i] 2(4,5) True]
    have "release_mounts reqs (update_disk i (increaseIOPSQuota req) h1) = (h', None)" using 2(3) True d i by simp
    with 2(2) [OF _ d [symmetric] refl i _ g(4,3)] True g quota_at_layout [OF g(2)] show ?thesis
      by (simp add: mounts_quota_def algebra_simps)
  qed
qed

lemma release_plan_amounts:
  assumes "release_plan plan h = (h', None)" "cache_ok h" "sched_ok h"
  shows "vol_of (allv h') d = vol_of (allv h) d + plan_use plan d \<and> layout_of (hdisks h') = layout_of (hdisks h) \<and>
    disks_amount (hdisks h') dk = disks_amount (hdisks h) dk + plan_quota (hdisks h) plan dk \<and>
    (vol_of (allv h') d \<noteq> vol_of (allv h) d \<longrightarrow> d \<in> vdevice ` set (allv h))"
  using assms
proof (induction plan h rule: release_plan.induct)
  case (1 h)
  then show ?case by (simp add: plan_quota_def)
next
  case (2 req vm plan h)
  obtain v where v: "getVolumeByDevice (GetDevice vm) h = Some v" using 2(3) by (auto split: option.splits)
  let ?h1 = "set_volume (GetDevice vm) (change_size v (GetSize vm)) h"
  have dev: "vdevice v = GetDevice vm" by (rule getVolumeByDevice_device [OF v])
  have dist: "distinct (map vdevice (allv h))" using 2(5) by (simp add: sched_ok_allv)
  note s = set_volume_amounts [OF v _ dist, of "change_size v (GetSize vm)"]
  have k: "keeps h ?h1" using dev by (intro set_volume_keeps) simp
  have ok1: "cache_ok ?h1" "sched_ok ?h1" using k 2(4) keeps_sched_ok [OF k 2(5)] by (auto simp: keeps_def)
  have vol: "vol_of (allv ?h1) d = vol_of (allv h) d + (if GetDevice vm = d then GetSize vm else 0)"
    using s dev by (auto simp: change_size_def)
  have devs: "vdevice ` set (allv ?h1) = vdevice ` set (allv h)"
    by (rule set_devices [OF s(3)]) (simp add: dev)
  have mem: "GetDevice vm \<in> vdevice ` set (allv h)"
    by (rule set_volume_amounts(5) [OF v _ dist]) (rule dev)
  show ?case
  proof (cases "RequireIOPS req")
    case False
    then have "quota_at (hdisks h) (GetDevice vm) req dk = 0" by (simp add: quota_at_def split: option.splits)
    with 2(1) [OF v refl False _ ok1] 2(3) False v vol s(4) devs mem dev show ?thesis
      by (auto simp: plan_quota_def algebra_simps split: if_splits)
  next
    case True
    obtain disk h2 where d: "getDiskByPath ?h1 (vdevice v) = (disk, h2)" by fastforce
    with 2(3) True v obtain i where i: "disk = Some i" by (cases disk) auto
    have wf: "wf_disks (hdisks ?h1)" using ok1(2) by (simp add: sched_ok_allv)
    note g = give_back_disk [OF d [unfolded i] ok1(1) wf True]
    let ?h3 = "update_disk i (increaseIOPSQuota req) h2"
    have ok3: "sched_ok ?h3" using ok1(2) g(3,5) by (simp add: sched_ok_allv)
    have "release_plan plan ?h3 = (h', None)" using 2(3) True v d i by simp
    from 2(2) [OF v refl _ d [symmetric] refl i this g(4) ok3] True
    show ?thesis
      using g(1,2,5) s(4) vol dev devs mem quota_at_layout [OF g(2)]
      by (auto simp: plan_quota_def algebra_simps split: if_splits)
  qed
qed

section \<open>Paying\<close>

definition pays :: "host \<Rightarrow> VolumePlan \<Rightarrow> Disks \<Rightarrow> host \<Rightarrow> bool" where
  "pays h vp dp h' \<longleftrightarrow> used_up (allv h) (hdisks h) vp dp (allv h') (hdisks h')"

lemma pays_refl: "pays h [] [] h"
  by (simp add: pays_def used_up_refl)

lemma pays_trans: "pays h vp dp h1 \<Longrightarrow> pays h1 vp' dp' h2 \<Longrightarrow> pays h (vp @ vp') (disks_Add dp dp') h2"
  unfolding pays_def by (rule used_up_trans)

lemma disks_Add_Nil [simp]: "disks_Add dp [] = dp"
  by (simp add: disks_Add_def)

lemma pays_volumes: "pays h vp dp h1 \<Longrightarrow> pays h1 vp' [] h2 \<Longrightarrow> pays h (vp @ vp') dp h2"
  using pays_trans [of h vp dp h1 vp' "[]" h2] by simp

lemma pays_disks: "pays h vp dp h1 \<Longrightarrow> allv h2 = allv h1 \<Longrightarrow> paid (hdisks h1) q (hdisks h2) \<Longrightarrow> pays h vp (disks_Add dp q) h2"
  using pays_trans [of h vp dp h1 "[]" q h2] by (simp add: pays_def used_up_def)

lemma set_volume_pays:
  assumes "getVolumeByDevice dev h = Some v" "vdevice w = dev" "sched_ok h"
    and "\<And>d. plan_use vp d = (if d = dev then vsize v - vsize w else 0)" "0 \<le> vsize w" "vsize w \<le> vsize v"
  shows "pays h vp [] (set_volume dev w h)"
proof -
  have dist: "distinct (map vdevice (allv h))" using assms(3) by (simp add: sched_ok_allv)
  note s = set_volume_amounts [OF assms(1,2) dist]
  have "val (vsize v - vsize w) = val (vsize v) - val (vsize w)" using assms(5,6) by (rule val_diff_le)
  then have "spend (vol_of (allv h)) (\<lambda>d. val (plan_use vp d)) (vol_of (allv (set_volume dev w h)))"
    using s(1,2) assms(4-6) by (auto simp: spend_def i64_le_iff)
  then show ?thesis using s(3,4) by (simp add: pays_def used_up_def)
qed

lemma take_volume_pays:
  assumes "getVolumeByDevice dev h = Some v" "sched_ok h" "\<not> vsize v < SizeInBytes req" "0 \<le> SizeInBytes req"
  shows "pays h [(req, [(dev, SizeInBytes req)])] [] (set_volume dev (change_size v (- SizeInBytes req)) h)"
proof (rule set_volume_pays [OF assms(1) _ assms(2)])
  have "val (vsize v - SizeInBytes req) = val (vsize v) - val (SizeInBytes req)"
    using assms(3,4) by (intro val_diff_le) simp_all
  then show "0 \<le> vsize (change_size v (- SizeInBytes req))" "vsize (change_size v (- SizeInBytes req)) \<le> vsize v"
    using assms(3,4) by (simp_all add: change_size_def i64_le_iff i64_less_iff)
qed (use getVolumeByDevice_device [OF assms(1)] in \<open>simp_all add: change_size_def GetDevice_def GetSize_def\<close>)

lemma charge_path_pays:
  assumes "getDiskByPath h path = (Some i, h2)" "pays h0 vp dp h" "sched_ok h" "cache_ok h"
    and "isDiskIOPSQuotaQualified (disk_at h2 (Some i)) req" "ValidIOParameters req"
  defines "h3 \<equiv> update_disk i (decreaseIOPSQuota req) h2"
  shows "pays h0 vp (disks_Add dp [DiskQuota req (hdisks h3 ! i)]) h3"
proof -
  note dd = getDiskByPath_fields [OF assms(1)]
  have len: "i < length (hdisks h)" using dd(6) [OF assms(4)] GetDiskByPath_bound by metis
  have wf: "wf_disks (hdisks h)" using assms(3) by (simp add: sched_ok_allv)
  have ds: "hdisks h3 = (hdisks h)[i := decreaseIOPSQuota req (hdisks h ! i)]" using dd(4) by (simp add: h3_def update_disk_def)
  have "paid (hdisks h) [DiskQuota req (hdisks h ! i)] (hdisks h3)"
    unfolding ds using assms(5,6) dd(4) by (intro paid_charge [OF wf len]) (simp_all add: disk_at_def)
  moreover have "DiskQuota req (hdisks h3 ! i) = DiskQuota req (hdisks h ! i)" using len by (simp add: ds)
  moreover have "allv h3 = allv h" using dd(2,3) by (simp add: h3_def allv_def update_disk_def)
  ultimately show ?thesis using pays_disks [OF assms(2)] by simp
qed

section \<open>The requests that stay\<close>

lemma affinity_loop_pays:
  assumes "affinity_loop affinity vp dp h = (h', Inr (vp', dp'))" "pays h0 vp dp h" "sched_ok h" "cache_ok h"
    and "valid_reqs (map fst affinity)" "distinct (map (Destination \<circ> fst) (vp @ affinity))"
  shows "pays h0 vp' dp' h'"
  using assms
proof (induction affinity arbitrary: vp dp h)
  case (Cons e affinity)
  obtain req vm where e: "e = (req, vm)" by fastforce
  have req: "0 \<le> SizeInBytes req" "ValidIOParameters req" "valid_reqs (map fst affinity)"
    using Cons.prems(5) by (simp_all add: e valid_reqs_def)
  obtain v where v: "getVolumeByDevice (GetDevice vm) h = Some v" using Cons.prems(1) by (cases "getVolumeByDevice (GetDevice vm) h") (auto simp: e Let_def)
  let ?h1 = "set_volume (GetDevice vm) (change_size v (- SizeInBytes req)) h"
  let ?vp = "plan_Merge vp [(req, [(vdevice v, SizeInBytes req)])]"
  have dev: "vdevice v = GetDevice vm" by (rule getVolumeByDevice_device [OF v])
  have k1: "keeps h ?h1" using dev by (intro set_volume_keeps) simp
  have merge: "?vp = vp @ [(req, [(GetDevice vm, SizeInBytes req)])]"
    using Cons.prems(6) dev by (subst plan_Merge_append) (auto simp: e comp_def)
  have dist: "distinct (map (Destination \<circ> fst) (?vp @ affinity))" using Cons.prems(6) by (simp add: merge e comp_def)
  have fits: "\<not> vsize v < SizeInBytes req" using Cons.prems(1) v by (auto simp: e Let_def)
  have p1: "pays h0 ?vp dp ?h1"
    unfolding merge by (rule pays_volumes [OF Cons.prems(2) take_volume_pays [OF v Cons.prems(3) fits req(1)]])
  have ok1: "sched_ok ?h1" "cache_ok ?h1" using k1 keeps_sched_ok [OF k1 Cons.prems(3)] Cons.prems(4) by (auto simp: keeps_def)
  show ?case
  proof (cases "RequireIOPS req")
    case False
    then have "affinity_loop affinity ?vp dp ?h1 = (h', Inr (vp', dp'))" using Cons.prems(1) v fits by (simp add: e Let_def)
    from Cons.IH [OF this p1 ok1 req(3) dist] show ?thesis .
  next
    case True
    obtain disk h2 where d: "getDiskByPath ?h1 (GetDevice vm) = (disk, h2)" by fastforce
    have q: "isDiskIOPSQuotaQualified (disk_at h2 disk) req"
      using Cons.prems(1) v fits True d by (auto simp: e Let_def split: if_splits)
    with True obtain i where i: "disk = Some i" by (cases disk) (auto simp: disk_at_def)
    let ?h3 = "update_disk i (decreaseIOPSQuota req) h2"
    have run: "affinity_loop affinity ?vp (disks_Add dp [DiskQuota req (hdisks ?h3 ! i)]) ?h3 = (h', Inr (vp', dp'))"
      using Cons.prems(1) v fits True d q i by (simp add: e Let_def)
    have k3: "keeps ?h1 ?h3"
      by (rule keeps_trans [OF frame_keeps [OF frame_getDiskByPath [OF d]] frame_keeps [OF frame_update_disk]]) simp_all
    have ok3: "sched_ok ?h3" "cache_ok ?h3" using k3 keeps_sched_ok [OF k3 ok1(1)] ok1(2) by (auto simp: keeps_def)
    show ?thesis
      using Cons.IH [OF run charge_path_pays [OF d [unfolded i] p1 ok1 _ req(2)] ok3 req(3) dist] q i by simp
  qed
qed simp

lemma commonProcess_pays:
  assumes "commonProcess k reqs old vp dp nr h = (h', Inr (vp', dp', nr'))" "pays h0 vp dp h" "sched_ok h" "cache_ok h"
    and "valid_reqs reqs" "distinct (map Destination (map fst vp @ reqs))"
  shows "pays h0 vp' dp' h'"
proof -
  obtain aff rest where cl: "classifyAffinityRequests k reqs old = (aff, rest)" by fastforce
  have run: "affinity_loop aff vp dp h = (h', Inr (vp', dp'))"
    using assms(1) cl by (auto simp: commonProcess_def bind_res_Inr_iff split: prod.splits)
  note aff = classifyAffinity_distinct [OF cl assms(6)]
  have valid: "valid_reqs (map fst aff)" using assms(5) aff(2) unfolding valid_reqs_def by blast
  from affinity_loop_pays [OF run assms(2-4) valid aff(1)] show ?thesis .
qed

section \<open>The monopoly requests\<close>

lemma getMonoPlan_empties: "getMonoPlan reqs v h = (h1, v1, Inr r) \<Longrightarrow> vsize v1 = 0"
  by (auto simp: getMonoPlan_def Let_def split: if_splits prod.splits bool.splits list.splits option.splits)

lemma getMonoAffinityPlan_pays:
  assumes "getMonoAffinityPlan reqs aff old h = (h', Inr (mvp, mdp))" "pays h0 vp dp h" "sched_ok h" "cache_ok h" "mono_ok reqs"
  shows "pays h0 (vp @ mvp) (case mdp of None \<Rightarrow> dp | Some d \<Rightarrow> disks_Add dp [d]) h'" "map fst mvp = reqs"
proof -
  obtain dev v h1 v1 where v: "getVolumeByDevice dev h = Some v"
    and m: "getMonoPlan reqs v h = (h1, v1, Inr (mvp, mdp))" and h': "h' = set_volume dev v1 h1"
    using assms(1) by (auto simp: getMonoAffinityPlan_def split: if_splits option.splits prod.splits list.splits)
  have tot: "0 \<le> SizeInBytes (total_quota reqs)" "ValidIOParameters (total_quota reqs)" using assms(5) by (simp_all add: mono_ok_def)
  have wf: "wf_disks (hdisks h)" using assms(3) by (simp add: sched_ok_def)
  note dk = getMonoPlan_disks [OF m assms(4) wf tot(2)] and vol = getMonoPlan_volume [OF m]
  show "map fst mvp = reqs" by (rule vol(2))
  have vols: "usedVolumes h1 = usedVolumes h" "unusedVolumes h1 = unusedVolumes h" using dk(1,2) by (simp_all add: frame_def)
  have same: "allv h1 = allv h" "getVolumeByDevice dev h1 = Some v"
    using v unfolding allv_def getVolumeByDevice_def vols by simp_all
  have ok1: "sched_ok h1" by (rule keeps_sched_ok [OF frame_keeps [OF dk(1)] assms(3)])
  let ?q = "case mdp of None \<Rightarrow> [] | Some d \<Rightarrow> [d]"
  have "paid (hdisks h) ?q (hdisks h1)" using dk(3) by blast
  from pays_disks [OF assms(2) same(1) this]
  have p1: "pays h0 vp (case mdp of None \<Rightarrow> dp | Some d \<Rightarrow> disks_Add dp [d]) h1" by (simp split: option.splits)
  have dev: "vdevice v = dev" "vdevice v1 = dev" using getVolumeByDevice_device [OF v] getMonoPlan_vdevice [OF m] by simp_all
  have "0 \<le> vsize v" using vol(3) tot(1) by (rule order_trans [rotated])
  then have "pays h1 mvp [] (set_volume dev v1 h1)"
    using dev getMonoPlan_empties [OF m] vol(1) by (intro set_volume_pays [OF same(2) dev(2) ok1]) simp_all
  from pays_volumes [OF p1 this] show "pays h0 (vp @ mvp) (case mdp of None \<Rightarrow> dp | Some d \<Rightarrow> disks_Add dp [d]) h'"
    by (simp add: h')
qed

lemma process_mono_pays:
  assumes "process_mono k reqs old vp dp nr h = (h', Inr (vp', dp', nr'))" "pays h0 vp dp h" "sched_ok h" "cache_ok h"
    and "mono_ok reqs" "distinct (map Destination (map fst vp @ reqs))"
  shows "pays h0 vp' dp' h'"
proof -
  obtain aff rest where cl: "classifyAffinityRequests k reqs old = (aff, rest)" by fastforce
  show ?thesis
  proof (cases "aff = []")
    case True
    then show ?thesis using assms(1,2) cl by (auto simp: process_mono_def)
  next
    case False
    then obtain mvp mdp where g: "getMonoAffinityPlan reqs aff old h = (h', Inr (mvp, mdp))"
      and res: "vp' = plan_Merge vp mvp" "dp' = (case mdp of None \<Rightarrow> dp | Some d \<Rightarrow> disks_Add dp [d])"
      using assms(1) cl by (auto simp: process_mono_def bind_res_Inr_iff split: prod.splits)
    note p = getMonoAffinityPlan_pays [OF g assms(2-5)]
    have "distinct (map Destination (map fst vp @ map fst mvp))" using assms(6) p(2) by simp
    then have "vp' = vp @ mvp" unfolding res(1) by (intro plan_Merge_append) simp
    with p(1) res(2) show ?thesis by simp
  qed
qed

section \<open>The whole plan\<close>

lemma spend_known:
  assumes "\<And>k. 0 \<le> val (p k) \<and> (0 < val (p k) \<longrightarrow> val (p k) \<le> val (a k))"
  shows "spend a (\<lambda>k. val (p k)) (\<lambda>k. a k - p k)"
proof -
  have "val (a k) = val (a k - p k) + val (p k) \<and> (0 < val (p k) \<longrightarrow> 0 \<le> val (a k - p k))" for k
  proof (cases "p k = 0")
    case False
    then have "0 < val (p k)" using assms [of k] i64_eq_iff [of "p k" 0] by simp
    then show ?thesis using assms [of k] by (simp add: val_diff_le i64_le_iff)
  qed simp
  then show ?thesis using assms by (simp add: spend_def)
qed

lemma one_plan:
  assumes "getVolumePlans reqs h = Inr (p # ps, q # qs)" "sched_ok h" "requests_ok reqs"
    and "maxDeployCount h = 1" "int (length (unusedVolumes h)) < MaxInt"
  shows "spend (vol_of (allv h)) (\<lambda>d. val (plan_use p d)) (\<lambda>d. vol_of (allv h) d - plan_use p d)"
    "spend (disks_amount (hdisks h)) (\<lambda>dk. val (disks_amount q dk)) (\<lambda>dk. disks_amount (hdisks h) dk - disks_amount q dk)"
    "wf_disks q"
proof -
  have max: "maxDeployCount h \<le> MaxInt" using assms(4) by (simp add: MaxInt_def)
  note acc = getVolumePlans_accounts [OF assms(1-3) max assms(5)]
  have "ps = []" using acc assms(4) by simp
  moreover have "length (q # qs) = length (p # ps)" using getVolumePlans_count [OF assms(1)] assms(5) by simp
  ultimately have none: "ps = []" "qs = []" by simp_all
  show "spend (vol_of (allv h)) (\<lambda>d. val (plan_use p d)) (\<lambda>d. vol_of (allv h) d - plan_use p d)"
    using acc by (intro spend_known) (auto simp: none allv_def)
  show "spend (disks_amount (hdisks h)) (\<lambda>dk. val (disks_amount q dk)) (\<lambda>dk. disks_amount (hdisks h) dk - disks_amount q dk)"
    using acc by (intro spend_known) (auto simp: none)
  show "wf_disks q" using acc by simp
qed

text \<open>What is given back when the old plan is released, and what the new one takes of it.\<close>

lemma getAffinityPlan_pays:
  assumes run: "getAffinityPlan ord reqs old oreqs h = Inr (vp, dp)" and need: "NeedSchedule reqs" and ok: "sched_ok h" "cache_ok h"
    and req: "requests_ok reqs" and max: "maxDeployCount h = 1" "int (length (unusedVolumes h)) < MaxInt"
  obtains h1 h2 va da where "release_mounts (mount_class (classifyVolumeBindings oreqs)) h = (h1, None)" "release_plan old h1 = (h2, None)"
    "spend (vol_of (allv h2)) (\<lambda>d. val (plan_use vp d)) va" "spend (disks_amount (hdisks h2)) (\<lambda>dk. val (disks_amount dp dk)) da"
proof -
  let ?c = "classifyVolumeBindings reqs"
  have max': "maxDeployCount h \<le> MaxInt" using max(1) by (simp add: MaxInt_def)
  obtain h1 h2 h3 mdp h4 vp1 dp1 nr1 h5 vp2 dp2 nr2 h6 vp3 dp3 nr3 where
    r: "release_mounts (mount_class (classifyVolumeBindings oreqs)) h = (h1, None)" "release_plan old h1 = (h2, None)"
    and s: "getMountDiskPlan (mount_class ?c) h2 = (h3, Inr mdp)"
      "commonProcess (ord 2) (normal_class ?c) old [] (disks_Add [] mdp) [] h3 = (h4, Inr (vp1, dp1, nr1))"
      "process_mono (ord 3) (mono_class ?c) old vp1 dp1 nr1 h4 = (h5, Inr (vp2, dp2, nr2))"
      "commonProcess (ord 4) (unlimited_class ?c) old vp2 dp2 nr2 h5 = (h6, Inr (vp3, dp3, nr3))"
    and last: "nr3 = [] \<and> vp = vp3 \<and> dp = dp3 \<or> nr3 \<noteq> [] \<and> (\<exists>p ps q qs. getVolumePlans nr3 h6 = Inr (p # ps, q # qs) \<and>
        vp = vp3 @ p \<and> dp = disks_Add dp3 q)"
    and k: "keeps h h2" "keeps h h3" "keeps h h4" "keeps h h5" "keeps h h6" and w: "wf_disks dp3"
    and dist: "distinct (map Destination (map fst [] @ normal_class ?c))" "distinct (map Destination (map fst vp1 @ mono_class ?c))"
      "distinct (map Destination (map fst vp2 @ unlimited_class ?c))"
    and nr3: "requests_ok nr3"
    by (rule getAffinityPlan_stages [OF run need ok req max' max(2)])
  have oks: "sched_ok h'" "cache_ok h'" if "keeps h h'" for h'
    using that ok keeps_sched_ok [OF that] by (auto simp: keeps_def)
  have valid: "valid_reqs (normal_class ?c)" "valid_reqs (unlimited_class ?c)" "valid_reqs (mount_class ?c)" "mono_ok (mono_class ?c)"
    using req classes_valid [of reqs] by (auto simp: requests_ok_def valid_reqs_def classes_sets)
  have "host_ok h2" using oks [OF k(1)] by (simp add: host_ok_def sched_ok_def)
  note m = getMountDiskPlan_paid(2,4) [OF s(1) this valid(3)] getMountDiskPlan_frame [OF s(1)]
  have "allv h3 = allv h2" using m by (simp add: allv_def frame_def)
  from pays_disks [OF pays_refl this m(2) [OF refl]] have p3: "pays h2 [] (disks_Add [] mdp) h3" .
  have p4: "pays h2 vp1 dp1 h4" by (rule commonProcess_pays [OF s(2) p3 oks [OF k(2)] valid(1)]) (use dist(1) in simp)
  note p5 = process_mono_pays [OF s(3) p4 oks [OF k(3)] valid(4) dist(2)]
  note p6 = commonProcess_pays [OF s(4) p5 oks [OF k(4)] valid(2) dist(3)]
  have sp: "spend (vol_of (allv h2)) (\<lambda>d. val (plan_use vp3 d)) (vol_of (allv h6))"
    "spend (disks_amount (hdisks h2)) (\<lambda>dk. val (disks_amount dp3 dk)) (disks_amount (hdisks h6))"
    using p6 by (simp_all add: pays_def used_up_def paid_def)
  show ?thesis
  proof (cases "nr3 = []")
    case True
    with last sp that [OF r] show ?thesis by blast
  next
    case False
    then obtain p ps q qs where g: "getVolumePlans nr3 h6 = Inr (p # ps, q # qs)" "vp = vp3 @ p" "dp = disks_Add dp3 q"
      using last by blast
    have "maxDeployCount h6 = 1" "int (length (unusedVolumes h6)) < MaxInt"
      using k(5) max keeps_unused [OF k(5)] by (simp_all add: keeps_def)
    note one = one_plan [OF g(1) oks(1) [OF k(5)] nr3 this]
    have "disks_amount dp dk = disks_amount dp3 dk + disks_amount q dk" for dk
      unfolding g(3) by (rule disk_ledger.amount_add [OF w one(3)])
    then show ?thesis
      using that [OF r] spend_plans [OF sp(1) one(1)] spend_plans [OF sp(2) one(2)] by (simp add: g(2))
  qed
qed

lemma getAffinityPlan_bounds:
  assumes "getAffinityPlan ord reqs old oreqs h = Inr (vp, dp)" "NeedSchedule reqs" and ok: "sched_ok h" "cache_ok h"
    and "requests_ok reqs" "maxDeployCount h = 1" "int (length (unusedVolumes h)) < MaxInt"
  shows "0 \<le> plan_use vp d" "0 < plan_use vp d \<Longrightarrow> d \<in> vdevice ` set (allv h) \<and> plan_use vp d \<le> vol_of (allv h) d + plan_use old d"
    "0 \<le> disks_amount dp dk" "0 < disks_amount dp dk \<Longrightarrow> disks_amount dp dk \<le> disks_amount (hdisks h) dk +
      (mounts_quota (hdisks h) (mount_class (classifyVolumeBindings oreqs)) dk + plan_quota (hdisks h) old dk)"
proof -
  obtain h1 h2 va da where r: "release_mounts (mount_class (classifyVolumeBindings oreqs)) h = (h1, None)" "release_plan old h1 = (h2, None)"
    and sp: "spend (vol_of (allv h2)) (\<lambda>d. val (plan_use vp d)) va" "spend (disks_amount (hdisks h2)) (\<lambda>dk. val (disks_amount dp dk)) da"
    by (rule getAffinityPlan_pays [OF assms]) blast
  have "wf_disks (hdisks h)" using ok(1) by (simp add: sched_ok_def)
  note m = release_mounts_amounts [OF r(1) ok(2) this]
  have "sched_ok h1" by (rule keeps_sched_ok [OF release_mounts_keeps [OF r(1)] ok(1)])
  note p = release_plan_amounts [OF r(2) conjunct1 [OF conjunct2 [OF conjunct2 [OF m]]] this]
  have vol: "vol_of (allv h2) d = vol_of (allv h) d + plan_use old d" using m p by simp
  have dsk: "disks_amount (hdisks h2) dk = disks_amount (hdisks h) dk +
      (mounts_quota (hdisks h) (mount_class (classifyVolumeBindings oreqs)) dk + plan_quota (hdisks h) old dk)"
    using m p quota_at_layout [of "hdisks h1" "hdisks h"] by (simp add: plan_quota_def add.assoc)
  show "0 \<le> plan_use vp d" "0 \<le> disks_amount dp dk"
    using spend_pos [OF sp(1)] spend_pos [OF sp(2)] by (simp_all add: i64_le_iff)
  show "0 < disks_amount dp dk \<Longrightarrow> disks_amount dp dk \<le> disks_amount (hdisks h) dk +
      (mounts_quota (hdisks h) (mount_class (classifyVolumeBindings oreqs)) dk + plan_quota (hdisks h) old dk)"
    using spend_le [OF sp(2), of dk] by (simp add: dsk i64_le_iff i64_less_iff)
  assume pos: "0 < plan_use vp d"
  then have le: "plan_use vp d \<le> vol_of (allv h2) d" using spend_le [OF sp(1), of d] by (simp add: i64_le_iff i64_less_iff)
  have "d \<in> vdevice ` set (allv h)"
  proof (rule ccontr)
    assume "d \<notin> vdevice ` set (allv h)"
    moreover have "allv h1 = allv h" using m by simp
    with p [of d dk] calculation have "vol_of (allv h2) d = vol_of (allv h) d" by metis
    ultimately have "vol_of (allv h2) d = 0" by (simp add: vol_of_absent)
    with pos le show False by simp
  qed
  with le show "d \<in> vdevice ` set (allv h) \<and> plan_use vp d \<le> vol_of (allv h) d + plan_use old d" by (simp add: vol)
qed

text \<open>What the old bindings hold of a disk: the mounts on the disk of their source, the others on that of their device.\<close>

definition held_quota :: "NodeResourceInfo \<Rightarrow> VolumeBindings \<Rightarrow> VolumePlan \<Rightarrow> string \<times> quota_kind \<Rightarrow> i64" where
  "held_quota info oreqs old dk =
     (let ds = disks_Sub (Disks (Capacity info)) (Disks (Usage info))
      in mounts_quota ds (mount_class (classifyVolumeBindings oreqs)) dk + plan_quota ds old dk)"

lemma newHost_devices: "vdevice ` set (allv (newHost info n)) = fst ` set (Volumes (Capacity info))"
proof -
  let ?sv = "split_volumes (Volumes (Capacity info)) (Volumes (Usage info))"
  let ?f = "\<lambda>(device, size) (usedVols, unusedVols).
         let used = mget (Volumes (Usage info)) device in
         if used = 0 then (usedVols, unusedVols @ [Volume device size])
         else (usedVols @ [Volume device (size - used)], unusedVols)"
  have "vdevice ` set (fst p @ snd p) = vdevice ` set (fst acc @ snd acc) \<union> fst ` set c" if "p = fold ?f c acc" for p acc c
    using that by (induction c arbitrary: acc) (auto simp: Let_def split: prod.splits if_splits)
  from this [OF refl, of "Volumes (Capacity info)" "([], [])"]
  have "vdevice ` set (fst ?sv @ snd ?sv) = fst ` set (Volumes (Capacity info))" by (simp add: split_volumes_def)
  then show ?thesis by (cases ?sv) (simp add: allv_def newHost_def)
qed

lemma GetAffinityPlan_bounds:
  assumes "GetAffinityPlan ord info reqs old oreqs = Inr (vp, dp)" "node_ok info" "requests_ok reqs"
    and "int (length (Volumes (Capacity info))) < MaxInt"
  shows "0 \<le> plan_use vp d" "0 < plan_use vp d \<Longrightarrow> d \<in> fst ` set (Volumes (Capacity info)) \<and>
      plan_use vp d \<le> mget (Volumes (Capacity info)) d - mget (Volumes (Usage info)) d + plan_use old d"
    "0 \<le> disks_amount dp dk" "0 < disks_amount dp dk \<Longrightarrow> disks_amount dp dk \<le>
      disks_amount (Disks (Capacity info)) dk - disks_amount (Disks (Usage info)) dk + held_quota info oreqs old dk"
proof -
  let ?h = "newHost info 1"
  have run: "getAffinityPlan ord reqs old oreqs ?h = Inr (vp, dp)" using assms(1) by (simp add: GetAffinityPlan_def)
  have cache: "cache_ok ?h" and ds: "hdisks ?h = disks_Sub (Disks (Capacity info)) (Disks (Usage info))"
    by (simp_all add: cache_ok_def newHost_def disks_DeepCopy_def split: prod.splits)
  have un: "int (length (unusedVolumes ?h)) < MaxInt" using newHost_unused [of info 1] assms(4) by linarith
  note new = newHost_spec [OF assms(2), of 1, folded allv_def]
  have "0 \<le> plan_use vp d \<and> (0 < plan_use vp d \<longrightarrow> d \<in> fst ` set (Volumes (Capacity info)) \<and>
        plan_use vp d \<le> mget (Volumes (Capacity info)) d - mget (Volumes (Usage info)) d + plan_use old d) \<and>
    0 \<le> disks_amount dp dk \<and> (0 < disks_amount dp dk \<longrightarrow> disks_amount dp dk \<le>
      disks_amount (Disks (Capacity info)) dk - disks_amount (Disks (Usage info)) dk + held_quota info oreqs old dk)"
  proof (cases "NeedSchedule reqs")
    case False
    then have "vp = []" "dp = []" using run by (simp_all add: getAffinityPlan_def)
    then show ?thesis by simp
  next
    case True
    note b = getAffinityPlan_bounds(1,2) [OF run True new(1) cache assms(3) maxDeployCount_newHost un, of d]
      getAffinityPlan_bounds(3,4) [OF run True new(1) cache assms(3) maxDeployCount_newHost un, of dk]
    have "d \<in> fst ` set (Volumes (Capacity info)) \<and>
        plan_use vp d \<le> mget (Volumes (Capacity info)) d - mget (Volumes (Usage info)) d + plan_use old d" if "0 < plan_use vp d"
    proof -
      have mem: "d \<in> fst ` set (Volumes (Capacity info))" using b(2) [OF that] by (simp add: newHost_devices)
      then show ?thesis using b(2) [OF that] unfolding new(2) [of d] if_P [OF mem] by blast
    qed
    with b(1,3,4) new(3) [of dk] show ?thesis by (auto simp: held_quota_def ds Let_def)
  qed
  then show "0 \<le> plan_use vp d" "0 < plan_use vp d \<Longrightarrow> d \<in> fst ` set (Volumes (Capacity info)) \<and>
      plan_use vp d \<le> mget (Volumes (Capacity info)) d - mget (Volumes (Usage info)) d + plan_use old d"
    "0 \<le> disks_amount dp dk" "0 < disks_amount dp dk \<Longrightarrow> disks_amount dp dk \<le>
      disks_amount (Disks (Capacity info)) dk - disks_amount (Disks (Usage info)) dk + held_quota info oreqs old dk"
    by blast+
qed

text \<open>
  C13: A realloc never overcommits a node. The plan \<open>GetAffinityPlan\<close> makes takes of a volume at most what
  is free together with what the workload had of it, and its disk plan reserves at most the quota that
  is left together with what the old bindings had of the disk; a volume it uses is one of the node's.
\<close>

theorem GetAffinityPlan_never_overcommits:
  assumes "GetAffinityPlan ord info reqs old oreqs = Inr (vp, dp)" "node_ok info" "requests_ok reqs"
    and "int (length (Volumes (Capacity info))) < MaxInt"
  shows "0 \<le> plan_use vp device \<and> (0 < plan_use vp device \<longrightarrow> device \<in> fst ` set (Volumes (Capacity info)) \<and>
      plan_use vp device \<le> mget (Volumes (Capacity info)) device - mget (Volumes (Usage info)) device + plan_use old device) \<and>
    0 \<le> disks_amount dp (disk, kind) \<and> (0 < disks_amount dp (disk, kind) \<longrightarrow> disks_amount dp (disk, kind) \<le>
      disks_amount (Disks (Capacity info)) (disk, kind) - disks_amount (Disks (Usage info)) (disk, kind) +
      held_quota info oreqs old (disk, kind))"
  using GetAffinityPlan_bounds [OF assms] by blast

theorem GetAffinityPlan_never_overcommits_witness:
  "\<exists>vp dp. GetAffinityPlan (\<lambda>_. 0) held_info [grown, sample_normal] [(sample_mono, [(''/data/2'', 80)])] [sample_mono] = Inr (vp, dp) \<and>
    0 < plan_use vp ''/data/2'' \<and> plan_use vp ''/data/2'' \<le> 80"
proof -
  let ?reqs = "[grown, sample_normal]" and ?old = "[(sample_mono, [(''/data/2'', 80)])]"
  have ok: "node_ok held_info" "requests_ok ?reqs" "int (length (Volumes (Capacity held_info))) < MaxInt"
    by code_simp+
  have "case GetAffinityPlan (\<lambda>_. 0) held_info ?reqs ?old [sample_mono] of Inr (vp, dp) \<Rightarrow> 0 < plan_use vp ''/data/2'' | Inl _ \<Rightarrow> False"
    by code_simp
  then obtain vp dp where run: "GetAffinityPlan (\<lambda>_. 0) held_info ?reqs ?old [sample_mono] = Inr (vp, dp)" "0 < plan_use vp ''/data/2''"
    by (auto split: sum.splits)
  have "mget (Volumes (Capacity held_info)) ''/data/2'' - mget (Volumes (Usage held_info)) ''/data/2'' +
      plan_use ?old ''/data/2'' = 80"
    by code_simp
  with GetAffinityPlan_never_overcommits [OF run(1) ok, of "''/data/2''"] run show ?thesis by auto
qed

end
