(* ===== verification/Held_Quota.thy ===== *)
theory Held_Quota
  imports Affinity_Safety
begin

text \<open>
  The disk plan that comes with a volume plan is exact: it reserves on every disk the quota of the
  bindings the plan and the mounts put there, no more and no less. What a later realloc gives back is
  therefore what was charged.
\<close>

section \<open>Exact disk plans\<close>

text \<open>\<open>ds\<close> are the disks of the node; only their devices and mounts matter.\<close>

definition exact :: "Disks \<Rightarrow> VolumePlan \<Rightarrow> VolumeBindings \<Rightarrow> Disks \<Rightarrow> bool" where
  "exact ds vp mounts dp \<longleftrightarrow> wf_disks dp \<and> Device ` set dp \<subseteq> Device ` set ds \<and>
     (\<forall>d k. disks_amount dp (d, k) = plan_quota ds vp (d, k) + mounts_quota ds mounts (d, k))"

lemma plan_quota_simps [simp]: "plan_quota ds [] dk = 0"
  "plan_quota ds ((r, vm) # p) dk = quota_at ds (GetDevice vm) r dk + plan_quota ds p dk"
  "plan_quota ds (p @ q) dk = plan_quota ds p dk + plan_quota ds q dk"
  by (simp_all add: plan_quota_def)

lemma mounts_quota_simps [simp]: "mounts_quota ds [] dk = 0"
  "mounts_quota ds (r # rs) dk = quota_at ds (Source r) r dk + mounts_quota ds rs dk"
  "mounts_quota ds (rs @ rs') dk = mounts_quota ds rs dk + mounts_quota ds rs' dk"
  by (simp_all add: mounts_quota_def)

lemma quota_at_none [simp]: "\<not> RequireIOPS r \<Longrightarrow> quota_at ds path r dk = 0"
  by (simp add: quota_at_def split: option.splits)

lemma mounts_quota_none: "\<forall>r \<in> set rs. \<not> RequireIOPS r \<Longrightarrow> mounts_quota ds rs dk = 0"
  by (induction rs) simp_all

lemma plan_quota_none: "\<forall>r \<in> fst ` set p. \<not> RequireIOPS r \<Longrightarrow> plan_quota ds p dk = 0"
  by (induction p) auto

lemma disks_Add_devices: "Device ` set (disks_Add d d1) = Device ` set d \<union> Device ` set d1"
proof -
  have "Device ` set (disks_loop add_quotas (\<lambda>x. x) d d1 []) = set (map Device (disks_loop add_quotas (\<lambda>x. x) d d1 []))" by simp
  also have "\<dots> = Device ` set d \<union> Device ` set d1" by (subst disks_loop_devices) auto
  finally show ?thesis by (simp add: disks_Add_loop)
qed

lemma disks_Sub_devices: "Device ` set (disks_Sub d d1) = Device ` set d \<union> Device ` set d1"
proof -
  have "Device ` set (disks_loop sub_quotas neg_quotas d d1 []) = set (map Device (disks_loop sub_quotas neg_quotas d d1 []))" by simp
  also have "\<dots> = Device ` set d \<union> Device ` set d1" by (subst disks_loop_devices) auto
  finally show ?thesis by (simp add: disks_Sub_loop)
qed

lemma exact_Nil: "\<forall>r \<in> set mounts. \<not> RequireIOPS r \<Longrightarrow> exact ds [] mounts []"
  by (simp add: exact_def mounts_quota_none)

lemma exact_add:
  "exact ds vp m dp \<Longrightarrow> exact ds vp' m' dp' \<Longrightarrow> exact ds (vp @ vp') (m @ m') (disks_Add dp dp')"
  by (auto simp: exact_def disks_Add_devices disk_ledger.amount_add disk_ledger.wf_add)

lemma exact_plans: "exact ds vp m dp \<Longrightarrow> exact ds vp' [] dp' \<Longrightarrow> exact ds (vp @ vp') m (disks_Add dp dp')"
  using exact_add [of ds vp m dp vp' "[]" dp'] by simp

lemma exact_free: "exact ds vp m dp \<Longrightarrow> \<forall>r \<in> fst ` set vp'. \<not> RequireIOPS r \<Longrightarrow> exact ds (vp @ vp') m dp"
  by (simp add: exact_def plan_quota_none)

lemma exact_layout: "layout_of ds' = layout_of ds \<Longrightarrow> exact ds' = exact ds"
proof -
  assume lay: "layout_of ds' = layout_of ds"
  have "map Device ds' = map Device ds" using arg_cong [OF lay, of "map fst"] by (simp add: layout_of_def comp_def)
  from arg_cong [OF this, of set] have "Device ` set ds' = Device ` set ds" by simp
  then show ?thesis using quota_at_layout [OF lay] by (simp add: exact_def fun_eq_iff plan_quota_def mounts_quota_def)
qed

text \<open>One binding on one disk.\<close>

lemma exact_one:
  assumes "GetDiskByPath ds path = Some i" "RequireIOPS req"
  shows "disks_amount [DiskQuota req (ds ! i)] (d, k) = quota_at ds path req (d, k)"
    "Device ` set [DiskQuota req (ds ! i)] \<subseteq> Device ` set ds"
proof -
  have "quota (DiskQuota req (ds ! i)) k = bquota req k" "Device (DiskQuota req (ds ! i)) = Device (ds ! i)"
    by (cases k; simp add: DiskQuota_def)+
  then show "disks_amount [DiskQuota req (ds ! i)] (d, k) = quota_at ds path req (d, k)"
    using assms by (simp add: disks_amount_def GetDiskByDevice_def quota_at_def)
  show "Device ` set [DiskQuota req (ds ! i)] \<subseteq> Device ` set ds"
    using GetDiskByPath_bound [OF assms(1)] by (simp add: DiskQuota_def)
qed

lemma exact_binding:
  assumes "GetDiskByPath ds (GetDevice vm) = Some i" "RequireIOPS req"
  shows "exact ds [(req, vm)] [] [DiskQuota req (ds ! i)]"
  using exact_one [OF assms] by (simp add: exact_def)

lemma exact_mount:
  assumes "GetDiskByPath ds (Source req) = Some i" "RequireIOPS req"
  shows "exact ds [] [req] [DiskQuota req (ds ! i)]"
  using exact_one [OF assms] by (simp add: exact_def)

section \<open>Normal and mount requests\<close>

lemma greedy_exact:
  assumes "greedy reqs vs ds vp0 dp0 = (vs', ds', Inr (vp, dp))" "layout_of ds = layout_of ds0" "exact ds0 vp0 m dp0"
  shows "exact ds0 vp m dp"
  using assms
proof (induction reqs arbitrary: vs ds vp0 dp0)
  case (Cons req reqs)
  obtain v where v: "find (fits req ds) vs = Some v" using Cons.prems(1) by (cases "find (fits req ds) vs") auto
  let ?vm = "[(vdevice v, SizeInBytes req)]"
  show ?case
  proof (cases "RequireIOPS req")
    case False
    then have "greedy reqs (insort (charge_volume req v) (remove1 v vs)) ds (vp0 @ [(req, ?vm)]) dp0 = (vs', ds', Inr (vp, dp))"
      using Cons.prems(1) v by (simp add: Let_def)
    with Cons.IH Cons.prems(2) exact_free [OF Cons.prems(3), of "[(req, ?vm)]"] False show ?thesis by simp
  next
    case True
    have "fits req ds v" using v by (simp add: find_Some_iff) blast
    with True obtain i where i: "GetDiskByPath ds (vdevice v) = Some i"
      by (cases "GetDiskByPath ds (vdevice v)") (auto simp: fits_def)
    let ?ds = "ds[i := decreaseIOPSQuota req (ds ! i)]"
    have run: "greedy reqs (insort (charge_volume req v) (remove1 v vs)) ?ds (vp0 @ [(req, ?vm)])
        (disks_Add dp0 [DiskQuota req (ds ! i)]) = (vs', ds', Inr (vp, dp))"
      using Cons.prems(1) v True i by (simp add: Let_def)
    have "layout_of ?ds = layout_of ds"
      using layout_update_disk [of "decreaseIOPSQuota req" i "\<lparr>maxDeployCount = 0, usedVolumes = [], unusedVolumes = [], hdisks = ds, diskByPath = []\<rparr>"]
      by (simp add: layout_def layout_of_def update_disk_def)
    moreover have "exact ds0 [(req, ?vm)] [] [DiskQuota req (ds ! i)]"
      unfolding exact_layout [OF Cons.prems(2), symmetric] by (rule exact_binding) (use i True in \<open>simp_all add: GetDevice_def\<close>)
    ultimately show ?thesis using Cons.IH [OF run] Cons.prems(2) exact_plans [OF Cons.prems(3)] by simp
  qed
qed simp

lemma host_layout: "frame h h' \<Longrightarrow> layout_of (hdisks h') = layout_of (hdisks h)"
  by (simp add: frame_def layout_def layout_of_def)

lemma getNormalPlan_exact:
  assumes "getNormalPlan reqs h = (h', Inr (vp, dp))" "cache_ok h" "layout_of (hdisks h) = layout_of ds"
  shows "exact ds vp [] dp"
  using greedy_exact [OF getNormalPlan_greedy [OF assms(1,2)] assms(3)] exact_Nil by simp

lemma mount_disk_loop_exact:
  assumes "mount_disk_loop reqs dp0 h = (h', Inr dp)" "cache_ok h" "layout_of (hdisks h) = layout_of ds" "exact ds vp m dp0"
  shows "exact ds vp (m @ reqs) dp"
  using assms
proof (induction reqs dp0 h arbitrary: m rule: mount_disk_loop.induct)
  case (2 req reqs dp0 h)
  show ?case
  proof (cases "RequireIOPS req")
    case False
    then have "exact ds vp (m @ [req]) dp0" using 2(6) by (simp add: exact_def)
    with 2(1) [OF False _ 2(4,5)] 2(3) False show ?thesis by fastforce
  next
    case True
    obtain disk h1 where d: "getDiskByPath h (Source req) = (disk, h1)" by fastforce
    note dd = getDiskByPath_fields [OF d]
    have q: "isDiskIOPSQuotaQualified (disk_at h1 disk) req" using 2(3) True d by (auto split: if_splits)
    with True obtain i where i: "disk = Some i" by (cases disk) (auto simp: disk_at_def)
    let ?h2 = "update_disk i (decreaseIOPSQuota req) h1"
    have fr: "frame h ?h2" by (rule frame_trans [OF frame_getDiskByPath [OF d] frame_update_disk]) simp_all
    have path: "GetDiskByPath (hdisks h) (Source req) = Some i" using dd(6) [OF 2(4)] i by simp
    then have "i < length (hdisks h)" by (rule GetDiskByPath_bound)
    then have quota: "DiskQuota req (hdisks ?h2 ! i) = DiskQuota req (hdisks h ! i)" using dd(4) by (simp add: update_disk_def)
    have "exact ds [] [req] [DiskQuota req (hdisks h ! i)]"
      unfolding exact_layout [OF 2(5), symmetric] by (rule exact_mount [OF path True])
    from exact_add [OF 2(6) this] have ex: "exact ds vp (m @ [req]) (disks_Add dp0 [DiskQuota req (hdisks ?h2 ! i)])"
      by (simp only: quota append_Nil2)
    have run: "mount_disk_loop reqs (disks_Add dp0 [DiskQuota req (hdisks ?h2 ! i)]) ?h2 = (h', Inr dp)"
      using 2(3) True d q i by (simp add: Let_def)
    have "cache_ok ?h2" "layout_of (hdisks ?h2) = layout_of ds" using fr 2(4,5) host_layout [OF fr] by (simp_all add: frame_def)
    from 2(2) [OF _ d [symmetric] refl _ i refl run this ex] True q show ?thesis by simp
  qed
qed auto

lemma getMountDiskPlan_exact:
  assumes "getMountDiskPlan reqs h = (h', Inr dp)" "cache_ok h" "layout_of (hdisks h) = layout_of ds"
  shows "exact ds [] reqs dp"
  using mount_disk_loop_exact [OF assms(1) [unfolded getMountDiskPlan_def] assms(2,3) exact_Nil, of "[]"] by simp

section \<open>All plans of a class\<close>

abbreviation all_exact :: "Disks \<Rightarrow> VolumeBindings \<Rightarrow> VolumePlan list \<Rightarrow> Disks list \<Rightarrow> bool" where
  "all_exact ds m \<equiv> list_all2 (\<lambda>vp dp. exact ds vp m dp)"

lemma all_exact_empty: "\<not> anyRequireIOPS m \<Longrightarrow> all_exact ds m (replicate n []) (replicate n [])"
  by (intro list_all2_all_nthI) (auto simp: anyRequireIOPS_def list_ex_iff intro!: exact_Nil)

lemma mount_passes_exact:
  assumes "mount_passes m k h = (h', dps)" "cache_ok h" "layout_of (hdisks h) = layout_of ds" "dp \<in> set dps"
  shows "exact ds [] m dp"
  using assms
proof (induction m k h arbitrary: h' dps rule: mount_passes.induct)
  case (2 m k h)
  obtain h1 r where run: "getMountDiskPlan m h = (h1, r)" by fastforce
  have fr: "frame h h1" using getMountDiskPlan_frame [OF run] by simp
  show ?case
  proof (cases r)
    case (Inr md)
    obtain h2 ps where rest: "mount_passes m k h1 = (h2, ps)" by fastforce
    have "cache_ok h1" "layout_of (hdisks h1) = layout_of ds" using fr 2(3,4) host_layout [OF fr] by (simp_all add: frame_def)
    from 2(1) [OF run [symmetric] refl Inr rest this] getMountDiskPlan_exact [OF run [unfolded Inr] 2(3,4)]
    show ?thesis using 2(2,5) run Inr rest by auto
  qed (use 2 run in auto)
qed simp

lemma getNormalPlans_exact:
  assumes "getNormalPlans n m bound h = (h', Inr (vps, dps))" "cache_ok h" "layout_of (hdisks h) = layout_of ds"
    and "valid_reqs m" "bound \<le> MaxInt"
  shows "all_exact ds m vps dps"
proof -
  consider (empty) "n = []" "\<not> anyRequireIOPS m" | (mounts) "n = []" "anyRequireIOPS m" | (normal) "n \<noteq> []" by blast
  then show ?thesis
  proof cases
    case empty
    then have "vps = replicate (nat (maxDeployCount h)) []" "dps = replicate (nat (maxDeployCount h)) []"
      using assms(1) by (auto simp: getNormalPlans_def emptyPlans_def bind_res_Inr_iff repeatWith_Inr_iff)
    then show ?thesis using all_exact_empty [OF empty(2)] by simp
  next
    case mounts
    then have run: "getMountOnlyPlans m bound h = (h', Inr (vps, dps))" using assms(1) by (simp add: getNormalPlans_def)
    show ?thesis
    proof (cases "bound < 1")
      case True
      then have "vps = [] \<and> dps = []"
        using run by (auto simp: getMountOnlyPlans_def applyMountPasses_def repeatWith_def split: sum.splits prod.splits)
      then show ?thesis by simp
    next
      case False
      obtain h2 ps where loop: "mount_passes m (nat bound) h = (h2, ps)" by fastforce
      have "\<forall>r \<in> set m. ValidIOParameters r" "1 \<le> bound" using assms(4) False by (auto simp: valid_reqs_def)
      from applyMountPasses_loop [OF this(1) assms(2) this(2) assms(5) loop]
      obtain proto where ap: "applyMountPasses m bound h = (h2, Inr (int (length ps), proto))"
        and all: "\<forall>p \<in> set ps. p = proto" by blast
      then have "vps = replicate (length ps) []" "dps = replicate (length ps) proto"
        using run by (auto simp: getMountOnlyPlans_def repeatWith_def disks_DeepCopy_def)
      moreover have "exact ds [] m proto" if "ps \<noteq> []"
        using mount_passes_exact [OF loop assms(2,3), of "hd ps"] all that by (cases ps) auto
      ultimately show ?thesis by (cases "ps = []") (auto intro!: list_all2_all_nthI)
    qed
  next
    case normal
    then obtain h1 where run: "normal_loop n m bound [] [] h = (h1, vps, dps)"
      using assms(1) by (auto simp: getNormalPlans_def split: prod.splits)
    have "\<exists>h2. (\<lambda>vps dps (h :: host). cache_ok h \<and> layout_of (hdisks h) = layout_of ds \<and> all_exact ds m vps dps) vps dps h2"
    proof (rule normal_loop_induct [OF run])
      fix vps dps and h h1 h2 :: host and vp dp md
      assume inv: "cache_ok h \<and> layout_of (hdisks h) = layout_of ds \<and> all_exact ds m vps dps"
        and n: "getNormalPlan n h = (h1, Inr (vp, dp))" and m: "getMountDiskPlan m h1 = (h2, Inr md)"
      have f1: "frame h h1" by (rule getNormalPlan_frame [OF n])
      have f2: "frame h1 h2" using getMountDiskPlan_frame [OF m] by simp
      have h1: "cache_ok h1" "layout_of (hdisks h1) = layout_of ds" using inv f1 host_layout [OF f1] by (simp_all add: frame_def)
      have "exact ds (vp @ []) ([] @ m) (disks_Add dp md)"
        using inv getNormalPlan_exact [OF n] getMountDiskPlan_exact [OF m h1] by (intro exact_add) simp_all
      then show "cache_ok h2 \<and> layout_of (hdisks h2) = layout_of ds \<and> all_exact ds m (vps @ [vp]) (dps @ [disks_Add dp md])"
        using inv h1 f2 host_layout [OF f2] by (simp add: frame_def list_all2_appendI)
    qed (use assms(2,3) in simp)
    then show ?thesis by blast
  qed
qed

section \<open>Monopoly requests\<close>

lemma quota_at_valid: "ValidIOParameters r \<Longrightarrow> quota_at ds path r (d, k) = (case GetDiskByPath ds path of
    Some i \<Rightarrow> if Device (ds ! i) = d then bquota r k else 0 | None \<Rightarrow> 0)"
  by (auto simp: quota_at_def RequireIOPS_iff ValidIO_iff order.order_iff_strict split: option.splits)

lemma plan_quota_together:
  assumes "\<forall>e \<in> set vp. \<exists>s. snd e = [(dev, s)]" "\<forall>r \<in> fst ` set vp. ValidIOParameters r"
    and "ValidIOParameters (total_quota (map fst vp))"
  shows "plan_quota ds vp (d, k) = quota_at ds dev (total_quota (map fst vp)) (d, k)"
proof -
  have "plan_quota ds vp (d, k) = (case GetDiskByPath ds dev of
      Some i \<Rightarrow> if Device (ds ! i) = d then sum_list (map (\<lambda>r. bquota r k) (map fst vp)) else 0 | None \<Rightarrow> 0)"
    using assms(1,2)
  proof (induction vp)
    case (Cons e vp)
    obtain r s where e: "e = (r, [(dev, s)])" using Cons.prems(1) by (cases e) auto
    with Cons show ?case by (auto simp: quota_at_valid GetDevice_def split: option.splits)
  qed (simp split: option.splits)
  then show ?thesis unfolding quota_at_valid [OF assms(3)] total_quota_simps .
qed

lemma getMonoPlan_exact:
  assumes "getMonoPlan reqs v h = (h1, v1, Inr (vp, dp))" "cache_ok h" "layout_of (hdisks h) = layout_of ds"
    and "valid_reqs reqs" "mono_ok reqs"
  shows "exact ds vp [] (case dp of None \<Rightarrow> [] | Some d \<Rightarrow> [d])"
proof -
  let ?t = "total_quota reqs"
  note vol = getMonoPlan_volume(2,4) [OF assms(1)]
  have vt: "ValidIOParameters ?t" using assms(5) by (simp add: mono_ok_def)
  have "\<forall>r \<in> fst ` set vp. ValidIOParameters r" using assms(4) unfolding vol(1) [symmetric] valid_reqs_def by simp
  from plan_quota_together [OF vol(2) this] vt
  have plan: "plan_quota ds vp (d, k) = quota_at ds (vdevice v) ?t (d, k)" for d k by (simp add: vol(1))
  obtain disk h2 where d: "getDiskByPath h (vdevice v) = (disk, h2)" by fastforce
  note dd = getDiskByPath_fields [OF d]
  show ?thesis
  proof (cases "RequireIOPS ?t")
    case False
    then have "dp = None" using assms(1) d
      by (auto simp: getMonoPlan_def Let_def split: if_splits prod.splits bool.splits list.splits option.splits)
    then show ?thesis using False by (simp add: exact_def plan)
  next
    case True
    then obtain i where i: "disk = Some i" "dp = Some (DiskQuota ?t (hdisks h ! i))"
      using assms(1) d dd(4)
      by (auto simp: getMonoPlan_def Let_def disk_at_def split: if_splits prod.splits bool.splits list.splits option.splits)
    have path: "GetDiskByPath (hdisks h) (vdevice v) = Some i" using dd(6) [OF assms(2)] i(1) by simp
    have "exact ds vp [] [DiskQuota ?t (hdisks h ! i)]"
      using exact_one [OF path True] quota_at_layout [OF assms(3)] exact_layout [OF assms(3)] plan
      by (simp add: exact_def [of "hdisks h"] plan_quota_def flip: exact_layout [OF assms(3)])
    then show ?thesis by (simp add: i(2))
  qed
qed

lemma mono_loop_exact:
  assumes "mono_loop reqs bound vs h vps dps = (h', vs', vps', dps')" "cache_ok h" "layout_of (hdisks h) = layout_of ds"
    and "valid_reqs reqs" "mono_ok reqs" "wf_disks ds" "all_exact ds [] vps dps"
  shows "all_exact ds [] vps' dps'"
  using assms
proof (induction reqs bound vs h vps dps arbitrary: h' vs' vps' dps' rule: mono_loop.induct)
  case (2 reqs bound v vs h vps dps)
  show ?case
  proof (cases "bound \<le> int (length vps)")
    case True
    then show ?thesis using "2.prems" by simp
  next
    case False
    obtain h1 v1 r where r: "getMonoPlan reqs v h = (h1, v1, r)" by (metis prod_cases3)
    have "wf_disks (hdisks h)" using layout_of_wf [OF "2.prems"(3)] "2.prems"(6) by simp
    then have fr: "frame h h1" using getMonoPlan_disks(1) [OF r "2.prems"(2)] "2.prems"(5) by (simp add: mono_ok_def)
    have h1: "cache_ok h1" "layout_of (hdisks h1) = layout_of ds"
      using fr "2.prems"(2,3) host_layout [OF fr] by (simp_all add: frame_def)
    show ?thesis
    proof (cases r)
      case (Inl e)
      with "2.prems"(1) False r obtain vs2 where run: "mono_loop reqs bound vs h1 vps dps = (h', vs2, vps', dps')"
        by (auto split: prod.splits)
      from "2.IH"(1) [OF False refl r [symmetric] refl Inl run h1 "2.prems"(4-7)] show ?thesis .
    next
      case (Inr p)
      obtain vp dp where p: "p = (vp, dp)" by fastforce
      from "2.prems"(1) False r Inr p obtain vs2 where
        run: "mono_loop reqs bound vs h1 (vps @ [vp]) (dps @ [case dp of None \<Rightarrow> [] | Some d \<Rightarrow> [d]]) = (h', vs2, vps', dps')"
        by (auto split: prod.splits)
      have "all_exact ds [] (vps @ [vp]) (dps @ [case dp of None \<Rightarrow> [] | Some d \<Rightarrow> [d]])"
        using getMonoPlan_exact [OF r [unfolded Inr p] "2.prems"(2-5)] "2.prems"(7) by (simp add: list_all2_appendI)
      from "2.IH"(2) [OF False refl r [symmetric] refl Inr p [symmetric] run h1 "2.prems"(4-6) this] show ?thesis .
    qed
  qed
qed simp

lemma getMonoPlans_exact:
  assumes "getMonoPlans reqs bound h = (h', Inr (vps, dps))" "cache_ok h" "layout_of (hdisks h) = layout_of ds"
    and "valid_reqs reqs" "mono_ok reqs" "wf_disks ds"
  shows "all_exact ds [] vps dps"
proof (cases "reqs = []")
  case True
  then have "vps = replicate (nat (maxDeployCount h)) []" "dps = replicate (nat (maxDeployCount h)) []"
    using assms(1) by (auto simp: getMonoPlans_def bind_res_Inr_iff repeatWith_Inr_iff)
  then show ?thesis using all_exact_empty [of "[]"] by (simp add: anyRequireIOPS_def)
next
  case False
  show ?thesis
  proof (cases "unusedVolumes h = []")
    case True
    then show ?thesis using assms(1) False by (simp add: getMonoPlans_def)
  next
    case un: False
    then obtain h1 vs where "mono_loop reqs bound (unusedVolumes h) h [] [] = (h1, vs, vps, dps)"
      using assms(1) False by (auto simp: getMonoPlans_def split: prod.splits)
    from mono_loop_exact [OF this assms(2-6)] show ?thesis by simp
  qed
qed

section \<open>All classes\<close>

lemma evaluate_plans_exact:
  assumes "evaluate_plans c bound h = Inr (n, m, (nvps, ndps), (mvps, mdps))" "wf_disks (hdisks h)"
    and "valid_reqs (mount_class c)" "valid_reqs (mono_class c)" "mono_ok (mono_class c)" "bound \<le> MaxInt"
  shows "all_exact (hdisks h) (mount_class c) nvps ndps" "all_exact (hdisks h) [] mvps mdps"
proof -
  let ?b = "if unlimited_class c = [] then max (maxDeployCount h) (int (length nvps) + 1) else MaxInt"
  obtain scratch nr where n: "getNormalPlans (normal_class c) (mount_class c) bound (clone h) = (scratch, nr)" by fastforce
  obtain h2 mr where m: "getMonoPlans (mono_class c) ?b scratch = (h2, mr)" by fastforce
  from assms(1) n m have nr: "nr = Inr (nvps, ndps)" and mr: "mr = Inr (mvps, mdps)"
    by (auto simp: evaluate_plans_def bind_res_Inr_iff Let_def)
  have cl: "cache_ok (clone h)" "layout_of (hdisks (clone h)) = layout_of (hdisks h)"
    by (simp_all add: clone_def cache_ok_def disks_DeepCopy_def)
  have fr: "frame (clone h) scratch" by (rule getNormalPlans_frame [OF n])
  have s: "cache_ok scratch" "layout_of (hdisks scratch) = layout_of (hdisks h)"
    using fr cl host_layout [OF fr] by (simp_all add: frame_def)
  show "all_exact (hdisks h) (mount_class c) nvps ndps"
    by (rule getNormalPlans_exact [OF n [unfolded nr] cl assms(3,6)])
  show "all_exact (hdisks h) [] mvps mdps"
    by (rule getMonoPlans_exact [OF m [unfolded mr] s assms(4,5,2)])
qed

lemma unlimited_free: "r \<in> set (unlimited_class (classifyVolumeBindings reqs)) \<Longrightarrow> \<not> RequireIOPS r"
  by (auto simp: classes_sets RequireScheduleUnlimitedQuota_def RequireIOPS_def)

lemma getVolumePlans_exact:
  assumes "getVolumePlans requests h = Inr (vps, dps)" "sched_ok h" "requests_ok requests"
    and "maxDeployCount h \<le> MaxInt" "int (length (unusedVolumes h)) < MaxInt"
  shows "all_exact (hdisks h) (mount_class (classifyVolumeBindings requests)) vps dps"
proof -
  let ?c = "classifyVolumeBindings requests"
  have len: "length dps = length vps" using getVolumePlans_count [OF assms(1)] assms(5) by simp
  show ?thesis
  proof (cases "NeedSchedule requests")
    case False
    then have "\<not> anyRequireIOPS (mount_class ?c)"
      by (auto simp: NeedSchedule_def anyRequireIOPS_def list_ex_iff classes_sets)
    from all_exact_empty [OF this, of "hdisks h" "length vps"] show ?thesis
      using getVolumePlans_empty(1,2) [OF assms(1) False] len by simp
  next
    case need: True
    show ?thesis
    proof (cases "vps = []")
      case True
      then show ?thesis using len by simp
    next
      case False
      obtain h1 n m nvps ndps mvps mdps k uvps where
        ev: "evaluate_plans ?c (normalBound ?c h) h1 = Inr (n, m, (nvps, ndps), (mvps, mdps))"
        and ms: "mset (usedVolumes h1 @ unusedVolumes h1) = mset (usedVolumes h @ unusedVolumes h)"
        and dk: "hdisks h1 = hdisks h" and k: "k \<le> length nvps" "k \<le> length ndps" "k \<le> length mvps" "k \<le> length mdps"
        and un: "getUnlimitedPlans nvps mvps (unlimited_class ?c) (int k) h1 = Inr uvps"
        and vps: "vps = map (\<lambda>i. plan_Merge (plan_Merge (nvps ! i) (mvps ! i)) (uvps ! i)) [0..<k]"
        and dps: "dps = map (\<lambda>i. disks_Add (ndps ! i) (mdps ! i)) [0..<k]"
        by (rule getVolumePlans_result [OF assms(1) need False refl]) (rule that)
      have ok: "sched_ok h1" using assms(2) mset_vol [OF ms] by (simp add: sched_ok_def dk del: map_append)
      have req: "valid_reqs (normal_class ?c)" "valid_reqs (mount_class ?c)" "valid_reqs (mono_class ?c)" "mono_ok (mono_class ?c)"
        "distinct (map Destination (normal_class ?c @ mono_class ?c @ unlimited_class ?c))"
        using assms(3) classes_valid [of requests] classes_distinct [of requests]
        by (auto simp: requests_ok_def valid_reqs_def classes_sets)
      note bound = normalBound_le [OF assms(4,5), of ?c]
      note eb = evaluate_plans_backed [OF ev ok req(1,2,4) bound]
      have wf: "wf_disks (hdisks h1)" using ok by (simp add: sched_ok_def)
      note ex = evaluate_plans_exact [OF ev wf req(2,3,4) bound, unfolded dk]
      have zero: "\<forall>r \<in> set (unlimited_class ?c). SizeInBytes r = 0"
        by (auto simp: classes_sets RequireScheduleUnlimitedQuota_def)
      have lu: "length uvps = k"
        using un by (auto simp: getUnlimitedPlans_def repeatWith_Inr_iff bind_res_Inr_iff Let_def split: if_splits list.splits)
      have "exact (hdisks h) (plan_Merge (plan_Merge (nvps ! i) (mvps ! i)) (uvps ! i)) (mount_class ?c) (disks_Add (ndps ! i) (mdps ! i))"
        if i: "i < k" for i
      proof -
        have fsts: "map fst (nvps ! i) = normal_class ?c" "map fst (mvps ! i) = mono_class ?c" "map fst (uvps ! i) = unlimited_class ?c"
          using i k lu eb(1,3) getUnlimitedPlans_requests [OF un _ zero] by (auto simp: mono_taken_def)
        have free: "\<forall>r \<in> fst ` set (uvps ! i). \<not> RequireIOPS r"
          unfolding set_map [symmetric] fsts(3) using unlimited_free by blast
        have "exact (hdisks h) (nvps ! i) (mount_class ?c) (ndps ! i)" "exact (hdisks h) (mvps ! i) [] (mdps ! i)"
          using list_all2_nthD [OF ex(1), of i] list_all2_nthD [OF ex(2), of i] i k by simp_all
        from exact_free [OF exact_plans [OF this] free] show ?thesis
          by (simp add: merged_plan [OF req(5) fsts])
      qed
      then show ?thesis unfolding vps dps by (intro list_all2_all_nthI) simp_all
    qed
  qed
qed

section \<open>The plan of a realloc\<close>

lemma affinity_loop_exact:
  assumes "affinity_loop affinity vp dp h = (h', Inr (vp', dp'))" "cache_ok h" "layout_of (hdisks h) = layout_of ds"
    and "exact ds vp m dp" "distinct (map (Destination \<circ> fst) (vp @ affinity))"
  shows "exact ds vp' m dp'"
  using assms
proof (induction affinity arbitrary: vp dp h)
  case (Cons e affinity)
  obtain req vm where e: "e = (req, vm)" by fastforce
  obtain v where v: "getVolumeByDevice (GetDevice vm) h = Some v"
    using Cons.prems(1) by (cases "getVolumeByDevice (GetDevice vm) h") (auto simp: e Let_def)
  let ?h1 = "set_volume (GetDevice vm) (change_size v (- SizeInBytes req)) h"
  let ?vm = "[(GetDevice vm, SizeInBytes req)]"
  let ?vp = "plan_Merge vp [(req, [(vdevice v, SizeInBytes req)])]"
  have dev: "vdevice v = GetDevice vm" by (rule getVolumeByDevice_device [OF v])
  have k1: "keeps h ?h1" using dev by (intro set_volume_keeps) simp
  have merge: "?vp = vp @ [(req, ?vm)]"
    using Cons.prems(5) dev by (subst plan_Merge_append) (auto simp: e comp_def)
  have dist: "distinct (map (Destination \<circ> fst) (?vp @ affinity))" using Cons.prems(5) by (simp add: merge e comp_def)
  have fits: "\<not> vsize v < SizeInBytes req" using Cons.prems(1) v by (auto simp: e Let_def)
  have h1: "cache_ok ?h1" "layout_of (hdisks ?h1) = layout_of ds"
    using k1 Cons.prems(2,3) by (simp_all add: keeps_def layout_def layout_of_def)
  show ?case
  proof (cases "RequireIOPS req")
    case False
    then have "affinity_loop affinity ?vp dp ?h1 = (h', Inr (vp', dp'))" using Cons.prems(1) v fits by (simp add: e Let_def)
    from Cons.IH [OF this h1 _ dist] exact_free [OF Cons.prems(4), of "[(req, ?vm)]"] False show ?thesis by (simp add: merge)
  next
    case True
    obtain disk h2 where d: "getDiskByPath ?h1 (GetDevice vm) = (disk, h2)" by fastforce
    note dd = getDiskByPath_fields [OF d]
    have q: "isDiskIOPSQuotaQualified (disk_at h2 disk) req"
      using Cons.prems(1) v fits True d by (auto simp: e Let_def split: if_splits)
    with True obtain i where i: "disk = Some i" by (cases disk) (auto simp: disk_at_def)
    let ?h3 = "update_disk i (decreaseIOPSQuota req) h2"
    have run: "affinity_loop affinity ?vp (disks_Add dp [DiskQuota req (hdisks ?h3 ! i)]) ?h3 = (h', Inr (vp', dp'))"
      using Cons.prems(1) v fits True d q i by (simp add: e Let_def)
    have fr: "frame ?h1 ?h3" by (rule frame_trans [OF frame_getDiskByPath [OF d] frame_update_disk]) simp_all
    have h3: "cache_ok ?h3" "layout_of (hdisks ?h3) = layout_of ds" using fr h1 host_layout [OF fr] by (simp_all add: frame_def)
    have path: "GetDiskByPath (hdisks ?h1) (GetDevice vm) = Some i" using dd(6) [OF h1(1)] i by simp
    then have "i < length (hdisks ?h1)" by (rule GetDiskByPath_bound)
    then have quota: "DiskQuota req (hdisks ?h3 ! i) = DiskQuota req (hdisks ?h1 ! i)" using dd(4) by (simp add: update_disk_def)
    have "exact ds [(req, ?vm)] [] [DiskQuota req (hdisks ?h1 ! i)]"
      unfolding exact_layout [OF h1(2), symmetric] by (rule exact_binding) (use path True in \<open>simp_all add: GetDevice_def\<close>)
    from exact_plans [OF Cons.prems(4) this] have "exact ds ?vp m (disks_Add dp [DiskQuota req (hdisks ?h3 ! i)])"
      by (simp only: quota merge)
    from Cons.IH [OF run h3 this dist] show ?thesis .
  qed
qed simp

lemma commonProcess_exact:
  assumes "commonProcess k reqs old vp dp nr h = (h', Inr (vp', dp', nr'))" "cache_ok h" "layout_of (hdisks h) = layout_of ds"
    and "exact ds vp m dp" "distinct (map Destination (map fst vp @ reqs))"
  shows "exact ds vp' m dp'"
proof -
  obtain aff rest where cl: "classifyAffinityRequests k reqs old = (aff, rest)" by fastforce
  have run: "affinity_loop aff vp dp h = (h', Inr (vp', dp'))"
    using assms(1) cl by (auto simp: commonProcess_def bind_res_Inr_iff split: prod.splits)
  from affinity_loop_exact [OF run assms(2-4) classifyAffinity_distinct(1) [OF cl assms(5)]] show ?thesis .
qed

lemma process_mono_exact:
  assumes "process_mono k reqs old vp dp nr h = (h', Inr (vp', dp', nr'))" "cache_ok h" "layout_of (hdisks h) = layout_of ds"
    and "exact ds vp m dp" "valid_reqs reqs" "mono_ok reqs" "distinct (map Destination (map fst vp @ reqs))"
  shows "exact ds vp' m dp'"
proof -
  obtain aff rest where cl: "classifyAffinityRequests k reqs old = (aff, rest)" by fastforce
  show ?thesis
  proof (cases "aff = []")
    case True
    then show ?thesis using assms(1,4) cl by (auto simp: process_mono_def)
  next
    case False
    then obtain mvp mdp where g: "getMonoAffinityPlan reqs aff old h = (h', Inr (mvp, mdp))"
      and res: "vp' = plan_Merge vp mvp" "dp' = (case mdp of None \<Rightarrow> dp | Some d \<Rightarrow> disks_Add dp [d])"
      using assms(1) cl by (auto simp: process_mono_def bind_res_Inr_iff split: prod.splits)
    obtain v h1 v1 where m: "getMonoPlan reqs v h = (h1, v1, Inr (mvp, mdp))"
      using g by (auto simp: getMonoAffinityPlan_def split: if_splits option.splits prod.splits list.splits)
    have ex: "exact ds mvp [] (case mdp of None \<Rightarrow> [] | Some d \<Rightarrow> [d])"
      by (rule getMonoPlan_exact [OF m assms(2,3,5,6)])
    have "distinct (map Destination (map fst vp @ map fst mvp))" using assms(7) getMonoPlan_volume(2) [OF m] by simp
    then have "vp' = vp @ mvp" unfolding res(1) by (intro plan_Merge_append) simp
    with exact_plans [OF assms(4) ex] res(2) show ?thesis by (simp split: option.splits)
  qed
qed

lemma getAffinityPlan_exact:
  assumes run: "getAffinityPlan ord reqs old oreqs h = Inr (vp, dp)" and ok: "sched_ok h" "cache_ok h"
    and req: "requests_ok reqs" and max: "maxDeployCount h = 1" "int (length (unusedVolumes h)) < MaxInt"
  shows "exact (hdisks h) vp (mount_class (classifyVolumeBindings reqs)) dp"
proof (cases "NeedSchedule reqs")
  case False
  then have "vp = []" "dp = []" using run by (simp_all add: getAffinityPlan_def)
  moreover have "\<forall>r \<in> set (mount_class (classifyVolumeBindings reqs)). \<not> RequireIOPS r"
    using False by (auto simp: NeedSchedule_def list_ex_iff classes_sets)
  ultimately show ?thesis by (simp add: exact_Nil)
next
  case need: True
  let ?c = "classifyVolumeBindings reqs" and ?ds = "hdisks h"
  have max': "maxDeployCount h \<le> MaxInt" using max(1) by (simp add: MaxInt_def)
  obtain h1 h2 h3 mdp h4 vp1 dp1 nr1 h5 vp2 dp2 nr2 h6 vp3 dp3 nr3 where
    s: "getMountDiskPlan (mount_class ?c) h2 = (h3, Inr mdp)"
      "commonProcess (ord 2) (normal_class ?c) old [] (disks_Add [] mdp) [] h3 = (h4, Inr (vp1, dp1, nr1))"
      "process_mono (ord 3) (mono_class ?c) old vp1 dp1 nr1 h4 = (h5, Inr (vp2, dp2, nr2))"
      "commonProcess (ord 4) (unlimited_class ?c) old vp2 dp2 nr2 h5 = (h6, Inr (vp3, dp3, nr3))"
    and last: "nr3 = [] \<and> vp = vp3 \<and> dp = dp3 \<or> nr3 \<noteq> [] \<and> (\<exists>p ps q qs. getVolumePlans nr3 h6 = Inr (p # ps, q # qs) \<and>
        vp = vp3 @ p \<and> dp = disks_Add dp3 q)"
    and k: "keeps h h2" "keeps h h3" "keeps h h4" "keeps h h5" "keeps h h6"
    and dist: "distinct (map Destination (map fst [] @ normal_class ?c))" "distinct (map Destination (map fst vp1 @ mono_class ?c))"
      "distinct (map Destination (map fst vp2 @ unlimited_class ?c))"
    and nr3: "filter RequireSchedule nr3 = nr3" "requests_ok nr3"
    by (rule getAffinityPlan_stages [OF run need ok req max' max(2)])
  have host: "cache_ok h'" "layout_of (hdisks h') = layout_of ?ds" if "keeps h h'" for h'
    using that ok(2) by (simp_all add: keeps_def layout_def layout_of_def)
  have valid: "valid_reqs (mono_class ?c)" "mono_ok (mono_class ?c)"
    using req by (auto simp: requests_ok_def valid_reqs_def classes_sets)
  have "exact ?ds ([] @ []) ([] @ mount_class ?c) (disks_Add [] mdp)"
    by (rule exact_add [OF exact_Nil getMountDiskPlan_exact [OF s(1) host [OF k(1)]]]) simp
  then have e3: "exact ?ds [] (mount_class ?c) (disks_Add [] mdp)" by simp
  have e4: "exact ?ds vp1 (mount_class ?c) dp1"
    by (rule commonProcess_exact [OF s(2) host [OF k(2)] e3]) (use dist(1) in simp)
  note e5 = process_mono_exact [OF s(3) host [OF k(3)] e4 valid dist(2)]
  note e6 = commonProcess_exact [OF s(4) host [OF k(4)] e5 dist(3)]
  show ?thesis
  proof (cases "nr3 = []")
    case True
    with last e6 show ?thesis by blast
  next
    case False
    then obtain p ps q qs where g: "getVolumePlans nr3 h6 = Inr (p # ps, q # qs)" "vp = vp3 @ p" "dp = disks_Add dp3 q"
      using last by blast
    have "maxDeployCount h6 \<le> MaxInt" "int (length (unusedVolumes h6)) < MaxInt"
      using k(5) max' max(2) keeps_unused [OF k(5)] by (simp_all add: keeps_def)
    from getVolumePlans_exact [OF g(1) keeps_sched_ok [OF k(5) ok(1)] nr3(2) this]
    have "exact ?ds p (mount_class (classifyVolumeBindings nr3)) q" by (simp add: exact_layout [OF host(2) [OF k(5)]])
    moreover have "set (mount_class (classifyVolumeBindings nr3)) = {}"
      using nr3(1) by (auto simp: filter_id_conv classes_sets)
    ultimately show ?thesis using exact_plans [OF e6] by (simp add: g(2,3))
  qed
qed

section \<open>The promise\<close>

lemma newHost_disks: "hdisks (newHost info n) = disks_Sub (Disks (Capacity info)) (Disks (Usage info))"
  by (simp add: newHost_def disks_DeepCopy_def split: prod.splits)

lemma GetVolumePlans_exact:
  assumes "GetVolumePlans info requests maxCount = Inr (vps, dps)" "node_ok info" "requests_ok requests"
    and "maxCount \<le> MaxInt" "int (length (Volumes (Capacity info))) < MaxInt"
  shows "all_exact (disks_Sub (Disks (Capacity info)) (Disks (Usage info))) (mount_class (classifyVolumeBindings requests)) vps dps"
proof -
  have "int (length (unusedVolumes (newHost info maxCount))) < MaxInt" using newHost_unused [of info maxCount] assms(5) by linarith
  from getVolumePlans_exact [OF assms(1) [unfolded GetVolumePlans_def] newHost_spec(1) [OF assms(2)] assms(3) _ this] assms(4)
  show ?thesis by (simp add: newHost_disks)
qed

lemma GetAffinityPlan_exact:
  assumes "GetAffinityPlan ord info requests old oreqs = Inr (vp, dp)" "node_ok info" "requests_ok requests"
    and "int (length (Volumes (Capacity info))) < MaxInt"
  shows "exact (disks_Sub (Disks (Capacity info)) (Disks (Usage info))) vp (mount_class (classifyVolumeBindings requests)) dp"
proof -
  have "int (length (unusedVolumes (newHost info 1))) < MaxInt" using newHost_unused [of info 1] assms(4) by linarith
  moreover have "cache_ok (newHost info 1)" by (simp add: cache_ok_def newHost_def split: prod.splits)
  ultimately show ?thesis
    using getAffinityPlan_exact [OF assms(1) [unfolded GetAffinityPlan_def] newHost_spec(1) [OF assms(2)] _ assms(3)]
    by (simp add: newHost_disks)
qed

end
