(* ===== verification/Realloc_Safety.thy ===== *)
theory Realloc_Safety
  imports Affinity_Safety Storage_Realloc
begin

text \<open>
  Reallocating end to end: the delta \<open>CalculateRealloc\<close> hands out, recorded as usage by
  \<open>SetNodeResourceUsage\<close>, leaves the node within its capacity.
\<close>

section \<open>One amount\<close>

text \<open>Usage \<open>u\<close> of a capacity \<open>c\<close>, of which \<open>o\<close> is given back and \<open>n\<close> taken.\<close>

lemma moved_amount:
  fixes u c b n x :: i64
  assumes "0 \<le> b" "b \<le> u" "0 \<le> n" "x \<le> b" "n = 0 \<or> n = b \<or> u \<le> c \<and> n \<le> c - u + x"
  shows "val (u + (n - b)) = val u + val n - val b" "0 \<le> u + (n - b)" "u \<le> c \<Longrightarrow> u + (n - b) \<le> c"
proof -
  have le: "0 \<le> val b" "val b \<le> val u" "0 \<le> val n" "val x \<le> val b" using assms by (simp_all add: i64_le_iff)
  have room: "val n \<le> val b \<or> val u \<le> val c \<and> val n \<le> val c - val u + val b"
    using assms(5)
  proof (elim disjE conjE)
    assume n: "u \<le> c" "n \<le> c - u + x"
    have "val (c - u) = val c - val u" using le(1,2) n(1) by (intro val_diff_le) (simp_all add: i64_le_iff)
    moreover have "in_range (val (c - u) + val x)"
      using le calculation n(1) val_less [of c] val_ge [of x] by (simp add: in_range_def i64_le_iff)
    ultimately show ?thesis using n le(4) by (simp add: i64_le_iff val_add)
  qed (use le in simp_all)
  moreover have nb: "val (n - b) = val n - val b"
    using le val_less [of n] val_less [of b] by (intro val_diff) (simp add: in_range_def)
  moreover have "in_range (val u + val (n - b))"
    using room nb le val_less [of c] val_less [of u] by (auto simp: in_range_def)
  then show v: "val (u + (n - b)) = val u + val n - val b" by (simp add: val_add nb)
  show "0 \<le> u + (n - b)" "u \<le> c \<Longrightarrow> u + (n - b) \<le> c" using room le by (auto simp: i64_le_iff v)
qed

lemma fits_moved:
  fixes u c b n :: i64
  assumes "0 \<le> b" "b \<le> u" "u \<le> c" "0 \<le> n" "\<not> c - u < n - b"
  shows "n \<le> c - u + b"
proof -
  have le: "0 \<le> val b" "val b \<le> val u" "val u \<le> val c" "0 \<le> val n" using assms by (simp_all add: i64_le_iff)
  have cu: "val (c - u) = val c - val u" using le(1,2) assms(3) by (intro val_diff_le) (simp_all add: i64_le_iff)
  have "val (n - b) = val n - val b" using le val_less [of n] val_less [of b] by (intro val_diff) (simp add: in_range_def)
  moreover have "val (c - u + b) = val (c - u) + val b" using le cu val_less [of c] by (intro val_add) (simp add: in_range_def)
  ultimately show ?thesis using assms(5) cu by (simp add: i64_le_iff not_less)
qed

section \<open>The workload a realloc gives\<close>

text \<open>
  The workload is charged to the node: its amounts are part of the usage, and its disk quotas cover
  what its bindings hold.
\<close>

definition charged :: "NodeResourceInfo \<Rightarrow> WorkloadResource \<Rightarrow> bool" where
  "charged info w \<longleftrightarrow> single (VolumePlanRequest w) \<and> wf_disks (DisksRequest w) \<and>
     (\<forall>d. 0 \<le> plan_use (VolumePlanRequest w) d \<and> plan_use (VolumePlanRequest w) d \<le> mget (Volumes (Usage info)) d) \<and>
     (\<forall>d k. 0 \<le> disks_amount (DisksRequest w) (d, k) \<and>
        disks_amount (DisksRequest w) (d, k) \<le> disks_amount (Disks (Usage info)) (d, k) \<and>
        held_quota info (VolumesRequest w) (VolumePlanRequest w) (d, k) \<le> disks_amount (DisksRequest w) (d, k)) \<and>
     0 \<le> StorageRequest w \<and> StorageRequest w \<le> Storage (Usage info)"

lemma realloc_storage:
  assumes "request_Validate (realloc_request ord req0 old) = Inr req"
  shows "0 \<le> rStorageRequest req"
proof -
  obtain v where v: "validateVolumes (realloc_request ord req0 old) = Inr v" "validateStorageRequest v = Inr req"
    using assms by (auto simp: request_Validate_def)
  have "storageFolded v"
    using v(1) by (auto simp: validateVolumes_def Let_def bind_res_Inr_iff realloc_request_def SkipAddStorage_def
        split: if_splits option.splits)
  with validateStorageRequest_spec(6) [OF v(2)] show ?thesis by blast
qed

lemma realloc_plan_amounts:
  assumes "realloc_plan ord info need req old = Inr (vp, dp)" "node_ok info" "requests_ok (rVolumesRequest req)"
    and "int (length (Volumes (Capacity info))) < MaxInt" "charged info old"
  shows "single vp" "wf_disks dp" "0 \<le> plan_use vp d" "0 \<le> disks_amount dp (dev, k)"
    "plan_use vp d = 0 \<or> plan_use vp d = plan_use (VolumePlanRequest old) d \<or>
       d \<in> fst ` set (Volumes (Capacity info)) \<and> plan_use vp d \<le> mget (Volumes (Capacity info)) d - mget (Volumes (Usage info)) d + plan_use (VolumePlanRequest old) d"
    "disks_amount dp (dev, k) = 0 \<or> disks_amount dp (dev, k) = disks_amount (DisksRequest old) (dev, k) \<or>
       disks_amount dp (dev, k) \<le> disks_amount (Disks (Capacity info)) (dev, k) - disks_amount (Disks (Usage info)) (dev, k) +
         held_quota info (VolumesRequest old) (VolumePlanRequest old) (dev, k)"
proof -
  have "(single vp \<and> wf_disks dp) \<and> 0 \<le> plan_use vp d \<and> 0 \<le> disks_amount dp (dev, k) \<and>
    (plan_use vp d = 0 \<or> plan_use vp d = plan_use (VolumePlanRequest old) d \<or>
       d \<in> fst ` set (Volumes (Capacity info)) \<and> plan_use vp d \<le> mget (Volumes (Capacity info)) d - mget (Volumes (Usage info)) d + plan_use (VolumePlanRequest old) d) \<and>
    (disks_amount dp (dev, k) = 0 \<or> disks_amount dp (dev, k) = disks_amount (DisksRequest old) (dev, k) \<or>
       disks_amount dp (dev, k) \<le> disks_amount (Disks (Capacity info)) (dev, k) - disks_amount (Disks (Usage info)) (dev, k) +
         held_quota info (VolumesRequest old) (VolumePlanRequest old) (dev, k))"
  proof (cases need)
    case False
    then show ?thesis using assms(1,5) by (auto simp: realloc_plan_def charged_def)
  next
    case True
    then have run: "GetAffinityPlan ord info (rVolumesRequest req) (VolumePlanRequest old) (VolumesRequest old) = Inr (vp, dp)"
      using assms(1) by (auto simp: realloc_plan_def split: sum.splits)
    note v = GetAffinityPlan_bounds(1,2) [OF run assms(2-4), of d]
      and k = GetAffinityPlan_bounds(3,4) [OF run assms(2-4), of "(dev, k)"]
    have "single vp \<and> wf_disks dp"
    proof (cases "NeedSchedule (rVolumesRequest req)")
      case True
      have "cache_ok (newHost info 1)" by (simp add: cache_ok_def newHost_def split: prod.splits)
      moreover have "int (length (unusedVolumes (newHost info 1))) < MaxInt"
        using newHost_unused [of info 1] assms(4) by linarith
      ultimately show ?thesis
        using getAffinityPlan_spec(2,3) [OF run [unfolded GetAffinityPlan_def] True newHost_spec(1) [OF assms(2)] _ assms(3)]
        by (simp add: MaxInt_def)
    qed (use run in \<open>simp add: GetAffinityPlan_def getAffinityPlan_def\<close>)
    then show ?thesis using v k by (auto simp: order.order_iff_strict)
  qed
  then show "single vp" "wf_disks dp" "0 \<le> plan_use vp d" "0 \<le> disks_amount dp (dev, k)"
    "plan_use vp d = 0 \<or> plan_use vp d = plan_use (VolumePlanRequest old) d \<or>
       d \<in> fst ` set (Volumes (Capacity info)) \<and> plan_use vp d \<le> mget (Volumes (Capacity info)) d - mget (Volumes (Usage info)) d + plan_use (VolumePlanRequest old) d"
    "disks_amount dp (dev, k) = 0 \<or> disks_amount dp (dev, k) = disks_amount (DisksRequest old) (dev, k) \<or>
       disks_amount dp (dev, k) \<le> disks_amount (Disks (Capacity info)) (dev, k) - disks_amount (Disks (Usage info)) (dev, k) +
         held_quota info (VolumesRequest old) (VolumePlanRequest old) (dev, k)"
    by blast+
qed

section \<open>Recording the delta\<close>

lemma single_wf_maps: "single p \<Longrightarrow> list_all (\<lambda>(_, vm). wf_map vm) p"
  by (auto simp: single_def list_all_iff wf_map_def)

lemma realloc_run:
  assumes "storage_realloc ord info req0 old = Inr resp"
  obtains r where "request_Validate (realloc_request ord req0 old) = Inr r"
    "\<not> Storage (Capacity info) - Storage (Usage info) < rStorageRequest r - StorageRequest old"
    "realloc_plan ord info (NeedSchedule (rVolumesRequest req0)) r old =
       Inr (VolumePlanRequest (reallocWorkload resp), DisksRequest (reallocWorkload resp))"
    "VolumesRequest (reallocWorkload resp) = rVolumesRequest r" "StorageRequest (reallocWorkload resp) = rStorageRequest r"
    "reallocDelta resp = getDeltaWorkloadResourceArgs old (reallocWorkload resp)"
  using assms that by (auto simp: storage_realloc_def Let_def bind_res_Inr_iff split: if_splits)

text \<open>What the old workload holds of an amount and what the new one does.\<close>

lemma realloc_amounts:
  assumes run: "storage_realloc ord info req0 old = Inr resp" and ok: "info_ok info" and ch: "charged info old"
    and req: "requests_ok (VolumesRequest (reallocWorkload resp))"
    and len: "int (length (Volumes (Capacity info))) < MaxInt" and sto: "Storage (Usage info) \<le> Storage (Capacity info)"
  defines "new \<equiv> reallocWorkload resp"
  shows "single (VolumePlanRequest new)" "wf_disks (DisksRequest new)"
    "0 \<le> nr_amount (workload_usage old) i" "nr_amount (workload_usage old) i \<le> nr_amount (Usage info) i"
    "0 \<le> nr_amount (workload_usage new) i"
    "\<exists>x \<le> nr_amount (workload_usage old) i. nr_amount (workload_usage new) i = 0 \<or>
       nr_amount (workload_usage new) i = nr_amount (workload_usage old) i \<or> covered (Capacity info) i \<and>
       nr_amount (workload_usage new) i \<le> nr_amount (Capacity info) i - nr_amount (Usage info) i + x"
proof -
  obtain r where v: "request_Validate (realloc_request ord req0 old) = Inr r"
    and fit: "\<not> Storage (Capacity info) - Storage (Usage info) < rStorageRequest r - StorageRequest old"
    and plan: "realloc_plan ord info (NeedSchedule (rVolumesRequest req0)) r old = Inr (VolumePlanRequest new, DisksRequest new)"
    and vols: "VolumesRequest new = rVolumesRequest r" and st: "StorageRequest new = rStorageRequest r"
    using realloc_run [OF run] unfolding new_def by metis
  have "node_ok info" using ok by (simp add: info_ok_def wf_resource_def node_ok_def)
  note new = realloc_plan_amounts [OF plan this req [folded new_def, unfolded vols] len ch]
  show s: "single (VolumePlanRequest new)" "wf_disks (DisksRequest new)" by (rule new(1), rule new(2))
  have old: "single (VolumePlanRequest old)" "wf_disks (DisksRequest old)" using ch by (simp_all add: charged_def)
  note am = workload_usage_amounts [OF old] workload_usage_amounts [OF s]
  show "0 \<le> nr_amount (workload_usage old) i" "nr_amount (workload_usage old) i \<le> nr_amount (Usage info) i"
    using ch am by (cases i; simp add: charged_def)+
  show "0 \<le> nr_amount (workload_usage new) i"
    using new(3,4) am st realloc_storage [OF v] by (cases i) auto
  show "\<exists>x \<le> nr_amount (workload_usage old) i. nr_amount (workload_usage new) i = 0 \<or>
       nr_amount (workload_usage new) i = nr_amount (workload_usage old) i \<or> covered (Capacity info) i \<and>
       nr_amount (workload_usage new) i \<le> nr_amount (Capacity info) i - nr_amount (Usage info) i + x"
  proof (cases i)
    case (VolumeSize d)
    with new(5) [of d] am show ?thesis by (intro exI [of _ "nr_amount (workload_usage old) i"]) (auto simp: covered_def)
  next
    case (DiskQuotaOf d k)
    with new(6) [of d k] am ch show ?thesis
      by (intro exI [of _ "held_quota info (VolumesRequest old) (VolumePlanRequest old) (d, k)"])
        (auto simp: covered_def charged_def)
  next
    case StorageSize
    have "0 \<le> StorageRequest old" "StorageRequest old \<le> Storage (Usage info)" using ch by (simp_all add: charged_def)
    from fits_moved [OF this sto realloc_storage [OF v] fit] StorageSize am st show ?thesis
      by (intro exI [of _ "StorageRequest old"]) (simp add: covered_def)
  qed
qed

lemma realloc_keeps_info_ok:
  assumes run: "storage_realloc ord info req0 old = Inr resp" and ok: "info_ok info" and ch: "charged info old"
    and req: "requests_ok (VolumesRequest (reallocWorkload resp))"
    and len: "int (length (Volumes (Capacity info))) < MaxInt" and sto: "Storage (Usage info) \<le> Storage (Capacity info)"
  shows "info_ok (deployed info [reallocDelta resp])" "Storage (Usage (deployed info [reallocDelta resp])) \<le> Storage (Capacity info)"
    "val (nr_amount (Usage (deployed info [reallocDelta resp])) i) = val (nr_amount (Usage info) i)
       + val (nr_amount (workload_usage (reallocWorkload resp)) i) - val (nr_amount (workload_usage old) i)"
proof -
  let ?new = "reallocWorkload resp" and ?info = "deployed info [reallocDelta resp]"
  have wf: "wf_resource (Capacity info)" "wf_resource (Usage info)" using ok by (simp_all add: info_ok_def)
  note a = realloc_amounts [OF run ok ch req len sto]
  have delta: "reallocDelta resp = getDeltaWorkloadResourceArgs old ?new" using realloc_run [OF run] by metis
  have w: "wf_workload old" "wf_workload ?new"
    using ch a(1,2) single_wf_maps by (simp_all add: wf_workload_def charged_def)
  note d = delta_amounts [OF w, folded delta]
  have wd: "wf_resource (workload_usage (reallocDelta resp))" using d(2) wf_workload_usage by (simp add: wf_workload_def)
  have u: "nr_amount (Usage ?info) i =
      nr_amount (Usage info) i + (nr_amount (workload_usage ?new) i - nr_amount (workload_usage old) i)" for i
    by (simp add: deployed_def record_usage node_ledger.amount_add [OF wf(2) wd] d(1))
  have le: "covered (Capacity info) i \<Longrightarrow> nr_amount (Usage info) i \<le> nr_amount (Capacity info) i" for i
    using within_iff [of info] ok sto by blast
  have m: "val (nr_amount (Usage ?info) i) = val (nr_amount (Usage info) i)
      + val (nr_amount (workload_usage ?new) i) - val (nr_amount (workload_usage old) i) \<and> 0 \<le> nr_amount (Usage ?info) i \<and>
      (covered (Capacity info) i \<longrightarrow> nr_amount (Usage ?info) i \<le> nr_amount (Capacity info) i)" for i
  proof -
    obtain x where x: "x \<le> nr_amount (workload_usage old) i" "nr_amount (workload_usage ?new) i = 0 \<or>
        nr_amount (workload_usage ?new) i = nr_amount (workload_usage old) i \<or> nr_amount (Usage info) i \<le> nr_amount (Capacity info) i \<and>
        nr_amount (workload_usage ?new) i \<le> nr_amount (Capacity info) i - nr_amount (Usage info) i + x"
      using a(6) [of i] le [of i] by blast
    show ?thesis unfolding u using moved_amount [OF a(3-5) x] le [of i] by blast
  qed
  have "wf_resource (Usage ?info)" "Capacity ?info = Capacity info"
    by (simp_all add: deployed_def record_usage node_ledger.wf_add [OF wf(2) wd])
  then have "info_ok ?info \<and> Storage (Usage ?info) \<le> Storage (Capacity ?info)" unfolding within_iff using wf m by simp
  then show "info_ok ?info" "Storage (Usage ?info) \<le> Storage (Capacity info)" by (simp_all add: deployed_def)
  show "val (nr_amount (Usage ?info) i) = val (nr_amount (Usage info) i)
       + val (nr_amount (workload_usage ?new) i) - val (nr_amount (workload_usage old) i)" using m by blast
qed

text \<open>
  C12: Reallocating keeps a node within capacity. When the workload is charged to a node whose usage is
  within capacity, the usage that \<open>calculateNodeResource\<close> computes by adding the delta of the realloc is
  within capacity again: every volume, every disk quota and the storage total. \<open>Validate\<close> accepts the
  record.
\<close>

theorem realloc_keeps_capacity:
  assumes "storage_realloc ord info req old = Inr resp" "info_ok info" "charged info old"
    and "requests_ok (VolumesRequest (reallocWorkload resp))" "int (length (Volumes (Capacity info))) < MaxInt"
    and "Storage (Usage info) \<le> Storage (Capacity info)"
  shows "info_ok (deployed info [reallocDelta resp]) \<and>
    Storage (Usage (deployed info [reallocDelta resp])) \<le> Storage (Capacity info) \<and>
    (\<exists>info'. info_Validate (Some (Capacity info)) (Some (Usage (deployed info [reallocDelta resp]))) = Inr info')"
  using realloc_keeps_info_ok(1,2) [OF assms] info_ok_revalidates [of "deployed info [reallocDelta resp]"]
  by (simp add: deployed_def)

text \<open>The workload \<open>sample_old\<close> with the quota its normal binding holds, alone on its node.\<close>

definition sample_quota :: Disk where
  "sample_quota = sample_disk\<lparr>dReadIOPS := 10, dWriteIOPS := 0, dReadBPS := 0, dWriteBPS := 0\<rparr>"

definition paid_old :: WorkloadResource where
  "paid_old = sample_old\<lparr>DisksRequest := [sample_quota]\<rparr>"

definition paid_node :: NodeResourceInfo where
  "paid_node = sample_busy\<lparr>Usage := (Usage sample_busy)\<lparr>Disks := [sample_quota]\<rparr>\<rparr>"

lemma sample_charged: "charged paid_node paid_old"
proof -
  have w: "VolumePlanRequest paid_old = [(sample_mono, [(''/data/1'', 60)]), (sample_normal, [(''/data/0'', 30)])]"
    "Volumes (Usage paid_node) = [(''/data/0'', 30), (''/data/1'', 60)]" "DisksRequest paid_old = Disks (Usage paid_node)"
    "StorageRequest paid_old = 40" "Storage (Usage paid_node) = 40" "Disks (Usage paid_node) = [sample_quota]"
    by code_simp+
  let ?ds = "disks_Sub (Disks (Capacity paid_node)) (Disks (Usage paid_node))"
  have path: "GetDiskByPath ?ds ''/data/0'' = Some 0" "Device (?ds ! 0) = Device sample_quota" "\<not> RequireIOPS sample_mono" "RequireIOPS sample_normal"
    "mount_class (classifyVolumeBindings (VolumesRequest paid_old)) = []"
    "ReadIOPS sample_normal = 10" "WriteIOPS sample_normal = 0" "ReadBPS sample_normal = 0" "WriteBPS sample_normal = 0"
    by code_simp+
  have quota: "disks_amount [sample_quota] (d, k) = (if d = Device sample_quota then bquota sample_normal k else 0)" for d k
    by (cases k) (auto simp: disks_amount_def GetDiskByDevice_def path sample_quota_def)
  have "held_quota paid_node (VolumesRequest paid_old) (VolumePlanRequest paid_old) (d, k) =
      disks_amount [sample_quota] (d, k)" for d k
    unfolding held_quota_def Let_def quota
    by (auto simp: path mounts_quota_def plan_quota_def quota_at_def GetDevice_def w(1) split: option.splits)
  moreover have "0 \<le> disks_amount [sample_quota] (d, k)" for d k unfolding quota by (cases k) (auto simp: path)
  ultimately show ?thesis
    by (auto simp: charged_def w GetDevice_def GetSize_def mget_def)
qed

theorem realloc_keeps_capacity_witness:
  "\<exists>resp. storage_realloc (\<lambda>_. 0) paid_node sample_growth paid_old = Inr resp \<and> info_ok (deployed paid_node [reallocDelta resp]) \<and>
    plan_use (VolumePlanRequest (reallocWorkload resp)) ''/data/0'' = 35"
proof -
  let ?plan = "[(sample_normal\<lparr>SizeInBytes := 35, ReadIOPS := 20\<rparr>, [(''/data/0'', 35)]), (sample_mono, [(''/data/1'', 60)])]"
    and ?disks = "[sample_disk\<lparr>dReadIOPS := 20, dWriteIOPS := 0, dReadBPS := 0, dWriteBPS := 0\<rparr>]"
  have v: "request_Validate (realloc_request (\<lambda>_. 0) sample_growth paid_old) = Inr sample_grown" by code_simp
  have fit: "\<not> Storage (Capacity paid_node) - Storage (Usage paid_node) < rStorageRequest sample_grown - StorageRequest paid_old"
    by code_simp
  have plan: "realloc_plan (\<lambda>_. 0) paid_node (NeedSchedule (rVolumesRequest sample_growth)) sample_grown paid_old = Inr (?plan, ?disks)"
    by code_simp
  have "case getVolumePlanLimit (rVolumesRequest sample_grown) (rVolumesLimit sample_grown) ?plan of Inr _ \<Rightarrow> True | Inl _ \<Rightarrow> False"
    by code_simp
  then obtain plim where "getVolumePlanLimit (rVolumesRequest sample_grown) (rVolumesLimit sample_grown) ?plan = Inr plim"
    using Inr_of_case by blast
  from storage_realloc_run [OF v fit plan this] obtain resp where
    resp: "storage_realloc (\<lambda>_. 0) paid_node sample_growth paid_old = Inr resp" "VolumePlanRequest (reallocWorkload resp) = ?plan"
    by blast
  have "VolumesRequest (reallocWorkload resp) = rVolumesRequest sample_grown"
    using resp(1) v by (auto simp: storage_realloc_def Let_def bind_res_Inr_iff split: if_splits)
  moreover have "requests_ok (rVolumesRequest sample_grown)" "int (length (Volumes (Capacity paid_node))) < MaxInt"
    "Storage (Usage paid_node) \<le> Storage (Capacity paid_node)" by code_simp+
  moreover have "info_ok paid_node"
  proof -
    have "case info_Validate (Some (Capacity paid_node)) (Some (Usage paid_node)) of Inr i \<Rightarrow> True | Inl _ \<Rightarrow> False" by code_simp
    then obtain i where i: "info_Validate (Some (Capacity paid_node)) (Some (Usage paid_node)) = Inr i" using Inr_of_case by blast
    have "wf_resource (Capacity paid_node)" "wf_resource (Usage paid_node)" by code_simp+
    from info_Validate_accepts [OF i this] show ?thesis by (simp add: paid_node_def sample_busy_def)
  qed
  ultimately have "info_ok (deployed paid_node [reallocDelta resp])"
    using realloc_keeps_capacity [OF resp(1) _ sample_charged] by simp
  then show ?thesis using resp by (simp add: GetDevice_def GetSize_def)
qed

end
