(* ===== verification/Node_Machine.thy ===== *)
theory Node_Machine
  imports Held_Quota Realloc_Safety
begin

text \<open>
  The life of a node: workloads are deployed on it, reallocated and removed, each step by the functions
  of the plugin, and the record is validated as \<open>Put\<close> does. Whatever the order, the usage of the record is
  what the workloads hold, and it is within the capacity.
\<close>

section \<open>The disks a plan is made on\<close>

text \<open>Every disk of the usage is one of the capacity, mounts included: \<open>Validate\<close> leaves no other.\<close>

definition known_disks :: "NodeResourceInfo \<Rightarrow> bool" where
  "known_disks info \<longleftrightarrow> set (layout_of (Disks (Usage info))) \<subseteq> set (layout_of (Disks (Capacity info)))"

lemma sub_loop_layout:
  "wf_disks ds \<Longrightarrow> set (layout_of us) \<subseteq> set (layout_of ds) \<Longrightarrow>
   layout_of (disks_loop sub_quotas neg_quotas ds us []) = layout_of ds"
proof (induction us arbitrary: ds)
  case (Cons u us)
  obtain d where d: "d \<in> set ds" "Device d = Device u" "Mounts d = Mounts u"
    using Cons.prems(2) by (auto simp: layout_of_def)
  have "GetDiskByDevice ds (Device u) \<noteq> None"
    unfolding GetDiskByDevice_None_iff using d(1) d(2) [symmetric] by auto
  then obtain i where i: "GetDiskByDevice ds (Device u) = Some i" by blast
  note at = GetDiskByDevice_SomeD [OF i]
  obtain j where j: "j < length ds" "d = ds ! j" using d(1) by (auto simp: in_set_conv_nth)
  have "map Device ds ! j = map Device ds ! i" using at j d(2) by simp
  then have "j = i" using Cons.prems(1) at(1) j(1) nth_eq_iff_index_eq [of "map Device ds" j i] by (simp add: wf_disks_def)
  then have m: "Mounts (ds ! i) = Mounts u" using d(3) j(2) by simp
  let ?ds = "ds[i := sub_quotas (ds ! i) u]"
  have lay: "layout_of ?ds = layout_of ds"
  proof -
    have "layout_of ?ds = (layout_of ds)[i := (Device (ds ! i), Mounts (ds ! i))]"
      by (simp add: layout_of_def map_update sub_quotas_def m)
    also have "(Device (ds ! i), Mounts (ds ! i)) = layout_of ds ! i" using at(1) by (simp add: layout_of_def)
    finally show ?thesis by simp
  qed
  have "layout_of (disks_loop sub_quotas neg_quotas ?ds us []) = layout_of ?ds"
    using Cons.prems layout_of_wf [OF lay] lay by (intro Cons.IH) (auto simp: layout_of_def)
  with i lay show ?case by simp
qed simp

lemma free_layout:
  "info_ok info \<Longrightarrow> known_disks info \<Longrightarrow>
   layout_of (disks_Sub (Disks (Capacity info)) (Disks (Usage info))) = layout_of (Disks (Capacity info))"
  by (simp add: known_disks_def disks_Sub_loop sub_loop_layout info_ok_def wf_resource_def)

text \<open>The quota that the bindings of a workload take on the disks of the node.\<close>

definition binding_quota :: "NodeResource \<Rightarrow> WorkloadResource \<Rightarrow> string \<times> quota_kind \<Rightarrow> i64" where
  "binding_quota c w dk = mounts_quota (Disks c) (mount_class (classifyVolumeBindings (VolumesRequest w))) dk
     + plan_quota (Disks c) (VolumePlanRequest w) dk"

lemma held_quota_bindings:
  assumes "info_ok info" "known_disks info"
  shows "held_quota info (VolumesRequest w) (VolumePlanRequest w) = binding_quota (Capacity info) w"
  unfolding held_quota_def binding_quota_def Let_def fun_eq_iff mounts_quota_def plan_quota_def
  by (simp add: quota_at_layout [OF free_layout [OF assms]])

section \<open>The states\<close>

text \<open>A workload as the node accounts for it: nothing negative, and its bindings take no more quota than it is charged.\<close>

definition accounted :: "NodeResource \<Rightarrow> WorkloadResource \<Rightarrow> bool" where
  "accounted c w \<longleftrightarrow> single (VolumePlanRequest w) \<and> wf_disks (DisksRequest w) \<and>
     (\<forall>i. 0 \<le> nr_amount (workload_usage w) i) \<and>
     (\<forall>d k. binding_quota c w (d, k) \<le> disks_amount (DisksRequest w) (d, k))"

definition within_capacity :: "NodeResourceInfo \<Rightarrow> bool" where
  "within_capacity info \<longleftrightarrow> info_ok info \<and> Storage (Usage info) \<le> Storage (Capacity info)"

definition node_invariant :: "NodeResourceInfo \<times> WorkloadResource list \<Rightarrow> bool" where
  "node_invariant s \<longleftrightarrow> (case s of (info, ws) \<Rightarrow>
     within_capacity info \<and> known_disks info \<and> sorted (map Device (Disks (Capacity info))) \<and>
     (\<forall>w \<in> set ws. accounted (Capacity info) w) \<and> (\<forall>i. val (nr_amount (Usage info) i) = held_by ws i))"

lemma held_by_mem:
  assumes "w \<in> set ws" "\<forall>x \<in> set ws. 0 \<le> val (nr_amount (workload_usage x) i)"
  shows "val (nr_amount (workload_usage w) i) \<le> held_by ws i"
  unfolding held_by_def using assms by (intro member_le_sum_list) auto

lemma accounted_charged:
  assumes inv: "node_invariant (info, ws)" and w: "w \<in> set ws"
  shows "charged info w"
proof -
  have acc: "accounted (Capacity info) x" if "x \<in> set ws" for x using inv that by (simp add: node_invariant_def)
  then have "0 \<le> val (nr_amount (workload_usage x) i)" if "x \<in> set ws" for x i
    using that by (simp add: accounted_def i64_le_iff)
  then have le: "nr_amount (workload_usage w) i \<le> nr_amount (Usage info) i" for i
    using inv held_by_mem [OF w] by (simp add: node_invariant_def i64_le_iff)
  have s: "single (VolumePlanRequest w)" "wf_disks (DisksRequest w)" using acc [OF w] by (simp_all add: accounted_def)
  note am = workload_usage_amounts [OF s]
  have q: "held_quota info (VolumesRequest w) (VolumePlanRequest w) = binding_quota (Capacity info) w"
    using inv by (intro held_quota_bindings) (simp_all add: node_invariant_def within_capacity_def)
  have nn: "0 \<le> nr_amount (workload_usage w) i" for i using acc [OF w] by (simp add: accounted_def)
  show ?thesis
    unfolding charged_def q
    using s acc [OF w] le [of "VolumeSize _"] le [of "DiskQuotaOf _ _"] le [of StorageSize]
      nn [of "VolumeSize _"] nn [of "DiskQuotaOf _ _"] nn [of StorageSize] am
    by (simp add: accounted_def)
qed

section \<open>Recording\<close>

text \<open>What \<open>Put\<close> makes of a usage that is within a capacity it has validated before.\<close>

lemma record_validated:
  assumes "info_Validate (Some (Capacity info)) (Some (Usage info)) = Inr info'" "within_capacity info"
    and "sorted (map Device (Disks (Capacity info)))"
  shows "Capacity info' = Capacity info" "nr_amount (Usage info') i = nr_amount (Usage info) i"
    "within_capacity info'" "known_disks info'"
proof -
  have wf: "wf_resource (Capacity info)" "wf_resource (Usage info)" using assms(2) by (simp_all add: within_capacity_def info_ok_def)
  obtain ds where d: "validateDisks (sort_disks (Disks (Capacity info))) (sort_disks (Disks (Usage info))) = Inr ds"
    "info' = \<lparr>Capacity = (Capacity info)\<lparr>Disks := sort_disks (Disks (Capacity info))\<rparr>, Usage = (Usage info)\<lparr>Disks := ds\<rparr>\<rparr>"
    using assms(1) by (rule info_Validate_parts)
  show cap: "Capacity info' = Capacity info" by (simp add: d(2) sort_disks_id [OF assms(3)])
  note e = info_Validate_establishes [OF assms(1) wf]
  show "nr_amount (Usage info') i = nr_amount (Usage info) i" by (rule e(3))
  show "within_capacity info'" using e(1) e(3) [of StorageSize] assms(2) cap by (simp add: within_capacity_def)
  have wfd: "wf_disks (Disks (Capacity info))" "wf_disks (sort_disks (Disks (Usage info)))"
    using wf sort_disks_facts(2) by (simp_all add: wf_resource_def)
  have ds: "ds = map (set_mounts (Disks (Capacity info)))
      (filter (\<lambda>disk. GetDiskByDevice (Disks (Capacity info)) (Device disk) \<noteq> None) (sort_disks (Disks (Usage info))))"
    using d(1) by (simp add: sort_disks_id [OF assms(3)] validateDisks_eq [OF wfd] split: if_splits)
  have "(Device (set_mounts c u), Mounts (set_mounts c u)) \<in> set (layout_of c)" if h: "GetDiskByDevice c (Device u) \<noteq> None" for c u
  proof -
    obtain i where i: "GetDiskByDevice c (Device u) = Some i" using h by blast
    from GetDiskByDevice_SomeD [OF i] have "(Device u, Mounts (c ! i)) = layout_of c ! i" "i < length (layout_of c)"
      by (simp_all add: layout_of_def)
    with i show ?thesis using nth_mem [of i "layout_of c"] by (simp add: set_mounts_def)
  qed
  then show "known_disks info'"
    unfolding known_disks_def cap by (auto simp: d(2) ds layout_of_def)
qed

lemma record_step:
  assumes inv: "node_invariant (info, ws)" and v: "info_Validate (Some (Capacity info)) (Some u) = Inr info'"
    and "within_capacity (info\<lparr>Usage := u\<rparr>)" "\<forall>i. val (nr_amount u i) = held_by ws' i"
    and "\<forall>w \<in> set ws'. w \<in> set ws \<or> accounted (Capacity info) w"
  shows "node_invariant (info', ws') \<and> Capacity info' = Capacity info"
proof -
  have srt: "sorted (map Device (Disks (Capacity info)))" using inv by (simp add: node_invariant_def)
  note r = record_validated [of "info\<lparr>Usage := u\<rparr>" info', simplified, OF v assms(3) srt]
  show ?thesis using inv r assms(4,5) by (auto simp: node_invariant_def)
qed

section \<open>The three operations\<close>

lemma exact_accounted:
  assumes "exact (Disks c) (VolumePlanRequest w) (mount_class (classifyVolumeBindings (VolumesRequest w))) (DisksRequest w)"
    and "single (VolumePlanRequest w)" "\<And>i. 0 \<le> nr_amount (workload_usage w) i"
  shows "accounted c w"
  using assms by (simp add: accounted_def exact_def binding_quota_def add.commute)

lemma deploy_accounted:
  assumes inv: "node_invariant (info, ws)" and run: "storage_doAlloc info n req = Inr (eps, new)"
    and req: "requests_ok (rVolumesRequest req)" "0 \<le> rStorageRequest req"
    and len: "int (length (Volumes (Capacity info))) < MaxInt" and w: "w \<in> set new"
  shows "accounted (Capacity info) w"
proof -
  have ok: "info_ok info" "node_ok info" "known_disks info"
    using inv by (auto simp: node_invariant_def within_capacity_def info_ok_def wf_resource_def node_ok_def)
  note al = storage_doAlloc_spec(3) [OF run ok(2) req(1) len]
  obtain vps dps where plans: "storage_plans info n req = Inr (vps, dps)"
    and all: "alloc_all (Disks (Capacity info)) req vps dps = Inr (eps, new)"
    using run by (auto simp: storage_doAlloc_def bind_res_Inr_iff split: if_splits)
  note sp = alloc_all_spec [OF all]
  obtain j where j: "j < length new" "w = new ! j" using w by (auto simp: in_set_conv_nth)
  have len': "length vps = length new" using sp by (metis length_map)
  have at: "VolumePlanRequest w = vps ! j" "DisksRequest w = dps ! j" "j < length vps" "j < length dps"
  proof -
    show "VolumePlanRequest w = vps ! j" using sp j by (metis nth_map)
    have "map DisksRequest new ! j = take (length vps) dps ! j" using sp by simp
    then show "DisksRequest w = dps ! j" using j len' by simp
    show "j < length vps" "j < length dps" using sp j len' by simp_all
  qed
  let ?m = "mount_class (classifyVolumeBindings (rVolumesRequest req))" and ?ds = "disks_Sub (Disks (Capacity info)) (Disks (Usage info))"
  have "exact (Disks (Capacity info)) (vps ! j) ?m (dps ! j)"
  proof (cases "NeedSchedule (rVolumesRequest req)")
    case True
    then have "GetVolumePlans info (rVolumesRequest req) (val n) = Inr (vps, dps)"
      using plans by (auto simp: storage_plans_def bind_res_Inr_iff split: if_splits)
    moreover have "val n \<le> MaxInt" using val_less [of n] by (simp add: MaxInt_def)
    ultimately have "all_exact ?ds ?m vps dps" using GetVolumePlans_exact ok(2) req(1) len by blast
    then have "exact ?ds (vps ! j) ?m (dps ! j)" using at by (simp add: list_all2_conv_all_nth)
    then show ?thesis by (simp add: exact_layout [OF free_layout [OF ok(1,3)]])
  next
    case False
    then have "vps ! j = []" "dps ! j = []" using plans at by (auto simp: storage_plans_def)
    moreover have "\<forall>r \<in> set ?m. \<not> RequireIOPS r" using False by (auto simp: NeedSchedule_def list_ex_iff classes_sets)
    ultimately show ?thesis by (simp add: exact_Nil)
  qed
  moreover have "VolumesRequest w = rVolumesRequest req" "single (VolumePlanRequest w)" using al w by blast+
  moreover have "0 \<le> nr_amount (workload_usage w) i" for i
    using alloc_held_by [OF run ok(1) req(1) len req(2) w, of i] by (simp add: i64_le_iff)
  ultimately show ?thesis using at by (intro exact_accounted) simp_all
qed

lemma realloc_accounted:
  assumes inv: "node_invariant (info, ws)" and run: "storage_realloc ord info req0 old = Inr resp" and old: "old \<in> set ws"
    and req: "requests_ok (VolumesRequest (reallocWorkload resp))"
    and len: "int (length (Volumes (Capacity info))) < MaxInt"
    and kept: "NeedSchedule (rVolumesRequest req0) \<or>
      (\<forall>d k. binding_quota (Capacity info) (reallocWorkload resp) (d, k) \<le> binding_quota (Capacity info) old (d, k))"
  shows "accounted (Capacity info) (reallocWorkload resp)"
proof -
  let ?new = "reallocWorkload resp"
  have ok: "info_ok info" "node_ok info" "known_disks info" "Storage (Usage info) \<le> Storage (Capacity info)"
    using inv by (auto simp: node_invariant_def within_capacity_def info_ok_def wf_resource_def node_ok_def)
  note a = realloc_amounts [OF run ok(1) accounted_charged [OF inv old] req len ok(4)]
  obtain r where plan: "realloc_plan ord info (NeedSchedule (rVolumesRequest req0)) r old = Inr (VolumePlanRequest ?new, DisksRequest ?new)"
    and vols: "VolumesRequest ?new = rVolumesRequest r"
    using realloc_run [OF run] by metis
  show ?thesis
  proof (cases "NeedSchedule (rVolumesRequest req0)")
    case True
    then have "GetAffinityPlan ord info (rVolumesRequest r) (VolumePlanRequest old) (VolumesRequest old) =
        Inr (VolumePlanRequest ?new, DisksRequest ?new)"
      using plan by (auto simp: realloc_plan_def split: sum.splits if_splits)
    from GetAffinityPlan_exact [OF this ok(2) req [unfolded vols] len] show ?thesis
      using a(1,5) by (intro exact_accounted) (simp_all add: vols exact_layout [OF free_layout [OF ok(1,3)]])
  next
    case False
    then have "DisksRequest ?new = DisksRequest old" using plan by (simp add: realloc_plan_def)
    moreover have "accounted (Capacity info) old" using inv old by (simp add: node_invariant_def)
    ultimately show ?thesis using a(1,2,5) kept False unfolding accounted_def by (metis order_trans)
  qed
qed

text \<open>Removing a workload: its usage is taken off.\<close>

definition removed :: "NodeResourceInfo \<Rightarrow> WorkloadResource \<Rightarrow> NodeResourceInfo" where
  "removed info w = info\<lparr>Usage := storage_calculateNodeResource None None (Some (Usage info)) [w] True False\<rparr>"

lemma remove_keeps_within:
  assumes "within_capacity info" "charged info w"
  shows "within_capacity (removed info w)"
    "val (nr_amount (Usage (removed info w)) i) = val (nr_amount (Usage info) i) - val (nr_amount (workload_usage w) i)"
proof -
  have wf: "wf_resource (Capacity info)" "wf_resource (Usage info)" "wf_resource (workload_usage w)"
    using assms workload_usage_amounts(1) by (simp_all add: within_capacity_def info_ok_def charged_def)
  have le: "0 \<le> nr_amount (workload_usage w) i \<and> nr_amount (workload_usage w) i \<le> nr_amount (Usage info) i" for i
    using assms(2) workload_usage_amounts [of w] by (cases i) (simp_all add: charged_def)
  have u: "nr_amount (Usage (removed info w)) i = nr_amount (Usage info) i - nr_amount (workload_usage w) i" for i
    by (simp add: removed_def record_usage node_ledger.amount_sub [OF wf(2,3)])
  have v: "val (nr_amount (Usage (removed info w)) i) = val (nr_amount (Usage info) i) - val (nr_amount (workload_usage w) i)" for i
    unfolding u using le [of i] by (intro val_diff_le) auto
  then show "val (nr_amount (Usage (removed info w)) i) = val (nr_amount (Usage info) i) - val (nr_amount (workload_usage w) i)" .
  have "wf_resource (Usage (removed info w))" by (simp add: removed_def record_usage node_ledger.wf_sub [OF wf(2,3)])
  moreover have "0 \<le> nr_amount (Usage (removed info w)) i \<and> nr_amount (Usage (removed info w)) i \<le> nr_amount (Capacity info) i"
    if "covered (Capacity info) i" for i
    using v [of i] le [of i] that within_iff [of info] assms(1) by (force simp: within_capacity_def i64_le_iff)
  ultimately show "within_capacity (removed info w)"
    unfolding within_capacity_def within_iff using wf(1) by (simp add: removed_def)
qed

section \<open>The machine\<close>

inductive node_step :: "NodeResourceInfo \<times> WorkloadResource list \<Rightarrow> NodeResourceInfo \<times> WorkloadResource list \<Rightarrow> bool" where
  Deploy: "storage_doAlloc info n req = Inr (eps, new) \<Longrightarrow> requests_ok (rVolumesRequest req) \<Longrightarrow> 0 \<le> rStorageRequest req \<Longrightarrow>
    info_Validate (Some (Capacity info)) (Some (Usage (deployed info new))) = Inr info' \<Longrightarrow>
    node_step (info, ws) (info', ws @ new)"
| Realloc: "j < length ws \<Longrightarrow> storage_realloc ord info req (ws ! j) = Inr resp \<Longrightarrow> requests_ok (VolumesRequest (reallocWorkload resp)) \<Longrightarrow>
    NeedSchedule (rVolumesRequest req) \<or> (\<forall>d k.
      binding_quota (Capacity info) (reallocWorkload resp) (d, k) \<le> binding_quota (Capacity info) (ws ! j) (d, k)) \<Longrightarrow>
    info_Validate (Some (Capacity info)) (Some (Usage (deployed info [reallocDelta resp]))) = Inr info' \<Longrightarrow>
    node_step (info, ws) (info', ws[j := reallocWorkload resp])"
| Remove: "j < length ws \<Longrightarrow>
    info_Validate (Some (Capacity info)) (Some (Usage (removed info (ws ! j)))) = Inr info' \<Longrightarrow>
    node_step (info, ws) (info', take j ws @ drop (Suc j) ws)"

inductive_cases node_stepE: "node_step (info, ws) s'"

lemma held_by_update: "j < length ws \<Longrightarrow> held_by (ws[j := w]) i
    = held_by ws i + val (nr_amount (workload_usage w) i) - val (nr_amount (workload_usage (ws ! j)) i)"
  by (induction ws arbitrary: j) (auto simp: held_by_def less_Suc_eq_0_disj)

lemma held_by_drop: "j < length ws \<Longrightarrow> held_by (take j ws @ drop (Suc j) ws) i
    = held_by ws i - val (nr_amount (workload_usage (ws ! j)) i)"
  by (subst (2) id_take_nth_drop [of j ws]) (simp_all add: held_by_def)

lemma node_step_invariant:
  assumes "node_step (info, ws) (info', ws')" "node_invariant (info, ws)" "int (length (Volumes (Capacity info))) < MaxInt"
  shows "node_invariant (info', ws') \<and> Capacity info' = Capacity info"
proof -
  have sum: "val (nr_amount (Usage info) i) = held_by ws i" for i using assms(2) by (simp add: node_invariant_def)
  show ?thesis
    using assms(1)
  proof (cases rule: node_step.cases)
    case (Deploy n req eps new)
    have ok: "info_ok info" "Storage (Usage info) \<le> Storage (Capacity info)"
      using assms(2) by (simp_all add: node_invariant_def within_capacity_def)
    note d = deploy_keeps_info_ok [OF Deploy(2) ok(1) Deploy(3) assms(3) Deploy(4) ok(2)]
    have "within_capacity (info\<lparr>Usage := Usage (deployed info new)\<rparr>)"
      using d(1,2) by (simp add: within_capacity_def deployed_def)
    from record_step [OF assms(2) Deploy(5) this, of ws'] show ?thesis
      using d(4) sum deploy_accounted [OF assms(2) Deploy(2-4) assms(3)] Deploy(1) by auto
  next
    case (Realloc j ord req resp)
    have ok: "info_ok info" "Storage (Usage info) \<le> Storage (Capacity info)" and mem: "ws ! j \<in> set ws"
      using assms(2) Realloc(2) by (simp_all add: node_invariant_def within_capacity_def)
    note d = realloc_keeps_info_ok [OF Realloc(3) ok(1) accounted_charged [OF assms(2) mem] Realloc(4) assms(3) ok(2)]
    have "within_capacity (info\<lparr>Usage := Usage (deployed info [reallocDelta resp])\<rparr>)"
      using d(1,2) by (simp add: within_capacity_def deployed_def)
    from record_step [OF assms(2) Realloc(6) this, of ws'] show ?thesis
      using d(3) sum realloc_accounted [OF assms(2) Realloc(3) mem Realloc(4) assms(3) Realloc(5)] Realloc(1,2)
        set_update_subset_insert [of ws j "reallocWorkload resp"] by (auto simp: held_by_update)
  next
    case (Remove j)
    have mem: "ws ! j \<in> set ws" and cap: "within_capacity info" using assms(2) Remove(2) by (simp_all add: node_invariant_def)
    note d = remove_keeps_within [OF cap accounted_charged [OF assms(2) mem]]
    have "within_capacity (info\<lparr>Usage := Usage (removed info (ws ! j))\<rparr>)" using d(1) by (simp add: removed_def)
    from record_step [OF assms(2) Remove(3) this, of ws'] show ?thesis
      using d(2) sum Remove(1,2) by (auto simp: held_by_drop simp del: held_by_simps dest: in_set_takeD in_set_dropD)
  qed
qed

lemma node_history:
  assumes "node_step\<^sup>*\<^sup>* s s'" "node_invariant s" "int (length (Volumes (Capacity (fst s)))) < MaxInt"
  shows "node_invariant s' \<and> Capacity (fst s') = Capacity (fst s)"
  using assms(1)
proof (induction rule: rtranclp_induct)
  case (step y z)
  obtain info ws info' ws' where yz: "y = (info, ws)" "z = (info', ws')" by (metis surj_pair)
  from step.hyps(2) step.IH assms(3) node_step_invariant [of info ws info' ws'] show ?case by (simp add: yz)
qed (use assms(2) in simp)

lemma node_start:
  assumes "info_Validate (Some c) (Some empty_resource) = Inr info" "wf_resource c"
  shows "node_invariant (info, [])"
proof -
  have wf: "wf_resource empty_resource" by (simp add: empty_resource_def wf_resource_def)
  obtain ds where d: "validateDisks (sort_disks (Disks c)) (sort_disks (Disks empty_resource)) = Inr ds"
    "info = \<lparr>Capacity = c\<lparr>Disks := sort_disks (Disks c)\<rparr>, Usage = empty_resource\<lparr>Disks := ds\<rparr>\<rparr>"
    using assms(1) by (rule info_Validate_parts)
  note e = info_Validate_establishes [OF assms wf]
  have "nr_amount empty_resource i = 0" for i
    by (cases i) (simp_all add: empty_resource_def mget_def disks_amount_def GetDiskByDevice_def)
  moreover have "Disks (Usage info) = []"
  proof -
    have "wf_disks (sort_disks (Disks c))" using assms(2) sort_disks_facts(2) by (simp add: wf_resource_def)
    with d(1) have "ds = []" by (simp add: empty_resource_def sort_disks_def validateDisks_eq split: if_splits)
    then show ?thesis by (simp add: d(2))
  qed
  moreover have "sorted (map Device (Disks (Capacity info)))" by (simp add: d(2) sort_disks_def)
  moreover have "Storage (Usage info) \<le> Storage (Capacity info)"
    using e(1) by (simp add: info_ok_def d(2) empty_resource_def)
  ultimately show ?thesis
    using e by (simp add: node_invariant_def within_capacity_def known_disks_def layout_of_def)
qed

text \<open>
  C1: A node is never promised twice. Workloads are deployed on a node, reallocated and removed in any
  order, every step by the plugin's functions and recorded as \<open>Put\<close> does; then the usage on record is
  exactly what the workloads of the node hold, nothing of it negative, and what they hold together is
  within the capacity of every volume, every quota of every disk and the storage total. The bindings of
  a deploy, and of the workload a realloc makes, are well formed (\<open>requests_ok\<close>: destinations of
  their own, sizes and quotas that are not negative, also as the sum over the monopoly bindings), and a
  realloc that does not reschedule does not raise the quota of a binding.
\<close>

theorem node_never_promised_twice:
  assumes "info_Validate (Some c) (Some empty_resource) = Inr info0" "wf_resource c"
    and "int (length (Volumes (Capacity info0))) < MaxInt" "node_step\<^sup>*\<^sup>* (info0, []) (info, ws)"
  shows "Capacity info = Capacity info0 \<and> info_ok info \<and> (\<forall>i. val (nr_amount (Usage info) i) = held_by ws i) \<and>
    (\<forall>w \<in> set ws. \<forall>i. 0 \<le> nr_amount (workload_usage w) i) \<and>
    (\<forall>i. covered (Capacity info0) i \<longrightarrow> held_by ws i \<le> val (nr_amount (Capacity info0) i))"
proof -
  have h: "node_invariant (info, ws)" "Capacity info = Capacity info0"
    using node_history [OF assms(4) node_start [OF assms(1,2)]] assms(3) by simp_all
  then show ?thesis
    using within_iff [of info] by (force simp: node_invariant_def within_capacity_def accounted_def i64_le_iff)
qed

theorem node_never_promised_twice_witness:
  "\<exists>info0 info w. info_Validate (Some (Capacity sample_info)) (Some empty_resource) = Inr info0 \<and>
    node_step\<^sup>*\<^sup>* (info0, []) (info, [w]) \<and> 0 < val (Storage (Usage info)) \<and> val (Storage (Usage info)) = held_by [w] StorageSize"
proof -
  let ?c = "Capacity sample_info"
  have "case info_Validate (Some ?c) (Some empty_resource) of Inr i \<Rightarrow> (case storage_doAlloc i 2 sample_request of
      Inr (eps, ws) \<Rightarrow> map StorageRequest ws = [40, 40] \<and> length (Volumes (Capacity i)) = 3 | Inl _ \<Rightarrow> False) | Inl _ \<Rightarrow> False"
    by code_simp
  then obtain i eps ws where i: "info_Validate (Some ?c) (Some empty_resource) = Inr i" "storage_doAlloc i 2 sample_request = Inr (eps, ws)"
    "map StorageRequest ws = [40, 40]" "length (Volumes (Capacity i)) = 3"
    by (auto split: sum.splits prod.splits)
  obtain w1 w2 where ws: "ws = [w1, w2]" "StorageRequest w2 = 40" using i(3) by (cases ws; cases "tl ws") auto
  have wf: "wf_resource ?c" and req: "requests_ok (rVolumesRequest sample_request)" "0 \<le> rStorageRequest sample_request"
    by code_simp+
  have len: "int (length (Volumes (Capacity i))) < MaxInt" by (simp add: i(4) MaxInt_def)
  note start = node_start [OF i(1) wf]
  have ok: "info_ok i" "Storage (Usage i) \<le> Storage (Capacity i)" using start by (simp_all add: node_invariant_def within_capacity_def)
  note d = deploy_keeps_info_ok [OF i(2) ok(1) req(1) len req(2) ok(2)]
  obtain i1 where i1: "info_Validate (Some (Capacity i)) (Some (Usage (deployed i ws))) = Inr i1"
    using info_ok_revalidates [OF d(1)] by (auto simp: deployed_def)
  have s1: "node_step (i, []) (i1, [w1, w2])" using node_step.Deploy [OF i(2) req i1, of "[]"] by (simp add: ws)
  note inv = node_step_invariant [OF s1 start len]
  have "within_capacity i1" using inv by (simp add: node_invariant_def)
  with accounted_charged [of i1 "[w1, w2]" w1] inv have "within_capacity (removed i1 w1)"
    by (intro remove_keeps_within) simp_all
  then obtain i2 where i2: "info_Validate (Some (Capacity i1)) (Some (Usage (removed i1 w1))) = Inr i2"
    using info_ok_revalidates [of "removed i1 w1"] by (auto simp: removed_def within_capacity_def)
  have s2: "node_step (i1, [w1, w2]) (i2, [w2])" using node_step.Remove [of 0 "[w1, w2]" i1 i2] i2 by simp
  have path: "node_step\<^sup>*\<^sup>* (i, []) (i2, [w2])" using s1 s2 by (meson rtranclp.rtrancl_refl rtranclp.rtrancl_into_rtrancl)
  from node_never_promised_twice [OF i(1) wf len path] have "val (nr_amount (Usage i2) StorageSize) = held_by [w2] StorageSize" by blast
  moreover have "nr_amount (workload_usage w2) StorageSize = 40"
    using inv ws(2) workload_usage_amounts(4) [of w2] by (simp add: node_invariant_def accounted_def)
  then have "0 < held_by [w2] StorageSize" by simp
  ultimately show ?thesis using i(1) path by (intro exI conjI) auto
qed

section \<open>A realloc that only lowers quotas\<close>

text \<open>
  A mount binding whose quota is lowered from 10 to 5. \<open>RequireIOPS\<close> looks for positive quotas, so the
  request does not count as one that touches quotas and nothing is rescheduled: the binding says 5, the
  disk stays charged with 10, and the delta releases nothing. The charge is on the safe side, which is why
  \<open>accounted\<close> asks for no more than an inequality.
\<close>

definition sample_bound :: WorkloadResource where
  "sample_bound = \<lparr>VolumesRequest = [request ''/data'' ''/m'' ''rw'' 0 10], VolumesLimit = [request ''/data'' ''/m'' ''rw'' 0 10],
     VolumePlanRequest = [], VolumePlanLimit = [], StorageRequest = 0, StorageLimit = 0,
     DisksRequest = [sample_quota], DisksLimit = [sample_quota]\<rparr>"

definition sample_lowering :: WorkloadResourceRequest where
  "sample_lowering = \<lparr>rVolumesRequest = [request ''/data'' ''/m'' ''rw'' 0 (-5)], rVolumesLimit = [request ''/data'' ''/m'' ''rw'' 0 (-5)],
     rStorageRequest = 0, rStorageLimit = 0, storageFolded = True\<rparr>"

lemma lowered_quota_stays_charged:
  "case storage_realloc (\<lambda>_. 0) paid_node sample_lowering sample_bound of Inl _ \<Rightarrow> False
   | Inr resp \<Rightarrow> map ReadIOPS (VolumesRequest (reallocWorkload resp)) = [5] \<and> map dReadIOPS (DisksRequest (reallocWorkload resp)) = [10] \<and>
       map dReadIOPS (DisksRequest (reallocDelta resp)) = [0]"
  by code_simp
end
