(* ===== verification/Plugincmd.thy ===== *)
theory Plugincmd
  imports Storage_Node Gpu_Plugin
begin

text \<open>
  \<open>plugincmd/\<close>: the command line of a plugin binary. Each command reads a \<open>RawParams\<close> from standard
  input and calls one verb of a plugin, here an argument of the handler. \<open>Cmd\<close> holds what core
  supplies: the typed accessors of \<open>RawParams\<close> and the decoders of an engine's info (its
  \<open>StorageTotal\<close>) and of the node references.
\<close>

record 'r Cmd =
  inString :: "'r \<Rightarrow> string \<Rightarrow> string"
  inStringSlice :: "'r \<Rightarrow> string \<Rightarrow> string list"
  inInt :: "'r \<Rightarrow> string \<Rightarrow> i64"
  inBool :: "'r \<Rightarrow> string \<Rightarrow> bool"
  inRawParams :: "'r \<Rightarrow> string \<Rightarrow> 'r option"
  inSliceRawParams :: "'r \<Rightarrow> string \<Rightarrow> 'r option list"
  decodeInfo :: "'r option \<Rightarrow> i64 res"
  decodeNodes :: "'r \<Rightarrow> NodeRef list res"

definition nodename_of :: "'r Cmd \<Rightarrow> 'r \<Rightarrow> string res" where
  "nodename_of c raw =
     (let n = inString c raw ''nodename'' in if n \<noteq> [] then Inr n else Inl ErrEmptyNodeName)"

text \<open>The rest of a handler once the node name is there; for verbs that write, with the cluster.\<close>

definition on_node :: "'r Cmd \<Rightarrow> 'r \<Rightarrow> (string \<Rightarrow> 'o res) \<Rightarrow> 'o res" where
  "on_node c raw f = bind_res (nodename_of c raw) f"

definition on_node_state :: "'r Cmd \<Rightarrow> 'r \<Rightarrow> 'w \<Rightarrow> (string \<Rightarrow> 'w \<times> 'o res) \<Rightarrow> 'w \<times> 'o res" where
  "on_node_state c raw w f = (case nodename_of c raw of Inl e \<Rightarrow> (w, Inl e) | Inr n \<Rightarrow> f n)"

definition on_nodes :: "'r Cmd \<Rightarrow> 'r \<Rightarrow> (string list \<Rightarrow> 'o res) \<Rightarrow> 'o res" where
  "on_nodes c raw f =
     (let nodenames = inStringSlice c raw ''nodenames'' in
      if nodenames = [] then Inl ErrEmptyNodeName else f nodenames)"

section \<open>node.go\<close>

definition cmd_addNode :: "'r Cmd \<Rightarrow> ('w \<Rightarrow> string \<Rightarrow> 'r option \<Rightarrow> i64 option \<Rightarrow> 'w \<times> 'o res) \<Rightarrow> 'r \<Rightarrow> 'w \<Rightarrow> 'w \<times> 'o res" where
  "cmd_addNode c AddNode raw w =
     on_node_state c raw w (\<lambda>node.
       case decodeInfo c (inRawParams c raw ''info'') of
         Inl e \<Rightarrow> (w, Inl e)
       | Inr info \<Rightarrow> AddNode w node (inRawParams c raw ''resource'') (Some info))"

definition cmd_removeNode :: "'r Cmd \<Rightarrow> ('w \<Rightarrow> string \<Rightarrow> 'w \<times> goerr option) \<Rightarrow> 'r \<Rightarrow> 'w \<Rightarrow> 'w \<times> unit res" where
  "cmd_removeNode c RemoveNode raw w =
     on_node_state c raw w (\<lambda>node.
       case RemoveNode w node of (w', e) \<Rightarrow> (w', check e (Inr ())))"

definition cmd_getNodesDeployCapacity :: "'r Cmd \<Rightarrow> ('w \<Rightarrow> string list \<Rightarrow> 'r option \<Rightarrow> 'o res) \<Rightarrow> 'r \<Rightarrow> 'w \<Rightarrow> 'o res" where
  "cmd_getNodesDeployCapacity c GetNodesDeployCapacity raw w =
     on_nodes c raw (\<lambda>nodenames. GetNodesDeployCapacity w nodenames (inRawParams c raw ''workload_resource''))"

definition cmd_setNodeResourceCapacity ::
    "'r Cmd \<Rightarrow> ('w \<Rightarrow> string \<Rightarrow> 'r option \<Rightarrow> 'r option \<Rightarrow> bool \<Rightarrow> bool \<Rightarrow> 'w \<times> 'o res) \<Rightarrow> 'r \<Rightarrow> 'w \<Rightarrow> 'w \<times> 'o res" where
  "cmd_setNodeResourceCapacity c SetNodeResourceCapacity raw w =
     on_node_state c raw w (\<lambda>node. SetNodeResourceCapacity w node
       (inRawParams c raw ''resource'') (inRawParams c raw ''resource_request'')
       (inBool c raw ''delta'') (inBool c raw ''incr''))"

text \<open>A node the plugin never saw is answered with \<open>null\<close>.\<close>

definition cmd_getNodeResourceInfo :: "'r Cmd \<Rightarrow> ('w \<Rightarrow> string \<Rightarrow> 'r option list \<Rightarrow> 'o res) \<Rightarrow> 'r \<Rightarrow> 'w \<Rightarrow> 'o option res" where
  "cmd_getNodeResourceInfo c GetNodeResourceInfo raw w =
     on_node c raw (\<lambda>node.
       case GetNodeResourceInfo w node (inSliceRawParams c raw ''workloads_resource'') of
         Inl e \<Rightarrow> if errors_is e ErrNodeNotExists then Inr None else Inl e
       | Inr resp \<Rightarrow> Inr (Some resp))"

definition cmd_getNodesResourceInfo :: "'r Cmd \<Rightarrow> ('w \<Rightarrow> string list \<Rightarrow> 'o res) \<Rightarrow> 'r \<Rightarrow> 'w \<Rightarrow> 'o res" where
  "cmd_getNodesResourceInfo c GetNodesResourceInfo raw w =
     on_nodes c raw (\<lambda>nodenames. GetNodesResourceInfo w nodenames)"

definition cmd_setNodeResourceInfo :: "'r Cmd \<Rightarrow> ('w \<Rightarrow> string \<Rightarrow> 'r option \<Rightarrow> 'r option \<Rightarrow> 'w \<times> goerr option) \<Rightarrow> 'r \<Rightarrow> 'w \<Rightarrow> 'w \<times> unit res" where
  "cmd_setNodeResourceInfo c SetNodeResourceInfo raw w =
     on_node_state c raw w (\<lambda>node.
       case SetNodeResourceInfo w node (inRawParams c raw ''capacity'') (inRawParams c raw ''usage'') of
         (w', e) \<Rightarrow> (w', check e (Inr ())))"

definition cmd_setNodeResourceUsage ::
    "'r Cmd \<Rightarrow> ('w \<Rightarrow> string \<Rightarrow> 'r option \<Rightarrow> 'r option \<Rightarrow> 'r option list \<Rightarrow> bool \<Rightarrow> bool \<Rightarrow> 'w \<times> 'o res) \<Rightarrow> 'r \<Rightarrow> 'w \<Rightarrow> 'w \<times> 'o res" where
  "cmd_setNodeResourceUsage c SetNodeResourceUsage raw w =
     on_node_state c raw w (\<lambda>node. SetNodeResourceUsage w node
       (inRawParams c raw ''resource'') (inRawParams c raw ''resource_request'')
       (inSliceRawParams c raw ''workloads_resource'') (inBool c raw ''delta'') (inBool c raw ''incr''))"

definition cmd_getMostIdleNode :: "'r Cmd \<Rightarrow> ('w \<Rightarrow> string list \<Rightarrow> 'o res) \<Rightarrow> 'r \<Rightarrow> 'w \<Rightarrow> 'o res" where
  "cmd_getMostIdleNode c GetMostIdleNode raw w = on_nodes c raw (\<lambda>nodenames. GetMostIdleNode w nodenames)"

definition cmd_fixNodeResource :: "'r Cmd \<Rightarrow> ('w \<Rightarrow> string \<Rightarrow> 'r option list \<Rightarrow> 'w \<times> 'o res) \<Rightarrow> 'r \<Rightarrow> 'w \<Rightarrow> 'w \<times> 'o res" where
  "cmd_fixNodeResource c FixNodeResource raw w =
     on_node_state c raw w (\<lambda>node. FixNodeResource w node (inSliceRawParams c raw ''workloads_resource''))"

section \<open>calculate.go and metrics.go\<close>

definition cmd_calculateDeploy :: "'r Cmd \<Rightarrow> ('w \<Rightarrow> string \<Rightarrow> i64 \<Rightarrow> 'r option \<Rightarrow> 'o res) \<Rightarrow> 'r \<Rightarrow> 'w \<Rightarrow> 'o res" where
  "cmd_calculateDeploy c CalculateDeploy raw w =
     on_node c raw (\<lambda>node. CalculateDeploy w node (inInt c raw ''deploy_count'')
       (inRawParams c raw ''workload_resource_request''))"

definition cmd_calculateRealloc :: "'r Cmd \<Rightarrow> ('w \<Rightarrow> string \<Rightarrow> 'r option \<Rightarrow> 'r option \<Rightarrow> 'o res) \<Rightarrow> 'r \<Rightarrow> 'w \<Rightarrow> 'o res" where
  "cmd_calculateRealloc c CalculateRealloc raw w =
     on_node c raw (\<lambda>node. CalculateRealloc w node (inRawParams c raw ''workload_resource'')
       (inRawParams c raw ''workload_resource_request''))"

definition cmd_getMetricsDescription :: "'o \<Rightarrow> 'r \<Rightarrow> 'w \<Rightarrow> 'o res" where
  "cmd_getMetricsDescription GetMetricsDescription raw w = Inr GetMetricsDescription"

definition cmd_getMetrics :: "'r Cmd \<Rightarrow> ('w \<Rightarrow> NodeRef list \<Rightarrow> 'o res) \<Rightarrow> 'r \<Rightarrow> 'w \<Rightarrow> 'o res" where
  "cmd_getMetrics c GetMetrics raw w = bind_res (decodeNodes c raw) (\<lambda>nodes. GetMetrics w nodes)"

section \<open>plugincmd.go\<close>

text \<open>
  \<open>serve\<close>: load the configuration, build the plugin, decode the input, run the handler and print its
  answer. Whatever fails first is an error with the status \<open>exitCode\<close>; a run-time panic of the handler
  is no error, and nothing here recovers it.
\<close>

datatype outcome = Printed string | Exit int goerr | Panicked

definition exitCode :: int where
  "exitCode = 128"

definition printJSON :: "('o \<Rightarrow> string res) \<Rightarrow> 'o \<Rightarrow> outcome" where
  "printJSON marshalOut out = (case marshalOut out of Inl e \<Rightarrow> Exit exitCode e | Inr text \<Rightarrow> Printed text)"

definition serve :: "'c res \<Rightarrow> ('c \<Rightarrow> 'p res) \<Rightarrow> 'r res \<Rightarrow> ('o \<Rightarrow> string res) \<Rightarrow>
    ('p \<Rightarrow> 'r \<Rightarrow> 'w \<Rightarrow> 'w \<times> 'o res) \<Rightarrow> 'w \<Rightarrow> 'w \<times> outcome" where
  "serve loadConfig newPlugin decodeInput marshalOut h w =
     (case bind_res loadConfig (\<lambda>config. bind_res (newPlugin config) (\<lambda>p.
             bind_res decodeInput (\<lambda>raw. Inr (p, raw)))) of
        Inl e \<Rightarrow> (w, Exit exitCode e)
      | Inr (p, raw) \<Rightarrow>
          (case h p raw w of
             (w', Inl e) \<Rightarrow> (w', if e = ErrPanic then Panicked else Exit exitCode e)
           | (w', Inr out) \<Rightarrow> (w', printJSON marshalOut out)))"

section \<open>The command tree\<close>

text \<open>
  The verbs in the order the tree lists them; core's package \<open>binary\<close> names each of them (\<open>nm\<close>). Beside
  them stand the commands \<open>name\<close> and \<open>verbs\<close>, the latter prints the names of the former.
\<close>

datatype verb = GetMetricsDescriptionCommand | GetMetricsCommand
  | AddNodeCommand | RemoveNodeCommand | GetNodesDeployCapacityCommand | SetNodeResourceCapacityCommand
  | GetNodeResourceInfoCommand | GetNodesResourceInfoCommand | SetNodeResourceInfoCommand
  | SetNodeResourceUsageCommand | GetMostIdleNodeCommand | FixNodeResourceCommand
  | CalculateDeployCommand | CalculateReallocCommand

definition metricsCommands :: "verb list" where
  "metricsCommands = [GetMetricsDescriptionCommand, GetMetricsCommand]"

definition nodeCommands :: "verb list" where
  "nodeCommands = [AddNodeCommand, RemoveNodeCommand, GetNodesDeployCapacityCommand, SetNodeResourceCapacityCommand,
     GetNodeResourceInfoCommand, GetNodesResourceInfoCommand, SetNodeResourceInfoCommand,
     SetNodeResourceUsageCommand, GetMostIdleNodeCommand, FixNodeResourceCommand]"

definition calculateCommands :: "verb list" where
  "calculateCommands = [CalculateDeployCommand, CalculateReallocCommand]"

datatype command = NameCommand | VerbsCommand "string list" | VerbCommand verb

definition commands :: "(verb \<Rightarrow> string) \<Rightarrow> (string \<times> command) list" where
  "commands nm =
     (let verbs = metricsCommands @ nodeCommands @ calculateCommands; names = map nm verbs
      in [(''name'', NameCommand), (''verbs'', VerbsCommand names)] @ map (\<lambda>v. (nm v, VerbCommand v)) verbs)"

text \<open>
  What a command does when it is run: \<open>name\<close> and \<open>verbs\<close> print without building the plugin, any other
  serves its handler. \<open>run_verb v\<close> is \<open>serve\<close> with the handler of \<open>v\<close>.
\<close>

definition action :: "string \<Rightarrow> (string \<Rightarrow> string res) \<Rightarrow> (string list \<Rightarrow> string res) \<Rightarrow>
    (verb \<Rightarrow> 'w \<Rightarrow> 'w \<times> outcome) \<Rightarrow> command \<Rightarrow> 'w \<Rightarrow> 'w \<times> outcome" where
  "action pluginName marshalString marshalStrings run_verb cmd w =
     (case cmd of
        NameCommand \<Rightarrow> (w, printJSON marshalString pluginName)
      | VerbsCommand names \<Rightarrow> (w, printJSON marshalStrings names)
      | VerbCommand v \<Rightarrow> run_verb v w)"

text \<open>
  \<open>nodestore.Open\<close> and the two \<open>NewPlugin\<close>: connecting to etcd is the client's, refusing a
  configuration without machines is the code's.
\<close>

definition Open :: "string list \<Rightarrow> (string list \<Rightarrow> 'kv res) \<Rightarrow> 'kv res" where
  "Open machines newETCD = (if length machines < 1 then Inl ErrConfigInvalid else newETCD machines)"

definition storage_NewPlugin :: "('w, 'r, 'f) StoragePlugin \<Rightarrow> i64 \<Rightarrow> string list \<Rightarrow>
    (string list \<Rightarrow> ('w, NodeResourceInfo) Store res) \<Rightarrow> ('w, 'r, 'f) StoragePlugin res" where
  "storage_NewPlugin core maxDeploy machines newETCD =
     bind_res (Open machines newETCD) (\<lambda>kv.
       Inr (core\<lparr>storageStore := storage_newStore kv, MaxDeployCount := maxDeploy\<rparr>))"

definition gpu_NewPlugin :: "('w, 'r, 'f) GpuPlugin \<Rightarrow> string list \<Rightarrow>
    (string list \<Rightarrow> ('w, gpu_NodeResourceInfo) Store res) \<Rightarrow> ('w, 'r, 'f) GpuPlugin res" where
  "gpu_NewPlugin core machines newETCD =
     bind_res (Open machines newETCD) (\<lambda>kv. Inr (core\<lparr>gpuStore := gpu_newStore kv\<rparr>))"

end
