(* ===== verification/Storage_Nodes.thy ===== *)
theory Storage_Nodes
  imports Storage_Verbs Plugincmd
begin

text \<open>
  The life of a node's record: adding and removing a node, rolling its capacity back, and what the
  verbs leave behind when they fail.
\<close>

section \<open>Adding and removing\<close>

lemma storage_on_reads: "storage_on p c \<Longrightarrow> \<exists>r. kvGet (storageStore p) w k = Inr r"
  unfolding storage_on_def reads_ok_def by blast

lemma storage_Delete:
  assumes "storage_on p c" "Delete (storageStore p) w n = (w', None)"
  shows "Get (storageStore p) w' n = Inl ErrNodeNotExists"
  using storage_on_reads [OF assms(1)] Get_after_Delete [OF _ assms(2)] assms(1) by (metis storage_on_def)

lemma storage_Put_other:
  assumes "storage_on p c" "Put (storageStore p) w n info = (w', Inr info')" "m \<noteq> n"
  shows "Get (storageStore p) w' m = Get (storageStore p) w m"
  using storage_on_reads [OF assms(1)] Get_after_Put_other [OF _ assms(2,3)] assms(1) by (metis storage_on_def)

lemma AddNode_put:
  assumes "storage_AddNode p w n raw tot = (w', Inr cap)"
  obtains req info where "CheckAbsent (storageStore p) w n = None" "req_Parse (params p) raw = Inr req"
    "Put (storageStore p) w n (NewNodeResourceInfo\<lparr>Capacity := \<lparr>Volumes = reqVolumes req, Disks = reqDisks req,
       Storage = node_storage tot (reqStorage req)\<rparr>\<rparr>) = (w', Inr info)" "cap = Capacity info"
  using assms by (auto simp: storage_AddNode_def Let_def split: option.splits sum.splits prod.splits)

lemma Put_new_node:
  assumes "storage_on p c" "Put (storageStore p) w n (NewNodeResourceInfo\<lparr>Capacity := cap\<rparr>) = (w', Inr info)"
  shows "Usage info = empty_resource"
  using storage_Put(1) [OF assms]
  by (auto simp: NewNodeResourceInfo_def empty_resource_def sort_disks_def validateDisks_def bind_res_Inr_iff
      dest!: check_capacity_disks_keeps elim!: info_Validate_parts split: if_splits)

text \<open>
  C28: The life of a node. \<open>AddNode\<close> works only on a name that has no record, and stores the capacity
  it answers with and no usage; the records of other nodes stay as they are. A second \<open>AddNode\<close> is
  refused with \<open>ErrNodeExists\<close> and changes nothing, and once \<open>RemoveNode\<close> has succeeded the node's
  info is asked for in vain.
\<close>

theorem node_lifecycle:
  assumes "storage_on p c" "storage_AddNode p w n raw tot = (w1, Inr cap)"
  shows "GetOrEmpty (storageStore p) w n = Inr NewNodeResourceInfo \<and>
    Get (storageStore p) w1 n = Inr \<lparr>Capacity = cap, Usage = empty_resource\<rparr> \<and>
    (\<forall>m. m \<noteq> n \<longrightarrow> Get (storageStore p) w1 m = Get (storageStore p) w m) \<and>
    storage_AddNode p w1 n raw' tot' = (w1, Inl ErrNodeExists) \<and>
    (\<forall>w2. storage_RemoveNode p w1 n = (w2, None) \<longrightarrow>
       storage_GetNodeResourceInfo p w2 n rs = Inl ErrNodeNotExists)"
proof -
  obtain req :: NodeResourceRequest and info :: NodeResourceInfo where add: "CheckAbsent (storageStore p) w n = None"
    "Put (storageStore p) w n (NewNodeResourceInfo\<lparr>Capacity := \<lparr>Volumes = reqVolumes req, Disks = reqDisks req,
       Storage = node_storage tot (reqStorage req)\<rparr>\<rparr>) = (w1, Inr info)" "cap = Capacity info"
    using assms(2) by (rule AddNode_put)
  have new: "newInfo (storageStore p) = NewNodeResourceInfo"
    using assms(1) by (auto simp: storage_on_def storage_newStore_def)
  have "GetOrEmpty (storageStore p) w n = Inr NewNodeResourceInfo"
    using add(1) new by (auto simp: CheckAbsent_def GetOrEmpty_def split: sum.splits if_splits)
  moreover have get: "Get (storageStore p) w1 n = Inr \<lparr>Capacity = cap, Usage = empty_resource\<rparr>"
    using storage_Put(2) [OF assms(1) add(2)] Put_new_node [OF assms(1) add(2)] add(3) by (cases info) simp
  moreover have "storage_AddNode p w1 n raw' tot' = (w1, Inl ErrNodeExists)"
    using get by (simp add: storage_AddNode_def CheckAbsent_def)
  moreover have "storage_GetNodeResourceInfo p w2 n rs = Inl ErrNodeNotExists"
    if "storage_RemoveNode p w1 n = (w2, None)" for w2
    using storage_Delete [OF assms(1)] that
    by (simp add: storage_RemoveNode_def storage_GetNodeResourceInfo_def storage_getNodeResourceInfo_def)
  ultimately show ?thesis using storage_Put_other [OF assms(1) add(2)] by blast
qed

definition new_table :: "NodeResourceInfo list" where
  "new_table = [\<lparr>Capacity = Capacity (small_info 0 []), Usage = empty_resource\<rparr>]"

definition add_params :: "raw option" where
  "add_params = Some (RawKeys [(''volumes'', [''/v:100'']), (''disks'', [''sda:/data:100:100:1000:1000''])])"

theorem node_lifecycle_witness:
  "\<exists>w1. storage_AddNode (sample_plugin new_table) [] ''n1'' add_params None = (w1, Inr (Capacity (small_info 0 []))) \<and>
    Get (storageStore (sample_plugin new_table)) w1 ''n1'' =
      Inr \<lparr>Capacity = Capacity (small_info 0 []), Usage = empty_resource\<rparr> \<and>
    storage_AddNode (sample_plugin new_table) w1 ''n1'' add_params None = (w1, Inl ErrNodeExists)"
proof -
  let ?p = "sample_plugin new_table"
  have "snd (storage_AddNode ?p [] ''n1'' add_params None) = Inr (Capacity (small_info 0 []))" by code_simp
  then obtain w1 where add: "storage_AddNode ?p [] ''n1'' add_params None = (w1, Inr (Capacity (small_info 0 [])))"
    by (metis prod.collapse)
  from node_lifecycle [OF sample_plugin_on add, of add_params None] add show ?thesis by blast
qed

section \<open>Rollback of a capacity\<close>

lemma SetNodeResourceCapacity_rollback:
  assumes "storage_on p c" "GetOrEmpty (storageStore p) w n = Inr info"
    and "is_rollback p None raw False False" "decodeNode p raw = Inr old" "wf_resource old"
    and "storage_SetNodeResourceCapacity p w n None raw False False = (w', Inr (before, now))"
  shows "\<exists>info'. Get (storageStore p) w' n = Inr info' \<and> Capacity info' = now \<and> (\<forall>i. nr_amount now i = nr_amount old i)"
proof -
  let ?c = "nr_Add empty_resource old"
  have "storage_put_part p w n (info\<lparr>Capacity := ?c\<rparr>) Capacity (Capacity info) = (w', Inr (before, now))"
    using assms(2,3,4,6)
    by (simp add: storage_SetNodeResourceCapacity_def capacity_request_def edit_capacity_def
        storage_calculateNodeResource_def nr_apply_def)
  then obtain info' where put: "Put (storageStore p) w n (info\<lparr>Capacity := ?c\<rparr>) = (w', Inr info')" "now = Capacity info'"
    by (auto simp: storage_put_part_def split: prod.splits sum.splits)
  have wf: "wf_resource ?c" by (rule node_ledger.wf_add) (simp_all add: assms(5))
  then have srt: "disks_amount (sort_disks (Disks ?c)) dk = disks_amount (Disks ?c) dk" for dk
    by (simp add: sort_disks_facts wf_resource_def)
  obtain ds where "info' = \<lparr>Capacity = ?c\<lparr>Disks := sort_disks (Disks ?c)\<rparr>, Usage = (Usage info)\<lparr>Disks := ds\<rparr>\<rparr>"
    using storage_Put(1) [OF assms(1) put(1)] by (auto elim: info_Validate_parts)
  then have "nr_amount now i = nr_amount ?c i" for i using put(2) srt by (cases i) simp_all
  also have "nr_amount ?c i = nr_amount old i" for i by (simp add: node_ledger.amount_add assms(5))
  finally show ?thesis using storage_Put(2) [OF assms(1) put(1)] put(2) by blast
qed

lemma SetNodeResourceCapacity_before:
  assumes "storage_on p c" "GetOrEmpty (storageStore p) w n = Inr info"
    and "storage_SetNodeResourceCapacity p w n resource raw delta incr = (w', Inr (before, now))"
  shows "before = Capacity info" "\<exists>info'. Get (storageStore p) w' n = Inr info'"
  using assms storage_Put(2) [OF assms(1)]
  by (auto simp: storage_SetNodeResourceCapacity_def storage_put_part_def Let_def bind_res_Inr_iff
      split: sum.splits prod.splits)

text \<open>
  C29: Rollback. Whatever a successful \<open>SetNodeResourceCapacity\<close> did, calling it again in absolute mode
  with the \<open>before\<close> it answered with (parameters that hold the three keys and decode to that record)
  gives the node the capacity it had: every volume, every disk quota and the storage total.
\<close>

theorem capacity_rollback_restores:
  assumes "storage_on p c" "GetOrEmpty (storageStore p) w n = Inr info" "wf_resource (Capacity info)"
    and "storage_SetNodeResourceCapacity p w n resource raw delta incr = (w1, Inr (before, now))"
    and "is_rollback p None raw' False False" "decodeNode p raw' = Inr before"
    and "storage_SetNodeResourceCapacity p w1 n None raw' False False = (w2, Inr (now', restored))"
  shows "before = Capacity info \<and> (\<forall>i. nr_amount restored i = nr_amount (Capacity info) i) \<and>
    (\<exists>info2. Get (storageStore p) w2 n = Inr info2 \<and> Capacity info2 = restored)"
proof -
  note one = SetNodeResourceCapacity_before [OF assms(1,2,4)]
  obtain info1 where "Get (storageStore p) w1 n = Inr info1" using one(2) by blast
  from SetNodeResourceCapacity_rollback [OF assms(1) Get_GetOrEmpty [OF this] assms(5,6) _ assms(7)] one(1) assms(3)
  show ?thesis by auto
qed

definition shrink_params :: "raw option" where
  "shrink_params = Some (RawKeys [(''volumes'', [''/v:50''])])"

definition shrink_table :: "NodeResourceInfo list" where
  "shrink_table = [small_info 0 [], small_info 0 []\<lparr>Capacity := \<lparr>Volumes = [(''/v'', 50)], Disks = [sample_disk], Storage = 50\<rparr>\<rparr>]"

theorem capacity_rollback_restores_witness:
  "\<exists>w1 w2 before now now' restored.
     storage_SetNodeResourceCapacity (sample_plugin shrink_table) sample_cluster ''n1'' None shrink_params False False
       = (w1, Inr (before, now)) \<and> Storage now = 50 \<and>
     storage_SetNodeResourceCapacity (sample_plugin shrink_table) w1 ''n1'' None
       (Some (RawNode before)) False False = (w2, Inr (now', restored)) \<and>
     nr_amount restored StorageSize = 100"
proof -
  let ?p = "sample_plugin shrink_table" and ?parms = "Some (RawNode (Capacity (small_info 0 [])))"
  let ?one = "storage_SetNodeResourceCapacity ?p sample_cluster ''n1'' None shrink_params False False"
  let ?two = "storage_SetNodeResourceCapacity ?p (fst ?one) ''n1'' None ?parms False False"
  have "case snd ?one of Inr (before, now) \<Rightarrow> before = Capacity (small_info 0 []) \<and> Storage now = 50 | Inl _ \<Rightarrow> False"
    by code_simp
  then obtain w1 before now where one: "?one = (w1, Inr (before, now))" "before = Capacity (small_info 0 [])" "Storage now = 50"
    by (cases ?one) (auto split: sum.splits)
  have "case snd ?two of Inr _ \<Rightarrow> True | Inl _ \<Rightarrow> False" by code_simp
  then obtain w2 now' restored where two:
    "storage_SetNodeResourceCapacity ?p w1 ''n1'' None ?parms False False = (w2, Inr (now', restored))"
    using one(1) by (cases ?two) (auto split: sum.splits)
  have info: "GetOrEmpty (storageStore ?p) sample_cluster ''n1'' = Inr (small_info 0 [])" by code_simp
  have wf: "wf_resource (Capacity (small_info 0 []))" "nr_amount (Capacity (small_info 0 [])) StorageSize = 100" by code_simp+
  have rb: "is_rollback ?p None ?parms False False" "decodeNode ?p ?parms = Inr before"
    by (simp_all add: is_rollback_def sample_plugin_def sample_params_def one(2))
  show ?thesis
    using capacity_rollback_restores [OF sample_plugin_on info wf(1) one(1) rb two] wf(2) one two by metis
qed

section \<open>Failing\<close>

lemma untouched_put_part: "untouched (storageStore p) n w (storage_put_part p w n info part before)"
  using Put_changed [of "storageStore p" w n info]
  by (auto simp: untouched_def storage_put_part_def split: prod.splits sum.splits)

text \<open>
  C30: A verb that fails leaves the cluster as it found it, unless etcd itself refused the write: every
  check (parsing, decoding, the stored record, validation) is made before the one write.
\<close>

theorem storage_verbs_fail_untouched:
  "untouched (storageStore p) n w (storage_SetNodeResourceUsage p w n resource raw workloads delta incr) \<and>
   untouched (storageStore p) n w (storage_SetNodeResourceCapacity p w n resource raw delta incr) \<and>
   untouched (storageStore p) n w (storage_AddNode p w n raw tot) \<and>
   untouched (storageStore p) n w (storage_FixNodeResource p w n workloads)"
proof (intro conjI)
  show "untouched (storageStore p) n w (storage_SetNodeResourceUsage p w n resource raw workloads delta incr)"
    unfolding storage_SetNodeResourceUsage_def
    by (auto split: sum.splits simp: untouched_put_part)
  show "untouched (storageStore p) n w (storage_SetNodeResourceCapacity p w n resource raw delta incr)"
    unfolding storage_SetNodeResourceCapacity_def
    by (auto split: sum.splits simp: untouched_put_part)
  show "untouched (storageStore p) n w (storage_AddNode p w n raw tot)"
    using Put_changed [of "storageStore p" w n]
    by (auto simp: untouched_def storage_AddNode_def Let_def split: option.splits sum.splits prod.splits)
  show "untouched (storageStore p) n w (storage_FixNodeResource p w n workloads)"
    using Put_changed [of "storageStore p" w n]
    by (auto simp: untouched_def storage_FixNodeResource_def split: sum.splits prod.splits if_splits)
qed

end
