(* ===== verification/Storage_Machine.thy ===== *)
theory Storage_Machine
  imports Storage_Fix Storage_Nodes
begin

text \<open>
  The storage plugin as a state machine: the state is the cluster, a step is one call of a verb that
  writes, whether it succeeds or not. What every verb keeps is that each stored record is within capacity.
\<close>

section \<open>What a write may leave behind\<close>

text \<open>A write that etcd reports as failed (a timeout, say) was made or was not made.\<close>

definition all_or_nothing :: "('w, 'i) Store \<Rightarrow> ('w \<Rightarrow> string \<Rightarrow> string option) \<Rightarrow> bool" where
  "all_or_nothing s c \<longleftrightarrow>
     (\<forall>w k v w' e. kvPut s w k v = (w', Some e) \<longrightarrow> c w' = c w \<or> c w' = (c w)(k \<mapsto> v)) \<and>
     (\<forall>w k w' e. kvDelete s w k = (w', Some e) \<longrightarrow> c w' = c w \<or> c w' = (c w)(k := None))"

definition stored_ok :: "('w, 'r, 'f) StoragePlugin \<Rightarrow> 'w \<Rightarrow> bool" where
  "stored_ok p w \<longleftrightarrow> (\<forall>n info. Get (storageStore p) w n = Inr info \<longrightarrow> info_ok info)"

lemma stored_ok_update:
  assumes "storage_on p c" "stored_ok p w"
    and "c w' = c w \<or> c w' = (c w)(key (storageStore p) n := u)"
    and "\<forall>v info. u = Some v \<and> unmarshal (storageStore p) v (newInfo (storageStore p)) = Inr info \<longrightarrow> info_ok info"
  shows "stored_ok p w'"
proof -
  have on: "etcd_ok (storageStore p) c" "reads_ok (storageStore p)" using assms(1) by (simp_all add: storage_on_def)
  note get = Get_by_content [OF on]
  show ?thesis
    using assms(2-4) unfolding stored_ok_def get by (fastforce split: option.splits if_splits)
qed

lemma stored_ok_Put:
  assumes on: "storage_on p c" and whole: "all_or_nothing (storageStore p) c" and ok: "stored_ok p w"
    and wf: "wf_resource (Capacity info)" "wf_resource (Usage info)" and put: "Put (storageStore p) w n info = (w', r)"
  shows "stored_ok p w'"
proof (cases "w' = w")
  case False
  then obtain info' data e where v: "validate (storageStore p) info = Inr info'" "marshal (storageStore p) info' = Inr data"
    "kvPut (storageStore p) w (key (storageStore p) n) data = (w', e)"
    using put by (auto simp: Put_def split: sum.splits prod.splits option.splits)
  have "info_Validate (Some (Capacity info)) (Some (Usage info)) = Inr info'"
    using on v(1) by (auto simp: storage_on_def storage_newStore_def)
  from info_Validate_establishes [OF this wf] have "info_ok info'" by simp
  moreover have "unmarshal (storageStore p) data (newInfo (storageStore p)) = Inr info'"
    using on v(2) by (auto simp: storage_on_def codec_ok_def)
  moreover have "c w' = c w \<or> c w' = (c w)(key (storageStore p) n := Some data)"
    using on whole v(3) unfolding storage_on_def etcd_ok_def all_or_nothing_def by (cases e) blast+
  ultimately show ?thesis by (intro stored_ok_update [OF on ok]) auto
qed (use ok in simp)

lemma stored_ok_Delete:
  assumes "storage_on p c" "all_or_nothing (storageStore p) c" "stored_ok p w" "Delete (storageStore p) w n = (w', e)"
  shows "stored_ok p w'"
proof -
  have "c w' = c w \<or> c w' = (c w)(key (storageStore p) n := None)"
    using assms unfolding storage_on_def etcd_ok_def all_or_nothing_def Delete_def by (cases e) blast+
  then show ?thesis by (rule stored_ok_update [OF assms(1,3)]) simp
qed

section \<open>The steps\<close>

text \<open>Inputs whose disk lists name a device once.\<close>

definition plain_request :: "('w, 'r, 'f) StoragePlugin \<Rightarrow> 'r option \<Rightarrow> bool" where
  "plain_request p raw \<longleftrightarrow> (case req_Parse (params p) raw of Inr req \<Rightarrow> wf_disks (reqDisks req) | Inl _ \<Rightarrow> True)"

definition plain_node :: "('w, 'r, 'f) StoragePlugin \<Rightarrow> 'r option \<Rightarrow> bool" where
  "plain_node p raw \<longleftrightarrow> (case decodeNode p raw of Inr n \<Rightarrow> wf_resource n | Inl _ \<Rightarrow> True)"

definition plain_workload :: "('w, 'r, 'f) StoragePlugin \<Rightarrow> 'r option \<Rightarrow> bool" where
  "plain_workload p raw \<longleftrightarrow> (case decodeWorkload p raw of Inr x \<Rightarrow> wf_workload x | Inl _ \<Rightarrow> True)"

inductive storage_step :: "('w, 'r, 'f) StoragePlugin \<Rightarrow> 'w \<Rightarrow> 'w \<Rightarrow> bool" for p where
  AddNode: "plain_request p raw \<Longrightarrow> storage_AddNode p w n raw tot = (w', r) \<Longrightarrow> storage_step p w w'"
| RemoveNode: "storage_RemoveNode p w n = (w', e) \<Longrightarrow> storage_step p w w'"
| SetNodeResourceCapacity: "plain_request p raw \<Longrightarrow> plain_node p raw \<Longrightarrow> plain_node p resource \<Longrightarrow>
    storage_SetNodeResourceCapacity p w n resource raw delta incr = (w', r2) \<Longrightarrow> storage_step p w w'"
| SetNodeResourceUsage: "plain_request p raw \<Longrightarrow> plain_node p resource \<Longrightarrow> list_all (plain_workload p) rs \<Longrightarrow>
    storage_SetNodeResourceUsage p w n resource raw rs delta incr = (w', r2) \<Longrightarrow> storage_step p w w'"
| SetNodeResourceInfo: "plain_node p capacity \<Longrightarrow> plain_node p usage \<Longrightarrow>
    storage_SetNodeResourceInfo p w n capacity usage = (w', e) \<Longrightarrow> storage_step p w w'"
| FixNodeResource: "list_all (plain_workload p) rs \<Longrightarrow>
    storage_FixNodeResource p w n rs = (w', r3) \<Longrightarrow> storage_step p w w'"

inductive_cases storage_stepE: "storage_step p w w'"

section \<open>Every verb puts a well-formed record\<close>

lemma wf_req_Parse: "req_Parse rp raw = Inr req \<Longrightarrow> wf_map (reqVolumes req)"
proof -
  have "parse_volumes ram vs volumes = Inr v \<Longrightarrow> wf_map volumes \<Longrightarrow> wf_map v" for ram vs volumes v
    by (induction ram vs volumes rule: parse_volumes.induct) (auto split: list.splits)
  then show "req_Parse rp raw = Inr req \<Longrightarrow> wf_map (reqVolumes req)"
    by (fastforce simp: req_Parse_def bind_res_Inr_iff)
qed

lemma wf_make: "wf_map v \<Longrightarrow> wf_disks d \<Longrightarrow> wf_resource \<lparr>Volumes = v, Disks = d, Storage = s\<rparr>"
  by (simp add: wf_resource_def)

lemma wf_calculate:
  assumes "\<forall>r. req = Some r \<longrightarrow> wf_map (reqVolumes r) \<and> wf_disks (reqDisks r)" "\<forall>n. nodeResource = Some n \<longrightarrow> wf_resource n"
    and "\<forall>o'. origin = Some o' \<longrightarrow> wf_resource o'" "\<forall>x \<in> set ws. wf_workload x"
  shows "wf_resource (storage_calculateNodeResource req nodeResource origin ws delta incr)"
proof -
  have step: "wf_resource n \<Longrightarrow> wf_resource r \<Longrightarrow> wf_resource (nr_apply b n r)" for b n r
    using node_ledger.wf_add node_ledger.wf_sub by (simp add: nr_apply_def)
  have loop: "\<forall>x \<in> set ws. wf_workload x \<Longrightarrow> wf_resource r \<Longrightarrow> wf_resource (fold (\<lambda>w. nr_apply b (workload_usage w)) ws r)" for b ws r
    by (induction ws arbitrary: r) (auto intro!: step wf_workload_usage simp: wf_workload_def)
  obtain resp b where rb: "(case origin of Some o' \<Rightarrow> if delta then (nr_DeepCopy o', incr) else (empty_resource, True)
          | None \<Rightarrow> (empty_resource, True)) = (resp, b)" by fastforce
  then have resp: "wf_resource resp" using assms(3) by (auto split: option.splits if_splits)
  show ?thesis
    unfolding storage_calculateNodeResource_def rb
    using assms(1,2,4) resp wf_make by (auto split: option.splits intro!: step loop)
qed

lemma parse_workloads_wf: "parse_workloads p rs = Inr ws \<Longrightarrow> list_all (plain_workload p) rs \<Longrightarrow> \<forall>x \<in> set ws. wf_workload x"
  by (induction p rs arbitrary: ws rule: parse_workloads.induct) (fastforce simp: plain_workload_def bind_res_Inr_iff)+

lemma parseNodeResourceInfos_wf:
  assumes "storage_parseNodeResourceInfos p resource raw rs = Inr (req, n, ws)"
    and "plain_request p raw" "plain_node p resource" "list_all (plain_workload p) rs"
  shows "\<forall>r. req = Some r \<longrightarrow> wf_map (reqVolumes r) \<and> wf_disks (reqDisks r)" "\<forall>x. n = Some x \<longrightarrow> wf_resource x"
    "\<forall>x \<in> set ws. wf_workload x"
  using assms parse_workloads_wf [OF _ assms(4)]
  by (auto simp: storage_parseNodeResourceInfos_def plain_request_def plain_node_def bind_res_Inr_iff
      split: if_splits dest: wf_req_Parse)

lemma info_ok_new: "info_ok NewNodeResourceInfo"
  by (simp add: NewNodeResourceInfo_def info_ok_def empty_resource_def wf_resource_def wf_disks_def)

lemma GetOrEmpty_ok:
  assumes "storage_on p c" "stored_ok p w" "GetOrEmpty (storageStore p) w n = Inr info"
  shows "info_ok info"
proof -
  have "newInfo (storageStore p) = NewNodeResourceInfo" using assms(1) by (auto simp: storage_on_def storage_newStore_def)
  then have "Get (storageStore p) w n = Inr info \<or> info = NewNodeResourceInfo"
    using assms(3) by (auto simp: GetOrEmpty_def split: sum.splits if_splits)
  then show ?thesis using assms(2) info_ok_new by (auto simp: stored_ok_def)
qed

lemma capacity_request_wf:
  assumes "capacity_request p resource raw delta incr = Inr (req, n)"
    and "plain_request p raw" "plain_node p raw" "plain_node p resource"
  shows "\<forall>r. req = Some r \<longrightarrow> wf_map (reqVolumes r) \<and> wf_disks (reqDisks r)" "\<forall>x. n = Some x \<longrightarrow> wf_resource x"
proof -
  have "(req = None \<and> (\<exists>x. n = Some x \<and> decodeNode p raw = Inr x)) \<or> (\<exists>ws. storage_parseNodeResourceInfos p resource raw [] = Inr (req, n, ws))"
    using assms(1) by (auto simp: capacity_request_def Let_def bind_res_Inr_iff split: if_splits sum.splits)
  then show "\<forall>r. req = Some r \<longrightarrow> wf_map (reqVolumes r) \<and> wf_disks (reqDisks r)" "\<forall>x. n = Some x \<longrightarrow> wf_resource x"
    using parseNodeResourceInfos_wf [of p resource raw "[]" req n] assms(2-4) by (auto simp: plain_node_def)
qed

lemma edit_capacity_wf:
  assumes "edit_capacity p raw req delta cap = Inr (req', cap')" "wf_resource cap"
    and "\<forall>r. req = Some r \<longrightarrow> wf_map (reqVolumes r) \<and> wf_disks (reqDisks r)"
  shows "\<forall>r. req' = Some r \<longrightarrow> wf_map (reqVolumes r) \<and> wf_disks (reqDisks r)" "wf_resource cap'"
proof -
  have rm: "wf_resource (cap\<lparr>Disks := filter P (Disks cap)\<rparr>)" for P
    using assms(2) by (simp add: wf_resource_def wf_disks_def distinct_map_filter)
  show "wf_resource cap'"
    using assms(1,2) rm by (auto simp: edit_capacity_def Let_def split: option.splits if_splits)
  show "\<forall>r. req' = Some r \<longrightarrow> wf_map (reqVolumes r) \<and> wf_disks (reqDisks r)"
    using assms rm by (auto simp: edit_capacity_def Let_def SkipEmpty_def wf_resource_def split: option.splits if_splits)
qed

lemma RemoveEmpty_wf: "wf_resource n \<Longrightarrow> wf_resource (RemoveEmpty n)"
  by (simp add: RemoveEmpty_def wf_resource_def wf_map_filter)

text \<open>A verb leaves the cluster alone or puts one record whose parts are well formed.\<close>

definition puts_wf :: "('w, 'r, 'f) StoragePlugin \<Rightarrow> 'w \<Rightarrow> 'w \<Rightarrow> bool" where
  "puts_wf p w w' \<longleftrightarrow> w' = w \<or>
     (\<exists>n info r. Put (storageStore p) w n info = (w', r) \<and> wf_resource (Capacity info) \<and> wf_resource (Usage info))"

lemma puts_wf_part:
  assumes "storage_put_part p w n info part before = (w', r)" "wf_resource (Capacity info)" "wf_resource (Usage info)"
  shows "puts_wf p w w'"
proof -
  obtain r' where "Put (storageStore p) w n info = (w', r')"
    using assms(1) by (auto simp: storage_put_part_def split: prod.splits sum.splits)
  with assms(2,3) show ?thesis unfolding puts_wf_def by blast
qed

lemma AddNode_puts_wf:
  assumes "plain_request p raw" "storage_AddNode p w n raw tot = (w', r)"
  shows "puts_wf p w w'"
proof (cases "w' = w")
  case False
  then obtain req where req: "req_Parse (params p) raw = Inr req"
    using assms(2) by (auto simp: storage_AddNode_def split: option.splits sum.splits)
  let ?info = "NewNodeResourceInfo\<lparr>Capacity := \<lparr>Volumes = reqVolumes req, Disks = reqDisks req,
      Storage = node_storage tot (reqStorage req)\<rparr>\<rparr>"
  obtain r' where "Put (storageStore p) w n ?info = (w', r')"
    using assms(2) req False by (auto simp: storage_AddNode_def Let_def split: option.splits sum.splits prod.splits)
  moreover have "wf_resource (Capacity ?info)" "wf_resource (Usage ?info)"
    using assms(1) req wf_req_Parse [OF req] by (simp_all add: plain_request_def NewNodeResourceInfo_def wf_make)
  ultimately show ?thesis unfolding puts_wf_def by blast
qed (simp add: puts_wf_def)

lemma SetNodeResourceCapacity_puts_wf:
  assumes in_ok: "\<And>info. GetOrEmpty (storageStore p) w n = Inr info \<Longrightarrow> info_ok info"
    and plain: "plain_request p raw" "plain_node p raw" "plain_node p resource"
    and run: "storage_SetNodeResourceCapacity p w n resource raw delta incr = (w', r)"
  shows "puts_wf p w w'"
proof (cases "w' = w")
  case False
  then obtain req nr info req' cap where
    steps: "capacity_request p resource raw delta incr = Inr (req, nr)" "GetOrEmpty (storageStore p) w n = Inr info"
      "edit_capacity p raw req delta (Capacity info) = Inr (req', cap)"
    and put: "storage_put_part p w n (info\<lparr>Capacity := (if delta then RemoveEmpty
        (storage_calculateNodeResource req' nr (Some cap) [] delta incr)
        else storage_calculateNodeResource req' nr (Some cap) [] delta incr)\<rparr>) Capacity (nr_DeepCopy (Capacity info)) = (w', r)"
    using run by (auto simp: storage_SetNodeResourceCapacity_def Let_def bind_res_Inr_iff split: sum.splits)
  have ok: "info_ok info" by (rule in_ok [OF steps(2)])
  note wf = capacity_request_wf [OF steps(1) plain]
  note wf' = edit_capacity_wf [OF steps(3) _ wf(1)]
  have "wf_resource (storage_calculateNodeResource req' nr (Some cap) [] delta incr)"
    using ok wf(2) wf' by (intro wf_calculate) (auto simp: info_ok_def)
  then show ?thesis using ok RemoveEmpty_wf by (intro puts_wf_part [OF put]) (auto simp: info_ok_def)
qed (simp add: puts_wf_def)

lemma SetNodeResourceUsage_puts_wf:
  assumes in_ok: "\<And>info. GetOrEmpty (storageStore p) w n = Inr info \<Longrightarrow> info_ok info"
    and plain: "plain_request p raw" "plain_node p resource" "list_all (plain_workload p) rs"
    and run: "storage_SetNodeResourceUsage p w n resource raw rs delta incr = (w', r)"
  shows "puts_wf p w w'"
proof (cases "w' = w")
  case False
  then obtain req nr ws info where
    steps: "storage_parseNodeResourceInfos p resource raw rs = Inr (req, nr, ws)" "GetOrEmpty (storageStore p) w n = Inr info"
    and put: "storage_put_part p w n (info\<lparr>Usage := storage_calculateNodeResource req nr (Some (Usage info)) ws delta incr\<rparr>)
        Usage (nr_DeepCopy (Usage info)) = (w', r)"
    using run by (auto simp: storage_SetNodeResourceUsage_def bind_res_Inr_iff split: sum.splits)
  have ok: "info_ok info" by (rule in_ok [OF steps(2)])
  have "wf_resource (storage_calculateNodeResource req nr (Some (Usage info)) ws delta incr)"
    using ok parseNodeResourceInfos_wf [OF steps(1) plain] by (intro wf_calculate) (auto simp: info_ok_def)
  then show ?thesis using ok by (intro puts_wf_part [OF put]) (auto simp: info_ok_def)
qed (simp add: puts_wf_def)

lemma SetNodeResourceInfo_puts_wf:
  assumes "plain_node p capacity" "plain_node p usage" "storage_SetNodeResourceInfo p w n capacity usage = (w', e)"
  shows "puts_wf p w w'"
proof (cases "w' = w")
  case False
  then obtain c u where cu: "decodeNode p capacity = Inr c" "decodeNode p usage = Inr u"
    using assms(3) by (auto simp: storage_SetNodeResourceInfo_def bind_res_Inr_iff split: sum.splits)
  let ?info = "\<lparr>Capacity = c\<lparr>Storage := Storage c + Total (Volumes c)\<rparr>, Usage = u\<rparr>"
  obtain r where "Put (storageStore p) w n ?info = (w', r)"
    using assms(3) cu by (auto simp: storage_SetNodeResourceInfo_def split: sum.splits prod.splits)
  moreover have "wf_resource (Capacity ?info)" "wf_resource (Usage ?info)"
    using assms(1,2) cu by (simp_all add: plain_node_def wf_resource_def)
  ultimately show ?thesis unfolding puts_wf_def by blast
qed (simp add: puts_wf_def)

lemma FixNodeResource_puts_wf:
  assumes in_ok: "\<And>info. Get (storageStore p) w n = Inr info \<Longrightarrow> info_ok info"
    and plain: "list_all (plain_workload p) rs" and run: "storage_FixNodeResource p w n rs = (w', r)"
  shows "puts_wf p w w'"
proof (cases "w' = w")
  case False
  then obtain info usage dfs where get: "storage_getNodeResourceInfo p w n rs = Inr (info, usage, dfs)"
    using run by (auto simp: storage_FixNodeResource_def split: sum.splits)
  then obtain ws where ws: "Get (storageStore p) w n = Inr info" "parse_workloads p rs = Inr ws"
    "usage = snd (storage_diffs (Usage info) (usage_of ws))"
    by (auto simp: storage_getNodeResourceInfo_def bind_res_Inr_iff Let_def split_def)
  obtain r' where put: "Put (storageStore p) w n (info\<lparr>Usage := usage\<rparr>) = (w', r')"
    using run get False by (auto simp: storage_FixNodeResource_def split: if_splits prod.splits sum.splits)
  have "wf_resource (usage_of ws)" by (rule usage_of_amounts(1) [OF parse_workloads_wf [OF ws(2) plain]])
  then have "wf_resource usage"
    using map_Device_quotas [OF disk_diffs_keeps [of "Disks (Usage info)" "Disks (usage_of ws)"]]
    by (simp add: ws(3) storage_diffs_def split_def Let_def wf_resource_def wf_disks_def)
  moreover have "info_ok info" by (rule in_ok [OF ws(1)])
  ultimately show ?thesis using put unfolding puts_wf_def info_ok_def
    by (metis NodeResourceInfo.simps(1,2) NodeResourceInfo.surjective NodeResourceInfo.update_convs(2))
qed (simp add: puts_wf_def)

section \<open>The invariant\<close>

lemma storage_step_keeps:
  assumes on: "storage_on p c" "all_or_nothing (storageStore p) c" and step: "storage_step p w w'" and ok: "stored_ok p w"
  shows "stored_ok p w'"
proof -
  note empty = GetOrEmpty_ok [OF on(1) ok]
  have "puts_wf p w w' \<or> (\<exists>n e. Delete (storageStore p) w n = (w', e))"
    using step
  proof cases
    case (AddNode raw n tot r)
    then show ?thesis by (intro disjI1 AddNode_puts_wf)
  next
    case (RemoveNode n e)
    then show ?thesis by (auto simp: storage_RemoveNode_def)
  next
    case (SetNodeResourceCapacity raw resource n delta incr r2)
    then show ?thesis by (intro disjI1 SetNodeResourceCapacity_puts_wf [OF empty])
  next
    case (SetNodeResourceUsage raw resource rs n delta incr r2)
    then show ?thesis by (intro disjI1 SetNodeResourceUsage_puts_wf [OF empty])
  next
    case (SetNodeResourceInfo capacity usage n e)
    then show ?thesis by (intro disjI1 SetNodeResourceInfo_puts_wf)
  next
    case (FixNodeResource rs n r3)
    have "info_ok info" if "Get (storageStore p) w n = Inr info" for info using ok that by (simp add: stored_ok_def)
    then show ?thesis using FixNodeResource by (intro disjI1 FixNodeResource_puts_wf)
  qed
  then show ?thesis
    using stored_ok_Put [OF on ok] stored_ok_Delete [OF on ok] ok unfolding puts_wf_def by blast
qed

lemma storage_reachable_ok:
  assumes "storage_on p c" "all_or_nothing (storageStore p) c" "(storage_step p)\<^sup>*\<^sup>* w w'" "stored_ok p w"
  shows "stored_ok p w'"
  using assms(3,4) by (induction rule: rtranclp_induct) (auto intro: storage_step_keeps [OF assms(1,2)])

text \<open>
  C4: The invariant of the whole plugin. Start from an empty cluster and run any sequence of the verbs that
  write, with any arguments that name a disk once, each succeeding or failing, etcd included (a failed
  write was made or was not). Then every record that can be read is within capacity: no quota and no
  volume of the capacity is used beyond what it has, and nothing is negative.
\<close>

theorem storage_records_stay_within_capacity:
  assumes "storage_on p c" "all_or_nothing (storageStore p) c" "\<forall>k. c w0 k = None"
    and "(storage_step p)\<^sup>*\<^sup>* w0 w" "Get (storageStore p) w n = Inr info"
  shows "info_ok info"
proof -
  have "etcd_ok (storageStore p) c" "reads_ok (storageStore p)" using assms(1) by (simp_all add: storage_on_def)
  from Get_by_content [OF this] have "stored_ok p w0" using assms(3) by (simp add: stored_ok_def)
  with storage_reachable_ok [OF assms(1,2,4)] assms(5) show ?thesis unfolding stored_ok_def by blast
qed

theorem storage_records_stay_within_capacity_witness:
  "\<exists>w info. (storage_step (sample_plugin new_table))\<^sup>*\<^sup>* [] w \<and>
     Get (storageStore (sample_plugin new_table)) w ''n1'' = Inr info \<and> info_ok info"
proof -
  let ?p = "sample_plugin new_table"
  obtain w r where add: "storage_AddNode ?p [] ''n1'' add_params None = (w, r)" by fastforce
  then have w: "w = fst (storage_AddNode ?p [] ''n1'' add_params None)" by simp
  have "plain_request ?p add_params" by code_simp
  then have "storage_step ?p [] w" using add by (rule storage_step.AddNode)
  then have reach: "(storage_step ?p)\<^sup>*\<^sup>* [] w" by (rule r_into_rtranclp)
  have "case Get (storageStore ?p) (fst (storage_AddNode ?p [] ''n1'' add_params None)) ''n1'' of Inr _ \<Rightarrow> True | Inl _ \<Rightarrow> False"
    by code_simp
  then obtain info where info: "Get (storageStore ?p) w ''n1'' = Inr info" unfolding w using Inr_of_case by blast
  have "all_or_nothing (storageStore ?p) map_of"
    by (simp add: all_or_nothing_def sample_plugin_def storage_newStore_def table_store_def)
  from storage_records_stay_within_capacity [OF sample_plugin_on this _ reach info] show ?thesis using reach info by auto
qed

end
