(* ===== verification/Plugincmd_Props.thy ===== *)
theory Plugincmd_Props
  imports Plugincmd Storage_Nodes Gpu_Nodes
begin

text \<open>
  The binaries from the outside: which node is answered with \<open>null\<close>, and what happens to a call that
  names no node.
\<close>

section \<open>A node the plugin never saw\<close>

text \<open>An error of a codec or a decoder is not core's sentinel for a missing node.\<close>

definition own_errors :: "('b \<Rightarrow> 'a res) \<Rightarrow> bool" where
  "own_errors f \<longleftrightarrow> (\<forall>x e. f x = Inl e \<longrightarrow> \<not> errors_is e ErrNodeNotExists)"

lemma Get_absent_iff:
  assumes "etcd_ok s c" "reads_ok s" "own_errors (\<lambda>d. unmarshal s d (newInfo s))"
  shows "(\<exists>e. Get s w n = Inl e \<and> errors_is e ErrNodeNotExists) \<longleftrightarrow> c w (key s n) = None"
  using assms(3) unfolding Get_by_content [OF assms(1,2)] own_errors_def by (auto split: option.splits)

lemma fallible_map_own:
  assumes "own_errors f"
  shows "parse_workloads p rs = Inl e \<Longrightarrow> decodeWorkload p = f \<Longrightarrow> \<not> errors_is e ErrNodeNotExists"
  using assms by (induction p rs arbitrary: e rule: parse_workloads.induct) (auto simp: own_errors_def bind_res_def split: sum.splits)

lemma gpu_fallible_map_own:
  assumes "own_errors f"
  shows "gpu_parse_workloads p rs = Inl e \<Longrightarrow> gpuDecode p = f \<Longrightarrow> \<not> errors_is e ErrNodeNotExists"
  using assms by (induction p rs arbitrary: e rule: gpu_parse_workloads.induct) (auto simp: own_errors_def bind_res_def split: sum.splits)

lemma null_iff:
  assumes "nodename_of cmd raw = Inr n"
    and "(\<exists>e. f w n (inSliceRawParams cmd raw ''workloads_resource'') = Inl e \<and> errors_is e ErrNodeNotExists) \<longleftrightarrow> absent"
  shows "cmd_getNodeResourceInfo cmd f raw w = Inr None \<longleftrightarrow> absent"
  using assms by (auto simp: cmd_getNodeResourceInfo_def on_node_def split: sum.splits)

lemma storage_null_iff:
  assumes "nodename_of cmd raw = Inr n" "storage_on p c"
    and "own_errors (\<lambda>d. unmarshal (storageStore p) d (newInfo (storageStore p)))" "own_errors (decodeWorkload p)"
  shows "cmd_getNodeResourceInfo cmd (storage_GetNodeResourceInfo p) raw w = Inr None \<longleftrightarrow> c w (key (storageStore p) n) = None"
proof (rule null_iff [where f = "storage_GetNodeResourceInfo p", OF assms(1)])
  have on: "etcd_ok (storageStore p) c" "reads_ok (storageStore p)" using assms(2) by (simp_all add: storage_on_def)
  show "(\<exists>e. storage_GetNodeResourceInfo p w n (inSliceRawParams cmd raw ''workloads_resource'') = Inl e \<and> errors_is e ErrNodeNotExists)
      \<longleftrightarrow> c w (key (storageStore p) n) = None"
    unfolding Get_absent_iff [OF on assms(3), symmetric] using fallible_map_own [OF assms(4)]
    by (auto simp: storage_GetNodeResourceInfo_def storage_getNodeResourceInfo_def bind_res_def Let_def split: sum.splits prod.splits)
qed

lemma gpu_null_iff:
  assumes "nodename_of cmd raw = Inr n" "gpu_on p c"
    and "own_errors (\<lambda>d. unmarshal (gpuStore p) d (newInfo (gpuStore p)))" "own_errors (gpuDecode p)"
  shows "cmd_getNodeResourceInfo cmd (gpu_GetNodeResourceInfo p) raw w = Inr None \<longleftrightarrow> c w (key (gpuStore p) n) = None"
proof (rule null_iff [where f = "gpu_GetNodeResourceInfo p", OF assms(1)])
  have on: "etcd_ok (gpuStore p) c" "reads_ok (gpuStore p)" using assms(2) by (simp_all add: gpu_on_def)
  show "(\<exists>e. gpu_GetNodeResourceInfo p w n (inSliceRawParams cmd raw ''workloads_resource'') = Inl e \<and> errors_is e ErrNodeNotExists)
      \<longleftrightarrow> c w (key (gpuStore p) n) = None"
    unfolding Get_absent_iff [OF on assms(3), symmetric] using gpu_fallible_map_own [OF assms(4)]
    by (auto simp: gpu_GetNodeResourceInfo_def gpu_getNodeResourceInfo_def bind_res_def apply_workloads_eq split: sum.splits prod.splits)
qed

text \<open>
  C39: \<open>get-node-resource-info\<close> answers \<open>null\<close> exactly for a node that has no record, in both plugins; a
  record or workloads that cannot be decoded are an error.
\<close>

theorem null_iff_never_seen:
  assumes "nodename_of cmd raw = Inr n" "storage_on p c"
    and "own_errors (\<lambda>d. unmarshal (storageStore p) d (newInfo (storageStore p)))" "own_errors (decodeWorkload p)"
    and "nodename_of cmd' raw' = Inr m" "gpu_on q c'"
    and "own_errors (\<lambda>d. unmarshal (gpuStore q) d (newInfo (gpuStore q)))" "own_errors (gpuDecode q)"
  shows "(cmd_getNodeResourceInfo cmd (storage_GetNodeResourceInfo p) raw w = Inr None \<longleftrightarrow> c w (key (storageStore p) n) = None) \<and>
    (cmd_getNodeResourceInfo cmd' (gpu_GetNodeResourceInfo q) raw' w' = Inr None \<longleftrightarrow> c' w' (key (gpuStore q) m) = None)"
  using storage_null_iff [OF assms(1-4)] gpu_null_iff [OF assms(5-8)] by blast

text \<open>A command line that asks for node \<open>n\<close>.\<close>

definition sample_cmd :: "string \<Rightarrow> 'r Cmd" where
  "sample_cmd n = \<lparr>inString = (\<lambda>_ _. n), inStringSlice = (\<lambda>_ _. [n]), inInt = (\<lambda>_ _. 0), inBool = (\<lambda>_ _. False),
     inRawParams = (\<lambda>_ _. None), inSliceRawParams = (\<lambda>_ _. []), decodeInfo = (\<lambda>_. Inr 0), decodeNodes = (\<lambda>_. Inr [])\<rparr>"

theorem null_iff_never_seen_witness:
  "cmd_getNodeResourceInfo (sample_cmd ''n3'') (storage_GetNodeResourceInfo (sample_plugin new_table)) (RawKeys []) sample_cluster = Inr None \<and>
   cmd_getNodeResourceInfo (sample_cmd ''n1'') (gpu_GetNodeResourceInfo sample_gpu) NilMap gpu_cluster \<noteq> Inr None"
proof -
  let ?p = "sample_plugin new_table" and ?cmd = "sample_cmd ''n3''" and ?cmd' = "sample_cmd ''n1''"
  have name: "nodename_of ?cmd (RawKeys []) = Inr ''n3''" "nodename_of ?cmd' NilMap = Inr ''n1''"
    by (simp_all add: nodename_of_def sample_cmd_def)
  have own: "own_errors (\<lambda>d. unmarshal (storageStore ?p) d (newInfo (storageStore ?p)))" "own_errors (decodeWorkload ?p)"
    "own_errors (\<lambda>d. unmarshal (gpuStore sample_gpu) d (newInfo (gpuStore sample_gpu)))" "own_errors (gpuDecode sample_gpu)"
    by (auto simp: own_errors_def sample_plugin_def storage_newStore_def sample_gpu_def gpu_newStore_def table_store_def
        split: if_splits option.splits raw.splits)
  have "map_of sample_cluster (key (storageStore ?p) ''n3'') = None" "map_of gpu_cluster (key (gpuStore sample_gpu) ''n1'') = Some ''1''"
    by code_simp+
  then show ?thesis
    using null_iff_never_seen [OF name(1) sample_plugin_on own(1,2) name(2) sample_gpu_on own(3,4)] by simp
qed

section \<open>A call without a node\<close>

text \<open>
  A call of a verb on one node that does not name the node ends the process with status 128 and
  \<open>ErrEmptyNodeName\<close>, and the cluster is not touched.
\<close>

theorem nameless_call_exits:
  assumes "inString cmd raw ''nodename'' = []" "lc = Inr cfg" "np cfg = Inr p"
  shows "serve lc np (Inr raw) m1 (\<lambda>p. cmd_addNode cmd (storage_AddNode p)) w = (w, Exit 128 ErrEmptyNodeName) \<and>
    serve lc np (Inr raw) m2 (\<lambda>p. cmd_removeNode cmd (storage_RemoveNode p)) w = (w, Exit 128 ErrEmptyNodeName) \<and>
    serve lc np (Inr raw) m3 (\<lambda>p. cmd_setNodeResourceCapacity cmd (storage_SetNodeResourceCapacity p)) w = (w, Exit 128 ErrEmptyNodeName) \<and>
    serve lc np (Inr raw) m3 (\<lambda>p. cmd_setNodeResourceUsage cmd (storage_SetNodeResourceUsage p)) w = (w, Exit 128 ErrEmptyNodeName) \<and>
    serve lc np (Inr raw) m2 (\<lambda>p. cmd_setNodeResourceInfo cmd (storage_SetNodeResourceInfo p)) w = (w, Exit 128 ErrEmptyNodeName) \<and>
    serve lc np (Inr raw) m4 (\<lambda>p. cmd_fixNodeResource cmd (storage_FixNodeResource p)) w = (w, Exit 128 ErrEmptyNodeName) \<and>
    serve lc np (Inr raw) m5 (\<lambda>p raw w. (w, cmd_getNodeResourceInfo cmd (storage_GetNodeResourceInfo p) raw w)) w = (w, Exit 128 ErrEmptyNodeName) \<and>
    serve lc np (Inr raw) m6 (\<lambda>p raw w. (w, cmd_calculateDeploy cmd (storage_CalculateDeploy p) raw w)) w = (w, Exit 128 ErrEmptyNodeName) \<and>
    serve lc np (Inr raw) m7 (\<lambda>p raw w. (w, cmd_calculateRealloc cmd (storage_CalculateRealloc p) raw w)) w = (w, Exit 128 ErrEmptyNodeName)"
proof -
  have "nodename_of cmd raw = Inl ErrEmptyNodeName" using assms(1) by (simp add: nodename_of_def)
  then show ?thesis
    using assms(2,3)
    by (simp add: serve_def exitCode_def cmd_addNode_def cmd_removeNode_def cmd_setNodeResourceCapacity_def
        cmd_setNodeResourceUsage_def cmd_setNodeResourceInfo_def cmd_fixNodeResource_def cmd_getNodeResourceInfo_def
        cmd_calculateDeploy_def cmd_calculateRealloc_def on_node_def on_node_state_def)
qed

theorem nameless_call_exits_witness:
  "serve (Inr ()) (\<lambda>_. Inr (sample_plugin new_table)) (Inr (RawKeys [])) (\<lambda>_. Inr [])
     (\<lambda>p. cmd_addNode (sample_cmd []) (storage_AddNode p)) sample_cluster = (sample_cluster, Exit 128 ErrEmptyNodeName)"
proof -
  have "inString (sample_cmd []) (RawKeys []) ''nodename'' = []" by (simp add: sample_cmd_def)
  from nameless_call_exits [where lc = "Inr ()" and cfg = "()" and np = "\<lambda>_. Inr (sample_plugin new_table)"
      and p = "sample_plugin new_table" and w = sample_cluster, OF this refl refl]
  show ?thesis by blast
qed

end
