(* ===== verification/Binaries.thy ===== *)
theory Binaries
  imports Plugincmd_Props Text_Props
begin

text \<open>
  The two binaries and what they put on the wire: \<open>cmd/\<close>, \<open>version/\<close>, \<open>Main\<close>, the raw parameters a
  resource is handed to core as, and the JSON of volume bindings. The command line library and the
  encoding of strings and maps are arguments.
\<close>

section \<open>Raw parameters\<close>

text \<open>A \<open>RawParams\<close> maps names to values of any type; these are the types the plugins put there.\<close>

datatype param = CountParam ProdCountMap | VolumesParam Volumes | DisksParam Disks | IntParam i64 | BoolParam bool
  | BindingsParam VolumeBindings | PlanParam VolumePlan | StringsParam "string list" | OptionsParam "(string, string) gomap"

definition prodCountMapKey :: string where
  "prodCountMapKey = ''prod_count_map''"

definition pcm_AsRawParams :: "ProdCountMap \<Rightarrow> (string, param) gomap" where
  "pcm_AsRawParams pcm = [(prodCountMapKey, CountParam pcm)]"

definition nr_AsRawParams :: "NodeResource \<Rightarrow> (string, param) gomap" where
  "nr_AsRawParams n = [(''volumes'', VolumesParam (Volumes n)), (''disks'', DisksParam (Disks n)),
     (''storage'', IntParam (Storage n))]"

definition workload_AsRawParams :: "WorkloadResource \<Rightarrow> (string, param) gomap" where
  "workload_AsRawParams w =
     [(''volumes_request'', BindingsParam (VolumesRequest w)), (''volumes_limit'', BindingsParam (VolumesLimit w)),
      (''volume_plan_request'', PlanParam (VolumePlanRequest w)), (''volume_plan_limit'', PlanParam (VolumePlanLimit w)),
      (''storage_request'', IntParam (StorageRequest w)), (''storage_limit'', IntParam (StorageLimit w)),
      (''disks_request'', DisksParam (DisksRequest w)), (''disks_limit'', DisksParam (DisksLimit w))]"

definition engine_AsRawParams :: "EngineParams \<Rightarrow> (string, param) gomap" where
  "engine_AsRawParams ep =
     [(''volumes'', StringsParam (epVolumes ep)), (''volume_changed'', BoolParam (VolumeChanged ep)),
      (''storage'', IntParam (epStorage ep)), (''iops_options'', OptionsParam (IOPSOptions ep))]"

text \<open>Nothing is lost on the way, and no name is used twice.\<close>

lemma AsRawParams_faithful:
  "wf_map (nr_AsRawParams n)" "nr_AsRawParams n = nr_AsRawParams n' \<longleftrightarrow> n = n'"
  "wf_map (workload_AsRawParams w)" "workload_AsRawParams w = workload_AsRawParams w' \<longleftrightarrow> w = w'"
  "wf_map (engine_AsRawParams ep)" "engine_AsRawParams ep = engine_AsRawParams ep' \<longleftrightarrow> ep = ep'"
  by (auto simp: wf_map_def nr_AsRawParams_def workload_AsRawParams_def engine_AsRawParams_def)

section \<open>JSON\<close>

text \<open>Bindings travel as the list of their texts, plans as a map from texts to volumes.\<close>

definition vbs_MarshalJSON :: "(string list \<Rightarrow> string res) \<Rightarrow> VolumeBindings \<Rightarrow> string res" where
  "vbs_MarshalJSON encode vbs = encode (vbs_strings vbs)"

definition vbs_UnmarshalJSON :: "(string \<Rightarrow> i64 res) \<Rightarrow> (string \<Rightarrow> string list res) \<Rightarrow> string \<Rightarrow> VolumeBindings res" where
  "vbs_UnmarshalJSON ram decode b = bind_res (decode b) (\<lambda>volumes. NewVolumeBindings ram volumes)"

lemma bindings_json_roundtrip:
  assumes "\<forall>vb \<in> set vbs. printable_binding vb" "\<And>a. ram (show_i64 a) = Inr a"
    and "vbs_MarshalJSON encode vbs = Inr text" "\<And>xs text. encode xs = Inr text \<Longrightarrow> decode text = Inr xs"
  shows "vbs_UnmarshalJSON ram decode text = Inr vbs"
proof -
  have "NewVolumeBindings ram (map (vb_ToString False) vbs) = Inr vbs"
    using assms(1) by (induction vbs) (simp_all add: NewVolumeBinding_print assms(2))
  then show ?thesis using assms(3) by (simp add: vbs_UnmarshalJSON_def vbs_MarshalJSON_def vbs_strings_def assms(4))
qed

definition plan_String :: "((string, Volumes) gomap \<Rightarrow> string res) \<Rightarrow> VolumePlan \<Rightarrow> string" where
  "plan_String encode p =
     (case encode (plan_MarshalJSON p) of Inl _ \<Rightarrow> ''can not marshal volume plan'' | Inr bs \<Rightarrow> bs)"

section \<open>version.go\<close>

definition newline :: string where
  "newline = [CHR 0x0A]"

definition version_String :: "string \<Rightarrow> string \<Rightarrow> string \<Rightarrow> string \<Rightarrow> string \<Rightarrow> string \<Rightarrow> string" where
  "version_String VERSION REVISION BUILTAT goVersion GOOS GOARCH =
     ''Version:        '' @ VERSION @ newline @ ''Git hash:       '' @ REVISION @ newline @
     ''Built:          '' @ BUILTAT @ newline @ ''Golang version: '' @ goVersion @ newline @
     ''OS/Arch:        '' @ GOOS @ ''/'' @ GOARCH @ newline"

section \<open>Main\<close>

text \<open>
  The application handed to the command line library: the flag that names the configuration file and the
  commands. The library writes the flag's value to the runner before it calls an action, so an action is
  a function of it.
\<close>

record ConfigFlag =
  flagName :: string
  flagValue :: string
  flagUsage :: string
  flagSource :: string

record 'w App =
  appName :: string
  appUsage :: string
  appVersion :: string
  versionPrinter :: string
  appFlag :: ConfigFlag
  appCommands :: "(string \<times> (string \<Rightarrow> 'w \<Rightarrow> 'w \<times> outcome)) list"

definition app_of :: "(verb \<Rightarrow> string) \<Rightarrow> (string \<Rightarrow> string res) \<Rightarrow> (string list \<Rightarrow> string res) \<Rightarrow> string \<Rightarrow> string \<Rightarrow>
    string \<Rightarrow> string \<Rightarrow> string \<Rightarrow> string \<Rightarrow> (verb \<Rightarrow> string \<Rightarrow> 'w \<Rightarrow> 'w \<times> outcome) \<Rightarrow> 'w App" where
  "app_of nm marshalString marshalStrings VERSION versionText binaryName pluginName usage configPath run_verb =
     \<lparr>appName = binaryName, appUsage = usage, appVersion = VERSION, versionPrinter = versionText,
      appFlag = \<lparr>flagName = ''config'', flagValue = configPath, flagUsage = ''config file path for plugin, in yaml'',
                 flagSource = ''ERU_RESOURCE_CONFIG_PATH''\<rparr>,
      appCommands = map (\<lambda>(n, cmd). (n, \<lambda>config. action pluginName marshalString marshalStrings (\<lambda>v. run_verb v config) cmd))
        (commands nm)\<rparr>"

text \<open>
  What a run of the application ends with: its output, an error, which may carry an exit status
  (\<open>cli.ExitCoder\<close>), or a panic.
\<close>

datatype run_result = RunPrinted string | RunFailed "int option" goerr | RunPanicked

text \<open>
  \<open>HandleExitCoder\<close> exits with the status of the error when it has one, and \<open>Main\<close> with 1 otherwise. A
  panic that reaches \<open>main\<close> ends a Go process with status 2 and a trace on the standard error.
\<close>

definition plugin_Main :: "('w App \<Rightarrow> 'w \<Rightarrow> 'w \<times> run_result) \<Rightarrow> 'w App \<Rightarrow> 'w \<Rightarrow> 'w \<times> string \<times> int" where
  "plugin_Main run app w =
     (case run app w of
        (w', RunPrinted text) \<Rightarrow> (w', text, 0)
      | (w', RunFailed (Some status) e) \<Rightarrow> (w', [], status)
      | (w', RunFailed None e) \<Rightarrow> (w', [], 1)
      | (w', RunPanicked) \<Rightarrow> (w', [], 2))"

section \<open>The plugins behind the commands\<close>

text \<open>What a handler answers; \<open>'n\<close> a node resource, \<open>'i\<close> the info of a node, \<open>'d\<close> and \<open>'l\<close> a deployment and a realloc.\<close>

datatype ('n, 'i, 'd, 'l, 'f) answer =
    DescriptionAnswer "(string \<times> string \<times> string \<times> string list) list" | MetricsAnswer "Metrics list"
  | NodeAnswer 'n | DoneAnswer | CapacityAnswer "(string, 'f NodeDeployCapacity) gomap \<times> i64" | ChangeAnswer "'n \<times> 'n"
  | InfoAnswer "'i option" | InfosAnswer "(string, 'n \<times> 'n) gomap" | IdleAnswer "string \<times> i64"
  | DeployAnswer 'd | ReallocAnswer 'l

definition reply :: "('o \<Rightarrow> 'a) \<Rightarrow> 'w \<times> 'o res \<Rightarrow> 'w \<times> 'a res" where
  "reply f r = (case r of (w, Inl e) \<Rightarrow> (w, Inl e) | (w, Inr out) \<Rightarrow> (w, Inr (f out)))"

text \<open>
  The handler of a verb is the one the tables of commands give it; it calls the method of the plugin that
  was built, of whatever type.
\<close>

definition gpu_handler :: "'r Cmd \<Rightarrow> ('w, 'r, 'f::linorder) GpuPlugin \<Rightarrow> verb \<Rightarrow> 'r \<Rightarrow> 'w \<Rightarrow>
    'w \<times> (ProdCountMap, gpu_InfoResponse, ProdCountMap list \<times> ProdCountMap list, gpu_ReallocResponse, 'f) answer res" where
  "gpu_handler c p v raw w = (case v of
     GetMetricsDescriptionCommand \<Rightarrow> reply DescriptionAnswer (w, cmd_getMetricsDescription gpu_GetMetricsDescription raw w)
   | GetMetricsCommand \<Rightarrow> reply MetricsAnswer (w, cmd_getMetrics c (gpu_GetMetrics p) raw w)
   | AddNodeCommand \<Rightarrow> reply NodeAnswer (cmd_addNode c (\<lambda>w n r _. gpu_AddNode p w n r) raw w)
   | RemoveNodeCommand \<Rightarrow> reply (\<lambda>_. DoneAnswer) (cmd_removeNode c (gpu_RemoveNode p) raw w)
   | GetNodesDeployCapacityCommand \<Rightarrow> reply CapacityAnswer (w, cmd_getNodesDeployCapacity c (gpu_GetNodesDeployCapacity p) raw w)
   | SetNodeResourceCapacityCommand \<Rightarrow> reply ChangeAnswer (cmd_setNodeResourceCapacity c (gpu_SetNodeResourceCapacity p) raw w)
   | GetNodeResourceInfoCommand \<Rightarrow> reply InfoAnswer (w, cmd_getNodeResourceInfo c (gpu_GetNodeResourceInfo p) raw w)
   | GetNodesResourceInfoCommand \<Rightarrow> reply InfosAnswer (w, cmd_getNodesResourceInfo c (gpu_GetNodesResourceInfo p) raw w)
   | SetNodeResourceInfoCommand \<Rightarrow> reply (\<lambda>_. DoneAnswer) (cmd_setNodeResourceInfo c (gpu_SetNodeResourceInfo p) raw w)
   | SetNodeResourceUsageCommand \<Rightarrow> reply ChangeAnswer (cmd_setNodeResourceUsage c (gpu_SetNodeResourceUsage p) raw w)
   | GetMostIdleNodeCommand \<Rightarrow> reply IdleAnswer (w, cmd_getMostIdleNode c (gpu_GetMostIdleNode p) raw w)
   | FixNodeResourceCommand \<Rightarrow> reply (\<lambda>i. InfoAnswer (Some i)) (cmd_fixNodeResource c (gpu_FixNodeResource p) raw w)
   | CalculateDeployCommand \<Rightarrow> reply DeployAnswer (w, cmd_calculateDeploy c (gpu_CalculateDeploy p) raw w)
   | CalculateReallocCommand \<Rightarrow> reply ReallocAnswer (w, cmd_calculateRealloc c (gpu_CalculateRealloc p) raw w))"

definition storage_handler :: "'r Cmd \<Rightarrow> ('w, 'r, 'f) StoragePlugin \<Rightarrow> verb \<Rightarrow> 'r \<Rightarrow> 'w \<Rightarrow>
    'w \<times> (NodeResource, InfoResponse, EngineParams list \<times> WorkloadResource list, ReallocResponse, 'f) answer res" where
  "storage_handler c p v raw w = (case v of
     GetMetricsDescriptionCommand \<Rightarrow> reply DescriptionAnswer (w, cmd_getMetricsDescription storage_GetMetricsDescription raw w)
   | GetMetricsCommand \<Rightarrow> reply MetricsAnswer (w, cmd_getMetrics c (storage_GetMetrics p) raw w)
   | AddNodeCommand \<Rightarrow> reply NodeAnswer (cmd_addNode c (storage_AddNode p) raw w)
   | RemoveNodeCommand \<Rightarrow> reply (\<lambda>_. DoneAnswer) (cmd_removeNode c (storage_RemoveNode p) raw w)
   | GetNodesDeployCapacityCommand \<Rightarrow> reply CapacityAnswer (w, cmd_getNodesDeployCapacity c (storage_GetNodesDeployCapacity p) raw w)
   | SetNodeResourceCapacityCommand \<Rightarrow> reply ChangeAnswer (cmd_setNodeResourceCapacity c (storage_SetNodeResourceCapacity p) raw w)
   | GetNodeResourceInfoCommand \<Rightarrow> reply InfoAnswer (w, cmd_getNodeResourceInfo c (storage_GetNodeResourceInfo p) raw w)
   | GetNodesResourceInfoCommand \<Rightarrow> reply InfosAnswer (w, cmd_getNodesResourceInfo c (storage_GetNodesResourceInfo p) raw w)
   | SetNodeResourceInfoCommand \<Rightarrow> reply (\<lambda>_. DoneAnswer) (cmd_setNodeResourceInfo c (storage_SetNodeResourceInfo p) raw w)
   | SetNodeResourceUsageCommand \<Rightarrow> reply ChangeAnswer (cmd_setNodeResourceUsage c (storage_SetNodeResourceUsage p) raw w)
   | GetMostIdleNodeCommand \<Rightarrow> reply IdleAnswer (w, cmd_getMostIdleNode c (\<lambda>_. storage_GetMostIdleNode) raw w)
   | FixNodeResourceCommand \<Rightarrow> reply (\<lambda>i. InfoAnswer (Some i)) (cmd_fixNodeResource c (storage_FixNodeResource p) raw w)
   | CalculateDeployCommand \<Rightarrow> reply DeployAnswer (w, cmd_calculateDeploy c (storage_CalculateDeploy p) raw w)
   | CalculateReallocCommand \<Rightarrow> reply ReallocAnswer (w, cmd_calculateRealloc c (storage_CalculateRealloc p) raw w))"

section \<open>The binaries\<close>

text \<open>
  What a process gets from outside: the configuration file (the deployment bound and the etcd machines),
  its input, the encoder of answers, core's names of the verbs, and the build and run-time identity.
\<close>

record ('r, 'a) Env =
  loadConfig :: "string \<Rightarrow> (i64 \<times> string list) res"
  decodeInput :: "'r res"
  marshalAnswer :: "'a \<Rightarrow> string res"
  marshalString :: "string \<Rightarrow> string res"
  marshalStrings :: "string list \<Rightarrow> string res"
  verbName :: "verb \<Rightarrow> string"
  VERSION :: string
  REVISION :: string
  BUILTAT :: string
  goVersion :: string
  goOS :: string
  goArch :: string

definition gpu_Name :: string where
  "gpu_Name = ''gpu''"

definition storage_Name :: string where
  "storage_Name = ''storage''"

definition main_with :: "('r, 'a) Env \<Rightarrow> string \<Rightarrow> string \<Rightarrow> string \<Rightarrow> string \<Rightarrow> (i64 \<times> string list \<Rightarrow> 'p res) \<Rightarrow>
    ('p \<Rightarrow> verb \<Rightarrow> 'r \<Rightarrow> 'w \<Rightarrow> 'w \<times> 'a res) \<Rightarrow> ('w App \<Rightarrow> 'w \<Rightarrow> 'w \<times> run_result) \<Rightarrow> 'w \<Rightarrow> 'w \<times> string \<times> int" where
  "main_with env binaryName pluginName usage configPath newPlugin handler run =
     plugin_Main run (app_of (verbName env) (marshalString env) (marshalStrings env) (VERSION env)
       (version_String (VERSION env) (REVISION env) (BUILTAT env) (goVersion env) (goOS env) (goArch env))
       binaryName pluginName usage configPath
       (\<lambda>v config. serve (loadConfig env config) newPlugin (decodeInput env) (marshalAnswer env) (\<lambda>p. handler p v)))"

definition gpu_main where
  "gpu_main env c core newETCD =
     main_with env ''resource-gpu'' gpu_Name ''Run eru resource GPU plugin'' ''gpu.yaml''
       (\<lambda>(_, machines). gpu_NewPlugin core machines newETCD) (gpu_handler c)"

definition storage_main where
  "storage_main env c core newETCD =
     main_with env ''resource-storage'' storage_Name ''Run eru resource storage plugin'' ''storage.yaml''
       (\<lambda>(maxDeploy, machines). storage_NewPlugin core maxDeploy machines newETCD) (storage_handler c)"

section \<open>What a call of a binary does\<close>

text \<open>
  The documented behaviour of the command line library on a command line that names a command: it runs
  the command's action with the flag's value and hands its error on; it does not recover a panic.
\<close>

definition runs_command :: "('w App \<Rightarrow> 'w \<Rightarrow> 'w \<times> run_result) \<Rightarrow> string \<Rightarrow> string \<Rightarrow> bool" where
  "runs_command run name config \<longleftrightarrow> (\<forall>app w act. map_of (appCommands app) name = Some act \<longrightarrow>
     run app w = (case act config w of (w', Printed text) \<Rightarrow> (w', RunPrinted text)
       | (w', Exit n e) \<Rightarrow> (w', RunFailed (Some n) e) | (w', Panicked) \<Rightarrow> (w', RunPanicked)))"

text \<open>Core's names of the verbs: all different, and not those of the other two commands.\<close>

definition verb_names :: "(verb \<Rightarrow> string) \<Rightarrow> bool" where
  "verb_names nm \<longleftrightarrow> inj nm \<and> (\<forall>v. nm v \<noteq> ''name'' \<and> nm v \<noteq> ''verbs'')"

lemma map_of_tagged: "inj nm \<Longrightarrow> v \<in> set vs \<Longrightarrow> map_of (map (\<lambda>v. (nm v, f v)) vs) (nm v) = Some (f v)"
  by (induction vs) (auto simp: inj_eq)

lemma commands_verb:
  assumes "verb_names nm"
  shows "map_of (commands nm) (nm v) = Some (VerbCommand v)"
proof -
  let ?vs = "metricsCommands @ nodeCommands @ calculateCommands"
  have "v \<in> set ?vs" by (cases v) (simp_all add: metricsCommands_def nodeCommands_def calculateCommands_def)
  moreover have "inj nm" using assms by (simp add: verb_names_def)
  ultimately have "map_of (map (\<lambda>v. (nm v, VerbCommand v)) ?vs) (nm v) = Some (VerbCommand v)" by (intro map_of_tagged)
  then show ?thesis using assms by (simp add: commands_def Let_def verb_names_def del: map_append)
qed

lemma main_runs_verb:
  assumes "runs_command run (verbName env v) config" "verb_names (verbName env)"
  shows "main_with env b pl us cp newPlugin handler run w =
    (case serve (loadConfig env config) newPlugin (decodeInput env) (marshalAnswer env) (\<lambda>p. handler p v) w of
       (w', Printed text) \<Rightarrow> (w', text, 0) | (w', Exit n e) \<Rightarrow> (w', [], n) | (w', Panicked) \<Rightarrow> (w', [], 2))"
proof -
  let ?app = "app_of (verbName env) (marshalString env) (marshalStrings env) (VERSION env)
       (version_String (VERSION env) (REVISION env) (BUILTAT env) (goVersion env) (goOS env) (goArch env)) b pl us cp
       (\<lambda>v config. serve (loadConfig env config) newPlugin (decodeInput env) (marshalAnswer env) (\<lambda>p. handler p v))"
  have "map_of (appCommands ?app) (verbName env v) = Some (\<lambda>config.
      serve (loadConfig env config) newPlugin (decodeInput env) (marshalAnswer env) (\<lambda>p. handler p v))"
    using commands_verb [OF assms(2), of v] by (simp add: app_of_def map_of_map action_def fun_eq_iff)
  from assms(1) [unfolded runs_command_def, rule_format, OF this] show ?thesis
    by (auto simp: main_with_def plugin_Main_def split: prod.splits outcome.splits)
qed

text \<open>The verbs on one node, and those on several.\<close>

definition node_verbs :: "verb set" where
  "node_verbs = {AddNodeCommand, RemoveNodeCommand, SetNodeResourceCapacityCommand, GetNodeResourceInfoCommand,
     SetNodeResourceInfoCommand, SetNodeResourceUsageCommand, FixNodeResourceCommand, CalculateDeployCommand, CalculateReallocCommand}"

definition nodes_verbs :: "verb set" where
  "nodes_verbs = {GetNodesDeployCapacityCommand, GetNodesResourceInfoCommand, GetMostIdleNodeCommand}"

definition names_no_node :: "'r Cmd \<Rightarrow> 'r \<Rightarrow> verb \<Rightarrow> bool" where
  "names_no_node c raw v \<longleftrightarrow> v \<in> node_verbs \<and> inString c raw ''nodename'' = [] \<or>
     v \<in> nodes_verbs \<and> inStringSlice c raw ''nodenames'' = []"

lemma on_none:
  assumes "inString c raw ''nodename'' = []"
  shows "on_node c raw f = Inl ErrEmptyNodeName" "on_node_state c raw w g = (w, Inl ErrEmptyNodeName)"
  by (simp_all add: on_node_def on_node_state_def nodename_of_def assms)

lemma on_nodes_none: "inStringSlice c raw ''nodenames'' = [] \<Longrightarrow> on_nodes c raw f = Inl ErrEmptyNodeName"
  by (simp add: on_nodes_def)

lemmas node_commands = cmd_addNode_def cmd_removeNode_def cmd_setNodeResourceCapacity_def cmd_setNodeResourceUsage_def
  cmd_setNodeResourceInfo_def cmd_fixNodeResource_def cmd_getNodeResourceInfo_def cmd_calculateDeploy_def
  cmd_calculateRealloc_def

lemmas nodes_commands = cmd_getNodesDeployCapacity_def cmd_getNodesResourceInfo_def cmd_getMostIdleNode_def

lemma handlers_nameless:
  assumes "names_no_node c raw v"
  shows "gpu_handler c p v raw w = (w, Inl ErrEmptyNodeName)" "storage_handler c q v raw w = (w, Inl ErrEmptyNodeName)"
proof -
  have "v \<in> node_verbs \<and> inString c raw ''nodename'' = [] \<or> v \<in> nodes_verbs \<and> inStringSlice c raw ''nodenames'' = []"
    using assms by (simp add: names_no_node_def)
  then show "gpu_handler c p v raw w = (w, Inl ErrEmptyNodeName)" "storage_handler c q v raw w = (w, Inl ErrEmptyNodeName)"
    by (cases v; simp add: node_verbs_def nodes_verbs_def gpu_handler_def storage_handler_def reply_def node_commands nodes_commands
        on_none on_nodes_none)+
qed

text \<open>A call of verb \<open>v\<close> with input \<open>raw\<close>.\<close>

definition calls :: "('r, 'a) Env \<Rightarrow> ('w App \<Rightarrow> 'w \<Rightarrow> 'w \<times> run_result) \<Rightarrow> string \<Rightarrow> verb \<Rightarrow> 'r \<Rightarrow> bool" where
  "calls env run config v raw \<longleftrightarrow> runs_command run (verbName env v) config \<and> verb_names (verbName env) \<and> decodeInput env = Inr raw"

lemma main_status:
  fixes b pl us cp newPlugin handler w
  assumes "calls env run config v raw"
  defines "m \<equiv> main_with env b pl us cp newPlugin handler run w"
  shows "\<exists>w' text. m \<in> {(w', text, 0), (w', [], 128)} \<or> m = (w', [], 2) \<and>
      (\<exists>p. bind_res (loadConfig env config) newPlugin = Inr p \<and> handler p v raw w = (w', Inl ErrPanic))"
    "bind_res (loadConfig env config) newPlugin = Inl e \<Longrightarrow> m = (w, [], 128)"
    "(\<And>p. handler p v raw w = (w, Inl e)) \<Longrightarrow> e \<noteq> ErrPanic \<Longrightarrow> m = (w, [], 128)"
    "bind_res (loadConfig env config) newPlugin = Inr p \<Longrightarrow> handler p v raw w = (w', Inl ErrPanic) \<Longrightarrow> m = (w', [], 2)"
proof -
  have c: "runs_command run (verbName env v) config" "verb_names (verbName env)" "decodeInput env = Inr raw"
    using assms(1) by (simp_all add: calls_def)
  note m = m_def [unfolded main_runs_verb [OF c(1,2)] serve_def c(3) printJSON_def exitCode_def]
  show "\<exists>w' text. m \<in> {(w', text, 0), (w', [], 128)} \<or> m = (w', [], 2) \<and>
      (\<exists>p. bind_res (loadConfig env config) newPlugin = Inr p \<and> handler p v raw w = (w', Inl ErrPanic))"
    "bind_res (loadConfig env config) newPlugin = Inl e \<Longrightarrow> m = (w, [], 128)"
    "(\<And>p. handler p v raw w = (w, Inl e)) \<Longrightarrow> e \<noteq> ErrPanic \<Longrightarrow> m = (w, [], 128)"
    "bind_res (loadConfig env config) newPlugin = Inr p \<Longrightarrow> handler p v raw w = (w', Inl ErrPanic) \<Longrightarrow> m = (w', [], 2)"
    unfolding m by (cases "loadConfig env config"; auto simp: bind_res_def split: sum.splits prod.splits)+
qed

lemma main_refused:
  assumes "calls env run config v raw"
    and "(\<exists>e. loadConfig env config = Inl e) \<or> (\<exists>m. loadConfig env config = Inr (m, [])) \<or> names_no_node c raw v"
    and "\<And>m. \<exists>e. newPlugin (m, []) = Inl e" "\<And>p. names_no_node c raw v \<Longrightarrow> handler p v raw w = (w, Inl ErrEmptyNodeName)"
  shows "main_with env b pl us cp newPlugin handler run w = (w, [], 128)"
  using assms(2)
proof (elim disjE exE)
  fix e assume "loadConfig env config = Inl e"
  then show ?thesis using main_status(2) [OF assms(1), of newPlugin e] by simp
next
  fix m assume "loadConfig env config = Inr (m, [])"
  then show ?thesis using main_status(2) [OF assms(1), of newPlugin] assms(3) [of m] by auto
next
  assume "names_no_node c raw v"
  then show ?thesis using main_status(3) [OF assms(1), of handler w ErrEmptyNodeName] assms(4) by blast
qed

text \<open>
  C40: How a binary ends. Called with a verb, either binary prints an answer and exits with 0, or it prints
  nothing and exits with 128, or the method of the plugin panics and the process ends with 2: there is no
  other status, and 2 is for panics only. It exits with 128 and leaves the cluster as it was when the
  configuration cannot be loaded or names no etcd machine, and when the verb is about a node or several
  and the input names none.
\<close>

theorem binary_exit_status:
  assumes "calls env run config v raw" "calls env' run' config' v' raw'"
  shows "(\<exists>w' text. storage_main env c core newETCD run w \<in> {(w', text, 0), (w', [], 128)} \<or>
       storage_main env c core newETCD run w = (w', [], 2) \<and>
         (\<exists>p. bind_res (loadConfig env config) (\<lambda>(maxDeploy, machines). storage_NewPlugin core maxDeploy machines newETCD) = Inr p \<and>
            storage_handler c p v raw w = (w', Inl ErrPanic))) \<and>
    ((\<exists>e. loadConfig env config = Inl e) \<or> (\<exists>m. loadConfig env config = Inr (m, [])) \<or> names_no_node c raw v \<longrightarrow>
       storage_main env c core newETCD run w = (w, [], 128)) \<and>
    (\<exists>w' text. gpu_main env' c' core' newETCD' run' u \<in> {(w', text, 0), (w', [], 128)} \<or>
       gpu_main env' c' core' newETCD' run' u = (w', [], 2) \<and>
         (\<exists>p. bind_res (loadConfig env' config') (\<lambda>(_, machines). gpu_NewPlugin core' machines newETCD') = Inr p \<and>
            gpu_handler c' p v' raw' u = (w', Inl ErrPanic))) \<and>
    ((\<exists>e. loadConfig env' config' = Inl e) \<or> (\<exists>m. loadConfig env' config' = Inr (m, [])) \<or> names_no_node c' raw' v' \<longrightarrow>
       gpu_main env' c' core' newETCD' run' u = (u, [], 128))"
  unfolding storage_main_def gpu_main_def
proof (intro conjI impI main_status(1) [OF assms(1)] main_status(1) [OF assms(2)])
  assume "(\<exists>e. loadConfig env config = Inl e) \<or> (\<exists>m. loadConfig env config = Inr (m, [])) \<or> names_no_node c raw v"
  then show "main_with env ''resource-storage'' storage_Name ''Run eru resource storage plugin'' ''storage.yaml''
      (\<lambda>(maxDeploy, machines). storage_NewPlugin core maxDeploy machines newETCD) (storage_handler c) run w = (w, [], 128)"
    by (rule main_refused [OF assms(1)]) (simp_all add: storage_NewPlugin_def Open_def handlers_nameless)
next
  assume "(\<exists>e. loadConfig env' config' = Inl e) \<or> (\<exists>m. loadConfig env' config' = Inr (m, [])) \<or> names_no_node c' raw' v'"
  then show "main_with env' ''resource-gpu'' gpu_Name ''Run eru resource GPU plugin'' ''gpu.yaml''
      (\<lambda>(_, machines). gpu_NewPlugin core' machines newETCD') (gpu_handler c') run' u = (u, [], 128)"
    by (rule main_refused [OF assms(2)]) (simp_all add: gpu_NewPlugin_def Open_def handlers_nameless)
qed

text \<open>A process that calls \<open>name\<close> on a command line library that does what its documentation says.\<close>

definition sample_run :: "string \<Rightarrow> 'w App \<Rightarrow> 'w \<Rightarrow> 'w \<times> run_result" where
  "sample_run name app w = (case map_of (appCommands app) name of
     None \<Rightarrow> (w, RunFailed None (ErrExternal ''no such command''))
   | Some act \<Rightarrow> (case act (flagValue (appFlag app)) w of
       (w', Printed text) \<Rightarrow> (w', RunPrinted text)
       | (w', Exit n e) \<Rightarrow> (w', RunFailed (Some n) e) | (w', Panicked) \<Rightarrow> (w', RunPanicked)))"

fun sample_verb_name :: "verb \<Rightarrow> string" where
  "sample_verb_name GetMetricsDescriptionCommand = ''get-metrics-description''"
| "sample_verb_name GetMetricsCommand = ''get-metrics''"
| "sample_verb_name AddNodeCommand = ''add-node''"
| "sample_verb_name RemoveNodeCommand = ''remove-node''"
| "sample_verb_name GetNodesDeployCapacityCommand = ''get-nodes-deploy-capacity''"
| "sample_verb_name SetNodeResourceCapacityCommand = ''set-node-resource-capacity''"
| "sample_verb_name GetNodeResourceInfoCommand = ''get-node-resource-info''"
| "sample_verb_name GetNodesResourceInfoCommand = ''get-nodes-resource-info''"
| "sample_verb_name SetNodeResourceInfoCommand = ''set-node-resource-info''"
| "sample_verb_name SetNodeResourceUsageCommand = ''set-node-resource-usage''"
| "sample_verb_name GetMostIdleNodeCommand = ''get-most-idle-node''"
| "sample_verb_name FixNodeResourceCommand = ''fix-node-resource''"
| "sample_verb_name CalculateDeployCommand = ''calculate-deploy''"
| "sample_verb_name CalculateReallocCommand = ''calculate-realloc''"

definition sample_env :: "'r \<Rightarrow> ('r, 'a) Env" where
  "sample_env raw = \<lparr>loadConfig = (\<lambda>path. if path = ''storage.yaml'' then Inr (16, [''etcd:2379'']) else Inr (16, [])),
     decodeInput = Inr raw, marshalAnswer = (\<lambda>_. Inr ''{}''), marshalString = Inr, marshalStrings = (\<lambda>xs. Inr (join_with '','' xs)),
     verbName = sample_verb_name, VERSION = ''unknown'', REVISION = ''HEAD'', BUILTAT = ''now'',
     goVersion = ''go'', goOS = ''linux'', goArch = ''amd64''\<rparr>"

lemma sample_calls:
  "calls (sample_env raw) (\<lambda>app w. sample_run (sample_verb_name v) (app\<lparr>appFlag := (appFlag app)\<lparr>flagValue := config\<rparr>\<rparr>) w) config v raw"
proof -
  have "inj sample_verb_name"
    by (rule injI, rename_tac x y, case_tac x; case_tac y; simp)
  moreover have "sample_verb_name v \<noteq> ''name'' \<and> sample_verb_name v \<noteq> ''verbs''" for v by (cases v) simp_all
  ultimately show ?thesis
    by (auto simp: calls_def runs_command_def verb_names_def sample_env_def sample_run_def)
qed

text \<open>
  \<open>remove-node\<close> without a node name, and \<open>get-metrics-description\<close> of a GPU binary whose configuration
  names no etcd machine.
\<close>

theorem binary_exit_status_witness:
  "storage_main (sample_env (RawKeys [])) (sample_cmd []) (sample_plugin new_table) (\<lambda>_. Inr (storageStore (sample_plugin new_table)))
     (\<lambda>app w. sample_run (sample_verb_name RemoveNodeCommand) (app\<lparr>appFlag := (appFlag app)\<lparr>flagValue := ''storage.yaml''\<rparr>\<rparr>) w)
     sample_cluster = (sample_cluster, [], 128) \<and>
   gpu_main (sample_env NilMap) (sample_cmd []) sample_gpu (\<lambda>_. Inr (gpuStore sample_gpu))
     (\<lambda>app w. sample_run (sample_verb_name GetMetricsDescriptionCommand) (app\<lparr>appFlag := (appFlag app)\<lparr>flagValue := ''gpu.yaml''\<rparr>\<rparr>) w)
     gpu_cluster = (gpu_cluster, [], 128)"
proof -
  have "names_no_node (sample_cmd []) (RawKeys []) RemoveNodeCommand" by (simp add: names_no_node_def node_verbs_def sample_cmd_def)
  moreover have "\<exists>m. loadConfig (sample_env NilMap) ''gpu.yaml'' = Inr (m, [])" by (simp add: sample_env_def)
  ultimately show ?thesis
    using binary_exit_status [OF sample_calls [of "RawKeys []" RemoveNodeCommand "''storage.yaml''"]
        sample_calls [of NilMap GetMetricsDescriptionCommand "''gpu.yaml''"],
        of "sample_cmd []" "sample_plugin new_table" "\<lambda>_. Inr (storageStore (sample_plugin new_table))" sample_cluster
        "sample_cmd []" sample_gpu "\<lambda>_. Inr (gpuStore sample_gpu)" gpu_cluster] by blast
qed

end
