(* ===== verification/Spec2Isabelle.thy ===== *)
theory Spec2Isabelle
  imports Gpu_Nodes Disk_Props Affinity_Props Schedule_Capacity Mount_Passes Placement Mono_Props Realloc_Props Node_Machine
    Storage_Machine Storage_Fix Text_Props Binaries Deploy_Safety
begin

text \<open>
  Verification library for the eru resource plugins, the GPU plugin (\<open>src/gpu\<close>) and the storage plugin
  (\<open>src/storage\<close>).

  \<^bold>\<open>The program.\<close> The eru scheduler core runs a plugin binary once per request. \<open>src/plugincmd\<close> reads the
  request from standard input, calls one verb of the plugin and prints its answer. A verb reads the record
  of one or of several nodes from etcd through \<open>src/nodestore\<close>, computes, and, when it edits a node,
  validates the record and writes it back. A record is a capacity and a usage. The GPU plugin counts cards
  per product model. The storage plugin accounts for a storage total, the size of every volume and the
  read and write IOPS and BPS of every disk, and places volume requests on devices
  (\<open>src/storage/schedule\<close>). Core records what a deployment or a realloc takes by a second call,
  \<open>set-node-resource-usage\<close>.

  \<^bold>\<open>The model, bottom up.\<close>

  \<^item> \<open>GoInt\<close>, \<open>GoString\<close>, \<open>GoFloat\<close>, \<open>GoSlices\<close>: what the source uses of Go: \<open>int64\<close> as a 64-bit word read
    signed, with wrap-around; strings; \<open>float64\<close> as the rational value rounded to 53 bits;
    \<open>container/heap\<close> and \<open>slices\<close> as functions on lists. \<open>Prelude\<close>: errors, results (\<open>Inl\<close> the error,
    \<open>Inr\<close> the value; \<open>ErrPanic\<close> stands for a run-time panic), Go maps as lists of entries with distinct
    keys in iteration order, shared lemmas. \<open>Core_Types\<close>: the answers of the plugin protocol.
  \<^item> \<open>Nodestore\<close> is \<open>nodestore/nodestore.go\<close>; \<open>Store_Props\<close> has its lemmas.
  \<^item> \<open>Gpu_Types\<close> is \<open>gpu/types\<close>; \<open>Gpu_Plugin\<close> is \<open>gpu/calculate.go\<close>, \<open>node.go\<close>, \<open>metrics.go\<close> and
    \<open>gpu.go\<close>; \<open>Gpu_Props\<close> and \<open>Gpu_Nodes\<close> have the lemmas on allocation and on the verbs.
  \<^item> \<open>Disk\<close>, \<open>Volume\<close>, \<open>Node\<close> and \<open>Workload\<close> are the files of \<open>storage/types\<close>; \<open>Disk_Props\<close>,
    \<open>Node_Props\<close> and \<open>Text_Props\<close> (printing and parsing) their lemmas.
  \<^item> \<open>Schedule\<close> is \<open>storage/schedule/schedule.go\<close> up to \<open>GetVolumeCapacity\<close>, \<open>Affinity\<close> the rest of it,
    \<open>GetAffinityPlan\<close>. \<open>Host\<close> has what no step changes, \<open>Account\<close>, \<open>Backing\<close> and \<open>Plan_Safety\<close> that what
    is handed out is paid for, \<open>No_Panic\<close> that scheduling returns, \<open>Schedule_Capacity\<close> that counting and
    building agree, \<open>Mount_Passes\<close> the closed form of the mount passes, \<open>Placement\<close> the best-fit
    specification the heap refines, \<open>Capacity_Reached\<close> that asking for less than the capacity gets what is
    asked for, \<open>Mono_Props\<close> the division of a monopoly volume, \<open>Affinity_Props\<close>
    that a realloc stays on its devices, \<open>Affinity_Safety\<close> that it takes no more than is free or given back,
    \<open>Held_Quota\<close> that a disk plan is the quota its bindings take. \<open>Samples\<close> holds the node the theorems are
    evaluated on.
  \<^item> \<open>Storage_Alloc\<close> is \<open>storage/calculate.go\<close>, \<open>utils.go\<close> and \<open>storage.go\<close>; \<open>Storage_Node\<close> is
    \<open>storage/node.go\<close> and \<open>metrics.go\<close>. \<open>Deploy_Safety\<close>, \<open>Storage_Realloc\<close>, \<open>Realloc_Props\<close> and
    \<open>Realloc_Safety\<close> treat deploying and reallocating, \<open>Storage_Verbs\<close>, \<open>Storage_Nodes\<close> and \<open>Storage_Fix\<close> the verbs through the
    store. \<open>Node_Machine\<close> is the life of a node as a transition system, workloads deployed, reallocated and
    removed; \<open>Storage_Machine\<close> is the cluster as one, a step a call of any verb. \<open>Sample_Plugin\<close> is an executable instance
    of what is outside the repository.
  \<^item> \<open>Plugincmd\<close> is \<open>plugincmd/\<close> and the two \<open>NewPlugin\<close>; \<open>Plugincmd_Props\<close> has its lemmas. \<open>Binaries\<close>
    puts the plugins behind the commands: \<open>Main\<close>, \<open>cmd/\<close>, \<open>version/\<close>, and what results look like to core.
  \<^item> \<open>Ledger\<close> is the interface the resources share: amounts per kind of thing, added and subtracted. It
    is interpreted on card maps, volume maps, disk lists and node resources.

  \<^bold>\<open>State.\<close> The state of the cluster is etcd's, of any type \<open>'w\<close>; a verb that writes takes it and returns
  it, next to its result and on the error paths too. A function that changes the scheduler's \<open>host\<close>
  returns the host. A \<open>*Disk\<close> into a list is its position there, a \<open>*volume\<close> the element itself in the
  list that holds it. A function the code lets write through a pointer (\<open>Validate\<close>, \<open>Add\<close>, \<open>Sub\<close>) returns
  the changed value.

  \<^bold>\<open>What is outside\<close> is a parameter. \<open>Store\<close>: the etcd client, the JSON codec of the records and
  \<open>utils.Tail\<close>. \<open>GpuPlugin\<close>, \<open>StoragePlugin\<close> and \<open>RawParams\<close>: core's typed accessors and decoders of raw
  parameters, \<open>ParseRAMInHuman\<close>, \<open>AdvancedDivide\<close>. \<open>Cmd\<close>: what a handler reads from its input. \<open>Env\<close>: the
  configuration, the input and the encoders of a process. The
  hypotheses on them say what the documentation of these packages says: \<open>etcd_ok\<close>, a read gives what was
  put last and a write changes one key; \<open>range_ok\<close>, a range read gives the keys below the prefix, once each;
  \<open>codec_ok\<close> and \<open>reads_ok\<close>, a record that was marshalled is read back and an absent key is reported as
  such; \<open>all_or_nothing\<close>, a write that fails was made or was not. \<open>storage_on\<close> and \<open>gpu_on\<close> bundle them.
  Each theorem that has such a hypothesis is followed by its use on \<open>Sample_Plugin\<close> or \<open>sample_gpu\<close>.

  \<^bold>\<open>Bounds.\<close> Where a sum could exceed \<open>int64\<close> the theorem says from where on: sizes and quotas are not
  negative and the amounts added stay below \<open>2 ^ 63\<close>. Amounts compared as integers are \<open>sint\<close> of the words,
  so nothing that wraps is counted as enough. Loops over a slice or a map are recursion on the list of its
  entries. The loop that makes normal plans recurses with a measure, the plans still to make below the
  bound the code computes first; that of \<open>promote\<close> with the number of unused volumes; those of the heap
  with the positions left. So every function is total, without fuel, and \<open>GetVolumePlans_returns\<close> adds
  that the plans come back without a panic.

  \<^bold>\<open>What the lemmas show.\<close> Scheduling: every plan serves every request, all plans of a call together take
  no more than is free, the capacity is the number of plans and any smaller count is met as well, requests go to the smallest volume
  that fits, the fast paths equal the loops they replace, nothing panics. Deploying and reallocating:
  every count up to the capacity reported under \<open>MaxDeployCount\<close> is deployed and leaves the node within
  capacity, a validated request has the sizes of its volumes in its storage, once, the delta of a realloc
  moves the usage from the old workload to the new one, volumes stay on their device, the engine is told of every new bind. Over the whole life
  of a node the recorded usage is what its workloads hold, and that is within capacity. Records:
  validation accepts exactly the records within capacity, every record any sequence of calls leaves in
  etcd is one, adding and taking away restores, a repair leaves no difference; what no difference means
  is said for a usage that lists the disks its workloads take quota of (\<open>lists_disks\<close>), since the code
  does not compare the others. Text: what is printed is read back, volume bindings when no part holds a
  separator and the flags are sorted and have an \<open>o\<close> only next to one of \<open>r\<close> and \<open>w\<close>. Errors: a verb that
  fails before its write leaves the cluster alone, a binary exits with 0 and an answer or with 128 and
  none, or ends with status 2 when the plugin panics: nothing in \<open>src\<close> recovers a panic.

  \<^bold>\<open>Iteration order.\<close> Go iterates a map in any order. A map is the list of its entries and the theorems
  hold for every such list, so for every order of the maps a function is given. Where a function ranges
  over a map it has built itself, the affinity map of \<open>GetAffinityPlan\<close> and the merged bindings of
  \<open>MergeVolumeBindings\<close>, it takes a number that picks the order by \<open>shuffle\<close>, which reaches every order
  (\<open>shuffle_onto\<close>); \<open>mapOrder\<close> of the storage plugin holds one number per loop, and the theorems hold for
  all of them. The plans the scheduler builds are ranged over only to look entries up or to add amounts.
  Where the code sorts the keys, so does the model. \<open>slices.SortFunc\<close> may permute equal elements of long
  slices; \<open>sort_disks_determined\<close> and \<open>sort_bindings_determined\<close> say when that makes no difference.

  \<^bold>\<open>Not modelled.\<close> The help texts of the commands; logging; contexts and cancellation; the command line
  library, of which \<open>Binaries\<close> assumes that it runs the command it is called with.
  \<open>GetNodesDeployCapacity\<close> of the storage plugin plans the nodes concurrently, each planner writing its
  own slot: the model maps the planner over the nodes. Two plugin processes that edit one node at the
  same time race on the record (read, then write, without a lock); the verbs are modelled as run one
  after the other.
\<close>

end
